(* ===== verification/Jet_Prelude.thy ===== *)
theory Jet_Prelude
  imports Main "HOL-Library.AList" "HOL-Library.Word" "HOL-Library.Multiset" "HOL-Library.Sublist"
begin

text \<open>
  The vocabulary every component theory shares.

  \<^item> Identifiers. \<open>Pubkey\<close>, \<open>Signature\<close> and \<open>Hash\<close> are opaque byte arrays that the program
    only copies and compares; each is a datatype of its own over \<open>nat\<close>, so that the three cannot be
    confused. A \<open>SocketAddr\<close> is an address and a port.
  \<^item> Machine integers. \<open>u64\<close> is \<^typ>\<open>64 word\<close>: slots and block heights are added to constants
    without a check, and the release profile wraps around. \<open>usize\<close> counters that the code keeps
    bounded are \<^typ>\<open>nat\<close>. Instants and durations are \<^typ>\<open>nat\<close> (nanoseconds); the
    saturating difference of two instants is the truncated difference of \<^typ>\<open>nat\<close>.
  \<^item> Containers. A \<open>HashMap\<close> is an association list with distinct keys (its iteration order is the
    order of the list, and no property depends on it), with the operations of
    \<^theory_text>\<open>HOL-Library.AList\<close>; a \<open>BTreeMap\<close> is an association list in ascending key order
    (section on ordered maps below). A \<open>HashSet\<close> that the code iterates over or counts is a list without
    repetitions; one that is only asked for membership is a set.
  \<^item> Failure. A panic (\<open>expect\<close>, \<open>assert!\<close>, \<open>panic!\<close>) is the left summand of
    \<open>panic + 'a\<close>; \<open>res_bind\<close> propagates it.

  The collection \<open>hmap_simps\<close> holds the lookup laws of the two kinds of maps, \<open>inv_intros\<close> the
  preservation lemmas of the components' invariants.
\<close>

named_theorems hmap_simps \<open>lookup laws of hash maps and ordered maps\<close>
named_theorems inv_intros \<open>preservation of the components' invariants\<close>

section \<open>Identifiers and integers\<close>

datatype pubkey = Pubkey nat
datatype signature = Signature nat
datatype hash = Hash nat
datatype socket_addr = SocketAddr nat nat

type_synonym u64 = "64 word"
type_synonym slot = u64
type_synonym block_height = u64
type_synonym instant = nat
type_synonym duration = nat
type_synonym bytes = "8 word list"

definition u64_saturating_sub :: "u64 \<Rightarrow> u64 \<Rightarrow> u64" where
  "u64_saturating_sub a b = (if a < b then 0 else a - b)"

lemma unat_saturating_sub: "unat (u64_saturating_sub a b) = unat a - unat b"
  by (auto simp: u64_saturating_sub_def word_less_nat_alt unat_sub_if')

lemma u64_add_no_wrap:
  fixes a b :: u64
  assumes "unat a + unat b < 2 ^ 64"
  shows "unat (a + b) = unat a + unat b"
  using assms by (simp add: unat_word_ariths)

lemma u64_less_add_iff:
  fixes a b c :: u64
  assumes "unat a + unat b < 2 ^ 64"
  shows "c < a + b \<longleftrightarrow> unat c < unat a + unat b"
  using assms by (simp add: word_less_nat_alt u64_add_no_wrap)

section \<open>Panics\<close>

datatype panic = Panic string

type_synonym 'a res = "panic + 'a"

definition res_bind :: "'a res \<Rightarrow> ('a \<Rightarrow> 'b res) \<Rightarrow> 'b res" where
  "res_bind r f = (case r of Inl p \<Rightarrow> Inl p | Inr a \<Rightarrow> f a)"

lemma res_bind_simps [simp]:
  "res_bind (Inl p) f = Inl p"
  "res_bind (Inr a) f = f a"
  by (simp_all add: res_bind_def)

lemma res_bind_eq_Inr [simp]:
  "res_bind r f = Inr b \<longleftrightarrow> (\<exists>a. r = Inr a \<and> f a = Inr b)"
  by (cases r) simp_all

definition expect :: "string \<Rightarrow> 'a option \<Rightarrow> 'a res" where
  "expect msg x = (case x of None \<Rightarrow> Inl (Panic msg) | Some a \<Rightarrow> Inr a)"

lemma expect_simps [simp]:
  "expect msg None = Inl (Panic msg)"
  "expect msg (Some a) = Inr a"
  by (simp_all add: expect_def)

lemma expect_eq_Inr [simp]: "expect msg x = Inr a \<longleftrightarrow> x = Some a"
  by (cases x) simp_all

text \<open>A computation that does not panic and whose result satisfies a predicate.\<close>

definition res_ok :: "('a \<Rightarrow> bool) \<Rightarrow> 'a res \<Rightarrow> bool" where
  "res_ok P r = (case r of Inl _ \<Rightarrow> False | Inr a \<Rightarrow> P a)"

lemma res_ok_simps [simp]: "res_ok P (Inr a) \<longleftrightarrow> P a" "\<not> res_ok P (Inl p)"
  by (simp_all add: res_ok_def)

lemma res_okD: "res_ok P r \<Longrightarrow> \<exists>a. r = Inr a \<and> P a"
  by (cases r) simp_all

lemma res_ok_bind: "res_ok P r \<Longrightarrow> (\<And>a. P a \<Longrightarrow> res_ok Q (f a)) \<Longrightarrow> res_ok Q (res_bind r f)"
  by (cases r) simp_all

section \<open>Hash maps\<close>

type_synonym ('k, 'v) hmap = "('k \<times> 'v) list"

abbreviation hm_get :: "('k, 'v) hmap \<Rightarrow> 'k \<Rightarrow> 'v option" where
  "hm_get \<equiv> map_of"

abbreviation hm_insert :: "'k \<Rightarrow> 'v \<Rightarrow> ('k, 'v) hmap \<Rightarrow> ('k, 'v) hmap" where
  "hm_insert \<equiv> AList.update"

abbreviation hm_remove :: "'k \<Rightarrow> ('k, 'v) hmap \<Rightarrow> ('k, 'v) hmap" where
  "hm_remove \<equiv> AList.delete"

abbreviation hm_keys :: "('k, 'v) hmap \<Rightarrow> 'k list" where
  "hm_keys m \<equiv> map fst m"

abbreviation hm_values :: "('k, 'v) hmap \<Rightarrow> 'v list" where
  "hm_values m \<equiv> map snd m"

abbreviation hm_contains :: "('k, 'v) hmap \<Rightarrow> 'k \<Rightarrow> bool" where
  "hm_contains m k \<equiv> k \<in> fst ` set m"

abbreviation hm_wf :: "('k, 'v) hmap \<Rightarrow> bool" where
  "hm_wf m \<equiv> distinct (map fst m)"

definition hm_retain :: "('k \<Rightarrow> 'v \<Rightarrow> bool) \<Rightarrow> ('k, 'v) hmap \<Rightarrow> ('k, 'v) hmap" where
  "hm_retain P m = filter (\<lambda>(k, v). P k v) m"

lemma hm_get_insert [simp, hmap_simps]:
  "hm_get (hm_insert k v m) k' = (if k' = k then Some v else hm_get m k')"
  by (simp add: update_conv')

lemma hm_get_remove [simp, hmap_simps]:
  "hm_get (hm_remove k m) k' = (if k' = k then None else hm_get m k')"
  by (simp add: delete_conv')

lemma hm_contains_iff: "hm_contains m k \<longleftrightarrow> hm_get m k \<noteq> None"
  by (metis map_of_eq_None_iff)

lemma hm_contains_get: "hm_contains m k \<longleftrightarrow> (\<exists>v. hm_get m k = Some v)"
  by (simp add: hm_contains_iff)

lemma hm_keys_insert [simp]: "fst ` set (hm_insert k v m) = insert k (fst ` set m)"
  by (simp add: dom_update)

lemma hm_keys_remove [simp]: "fst ` set (hm_remove k m) = fst ` set m - {k}"
  by (auto simp: AList.delete_eq)

lemma hm_wf_insert [simp, intro]: "hm_wf m \<Longrightarrow> hm_wf (hm_insert k v m)"
  by (simp add: distinct_update)

lemma hm_wf_remove [simp, intro]: "hm_wf m \<Longrightarrow> hm_wf (hm_remove k m)"
  by (simp add: distinct_delete)

lemma hm_wf_retain [simp, intro]: "hm_wf m \<Longrightarrow> hm_wf (hm_retain P m)"
  by (simp add: hm_retain_def distinct_map_filter)

lemma hm_get_retain [hmap_simps]:
  assumes "hm_wf m"
  shows "hm_get (hm_retain P m) k =
    (case hm_get m k of None \<Rightarrow> None | Some v \<Rightarrow> if P k v then Some v else None)"
  using assms
proof (induction m)
  case (Cons kv m)
  obtain k' v' where [simp]: "kv = (k', v')" by fastforce
  have none: "hm_get m k' = None" using Cons.prems by (simp add: map_of_eq_None_iff)
  show ?case using Cons none by (auto simp: hm_retain_def split: option.splits)
qed (simp add: hm_retain_def)

lemma set_hm_retain: "set (hm_retain P m) = {(k, v) \<in> set m. P k v}"
  by (auto simp: hm_retain_def)

lemma hm_get_in_set: "hm_wf m \<Longrightarrow> (k, v) \<in> set m \<longleftrightarrow> hm_get m k = Some v"
  by (rule map_of_eq_Some_iff [symmetric])

lemma set_hm_insert:
  "hm_wf m \<Longrightarrow> (k', v') \<in> set (hm_insert k v m) \<longleftrightarrow>
     (if k' = k then v' = v else (k', v') \<in> set m)"
  using hm_get_in_set [of "hm_insert k v m" k' v'] hm_get_in_set [of m k' v']
  by (auto simp: distinct_update split: if_splits)

lemma length_hm_insert_new:
  "\<not> hm_contains m k \<Longrightarrow> length (hm_insert k v m) = Suc (length m)"
  by (induction m) auto

lemma hm_get_fold_remove:
  "hm_get (fold hm_remove ks m) k = (if k \<in> set ks then None else hm_get m k)"
  by (induction ks arbitrary: m) auto

lemma hm_wf_fold_remove: "hm_wf m \<Longrightarrow> hm_wf (fold hm_remove ks m)"
  by (induction ks arbitrary: m) auto

text \<open>Lookups stay lookups: the simplifier is not to turn them into membership.\<close>

declare map_of_eq_Some_iff [simp del]

text \<open>The sum of a measure over the values of a map.\<close>

definition hm_sum :: "('v \<Rightarrow> 'a::comm_monoid_add) \<Rightarrow> ('k, 'v) hmap \<Rightarrow> 'a" where
  "hm_sum f m = sum_list (map (f \<circ> snd) m)"

lemma hm_sum_simps [simp]: "hm_sum f [] = 0" "hm_sum f (e # m) = f (snd e) + hm_sum f m"
  by (simp_all add: hm_sum_def)

lemma hm_sum_remove:
  "hm_wf m \<Longrightarrow> hm_sum f m = (case hm_get m k of None \<Rightarrow> 0 | Some v \<Rightarrow> f v) + hm_sum f (hm_remove k m)"
proof (induction m)
  case (Cons e m)
  obtain k' v' where e: "e = (k', v')" by fastforce
  show ?case
  proof (cases "k = k'")
    case True
    have "k' \<notin> fst ` set m" using Cons.prems e by simp
    then have "hm_remove k' m = m" by (simp add: AList.delete_idem)
    then show ?thesis using True e by simp
  next
    case False
    then show ?thesis using Cons e by (simp add: ac_simps)
  qed
qed simp

lemma hm_sum_insert:
  "hm_wf m \<Longrightarrow> hm_sum f (hm_insert k v m) + (case hm_get m k of None \<Rightarrow> 0 | Some v \<Rightarrow> f v) = hm_sum f m + f v"
proof (induction m)
  case (Cons e m)
  then show ?case by (cases "k = fst e") (auto simp: ac_simps split: option.splits)
qed simp

lemma hm_sum_insert_new: "hm_get m k = None \<Longrightarrow> hm_sum f (hm_insert k v m) = hm_sum f m + f v"
  by (induction m) (auto simp: ac_simps split: if_splits)

lemma hm_sum_insert_same:
  fixes f :: "'v \<Rightarrow> 'a::cancel_comm_monoid_add"
  assumes "hm_wf m" and "hm_get m k = Some v" and "f v' = f v"
  shows "hm_sum f (hm_insert k v' m) = hm_sum f m"
  using hm_sum_insert [OF assms(1), of f k v'] assms(2,3) by simp

lemma hm_sum_map_values: "(\<And>v. f (g v) = f v) \<Longrightarrow> hm_sum f (map (\<lambda>(k, v). (k, g v)) m) = hm_sum f m"
  by (induction m) auto

text \<open>Collecting entries into a map: later entries replace earlier ones with the same key.\<close>

definition hm_of_list :: "('k \<times> 'v) list \<Rightarrow> ('k, 'v) hmap" where
  "hm_of_list entries = fold (\<lambda>(k, v). hm_insert k v) entries []"

lemma hm_wf_of_list: "hm_wf (hm_of_list entries)"
proof -
  have "hm_wf m \<Longrightarrow> hm_wf (fold (\<lambda>(k, v). hm_insert k v) entries m)" for m
    by (induction entries arbitrary: m) auto
  then show ?thesis by (simp add: hm_of_list_def)
qed

lemma hm_get_of_list: "hm_get (hm_of_list entries) k = map_of (rev entries) k"
proof -
  have "hm_get (fold (\<lambda>(k, v). hm_insert k v) entries m) k =
      (case map_of (rev entries) k of Some v \<Rightarrow> Some v | None \<Rightarrow> hm_get m k)" for m
    by (induction entries arbitrary: m) (auto simp: map_add_def split: option.splits)
  then show ?thesis by (simp add: hm_of_list_def split: option.splits)
qed

lemma hm_get_of_list_distinct: "hm_wf entries \<Longrightarrow> hm_get (hm_of_list entries) k = map_of entries k"
  unfolding hm_get_of_list by (rule fun_cong [OF map_of_inject_set [THEN iffD2]]) (simp_all add: rev_map [symmetric])

lemma set_map_filter: "set (List.map_filter f xs) = {y. \<exists>x \<in> set xs. f x = Some y}"
  by (induction xs) (auto simp: List.map_filter_simps split: option.splits)

section \<open>Ordered maps\<close>

text \<open>A \<open>BTreeMap\<close>: an association list in strictly ascending key order.\<close>

fun bt_insert :: "'k::linorder \<Rightarrow> 'v \<Rightarrow> ('k \<times> 'v) list \<Rightarrow> ('k \<times> 'v) list" where
  "bt_insert k v [] = [(k, v)]"
| "bt_insert k v ((k', v') # m) =
     (if k < k' then (k, v) # (k', v') # m
      else if k = k' then (k, v) # m
      else (k', v') # bt_insert k v m)"

abbreviation bt_wf :: "('k::linorder \<times> 'v) list \<Rightarrow> bool" where
  "bt_wf m \<equiv> sorted_wrt (<) (map fst m)"

text \<open>\<open>split_off(&k)\<close> returns the entries from \<open>k\<close> on and leaves the smaller ones.\<close>

definition bt_split_off :: "'k::linorder \<Rightarrow> ('k \<times> 'v) list \<Rightarrow> ('k \<times> 'v) list \<times> ('k \<times> 'v) list" where
  "bt_split_off k m = (filter (\<lambda>(k', _). k' < k) m, filter (\<lambda>(k', _). k \<le> k') m)"

lemma bt_get_insert [simp, hmap_simps]:
  "map_of (bt_insert k v m) k' = (if k' = k then Some v else map_of m k')"
  by (induction k v m rule: bt_insert.induct) auto

lemma bt_keys_insert [simp]: "fst ` set (bt_insert k v m) = insert k (fst ` set m)"
  by (induction k v m rule: bt_insert.induct) auto

lemma bt_wf_insert [simp, intro]: "bt_wf m \<Longrightarrow> bt_wf (bt_insert k v m)"
proof (induction k v m rule: bt_insert.induct)
  case (2 k v k' v' m)
  have "fst ` set (bt_insert k v m) = insert k (fst ` set m)" by simp
  then show ?case using 2 by auto
qed simp

lemma bt_wf_hm_wf: "bt_wf m \<Longrightarrow> hm_wf m"
  by (simp add: strict_sorted_iff)

lemma bt_wf_filter: "bt_wf m \<Longrightarrow> bt_wf (filter P m)"
  by (induction m) auto

lemma bt_get_filter_ge [hmap_simps]:
  "map_of (filter (\<lambda>(k', _). k \<le> k') m) j = (if k \<le> j then map_of m j else None)"
  by (induction m) auto

lemma bt_get_filter_lt [hmap_simps]:
  "map_of (filter (\<lambda>(k', _). k' < k) m) j = (if j < k then map_of m j else None)"
  by (induction m) auto

end
