(* ===== verification/Jet_Util.thy ===== *)
theory Jet_Util
  imports Jet_Prelude
begin

text \<open>
  \<open>apps/jet/src/util/mod.rs\<close>: commitment levels with their order, slot statuses and their decoding
  from the wire, and \<open>IncrementalBackoff\<close> with the retry loop built on it
  (\<open>ClusterTpuInfoInner::get_epoch_schedule\<close>). The lemmas show that the order of commitment
  levels is the order of their numeric codes, and what delays a run of failures produces.
\<close>

section \<open>Commitment levels\<close>

datatype commitment_level = Processed | Confirmed | Finalized

definition default_commitment :: commitment_level where
  "default_commitment = Finalized"

fun commitment_as_str :: "commitment_level \<Rightarrow> string" where
  "commitment_as_str Processed = ''processed''"
| "commitment_as_str Confirmed = ''confirmed''"
| "commitment_as_str Finalized = ''finalized''"

fun as_u8 :: "commitment_level \<Rightarrow> 8 word" where
  "as_u8 Processed = 0"
| "as_u8 Confirmed = 1"
| "as_u8 Finalized = 2"

lemma as_u8_inject [simp]: "as_u8 a = as_u8 b \<longleftrightarrow> a = b"
  by (cases a; cases b) simp_all

text \<open>\<open>impl Ord\<close> compares the numeric codes, and \<open>PartialOrd\<close> is defined by it.\<close>

datatype rust_ordering = OrdLess | OrdEqual | OrdGreater

definition commitment_cmp :: "commitment_level \<Rightarrow> commitment_level \<Rightarrow> rust_ordering" where
  "commitment_cmp a b = (if as_u8 a < as_u8 b then OrdLess else if as_u8 a = as_u8 b then OrdEqual else OrdGreater)"

definition commitment_partial_cmp :: "commitment_level \<Rightarrow> commitment_level \<Rightarrow> rust_ordering option" where
  "commitment_partial_cmp a b = Some (commitment_cmp a b)"

text \<open>The operators \<open><\<close> and \<open>\<le>\<close> of the code are those of \<open>partial_cmp\<close>.\<close>

instantiation commitment_level :: linorder
begin

definition less_eq_commitment_level :: "commitment_level \<Rightarrow> commitment_level \<Rightarrow> bool" where
  "a \<le> b \<longleftrightarrow> commitment_partial_cmp a b \<in> {Some OrdLess, Some OrdEqual}"

definition less_commitment_level :: "commitment_level \<Rightarrow> commitment_level \<Rightarrow> bool" where
  "a < b \<longleftrightarrow> commitment_partial_cmp a b = Some OrdLess"

instance
proof
  fix a b c :: commitment_level
  show "a < b \<longleftrightarrow> a \<le> b \<and> \<not> b \<le> a"
    by (auto simp: less_commitment_level_def less_eq_commitment_level_def commitment_partial_cmp_def commitment_cmp_def)
  show "a \<le> a" by (simp add: less_eq_commitment_level_def commitment_partial_cmp_def commitment_cmp_def)
  show "a \<le> b \<Longrightarrow> b \<le> c \<Longrightarrow> a \<le> c"
    by (auto simp: less_eq_commitment_level_def commitment_partial_cmp_def commitment_cmp_def split: if_splits)
  show "a \<le> b \<Longrightarrow> b \<le> a \<Longrightarrow> a = b"
    by (auto simp: less_eq_commitment_level_def commitment_partial_cmp_def commitment_cmp_def split: if_splits)
  show "a \<le> b \<or> b \<le> a"
    by (auto simp: less_eq_commitment_level_def commitment_partial_cmp_def commitment_cmp_def)
qed

end

lemma commitment_order [simp]:
  "Processed < Confirmed" "Confirmed < Finalized" "Processed < Finalized"
  "Processed \<le> c" "c \<le> Finalized"
  by (cases c; simp add: less_commitment_level_def less_eq_commitment_level_def commitment_partial_cmp_def commitment_cmp_def)+

section \<open>Slot statuses\<close>

datatype slot_status =
    SlotProcessed | SlotConfirmed | SlotFinalized | SlotFirstShredReceived
  | SlotCompleted | SlotCreatedBank | SlotDead

fun slot_status_as_str :: "slot_status \<Rightarrow> string" where
  "slot_status_as_str SlotProcessed = ''processed''"
| "slot_status_as_str SlotConfirmed = ''confirmed''"
| "slot_status_as_str SlotFinalized = ''finalized''"
| "slot_status_as_str SlotFirstShredReceived = ''first_shred_received''"
| "slot_status_as_str SlotCompleted = ''completed''"
| "slot_status_as_str SlotCreatedBank = ''created_bank''"
| "slot_status_as_str SlotDead = ''dead''"

text \<open>\<open>impl From<i32> for SlotStatus\<close>: an unknown code is the default status.\<close>

definition slot_status_from :: "int \<Rightarrow> slot_status" where
  "slot_status_from status =
     (if status = 0 then SlotProcessed
      else if status = 1 then SlotConfirmed
      else if status = 2 then SlotFinalized
      else if status = 3 then SlotFirstShredReceived
      else if status = 4 then SlotCompleted
      else if status = 5 then SlotCreatedBank
      else if status = 6 then SlotDead
      else SlotFirstShredReceived)"

text \<open>The discriminant of the enum, \<open>status as i32 as u8\<close>.\<close>

fun slot_status_code :: "slot_status \<Rightarrow> nat" where
  "slot_status_code SlotProcessed = 0"
| "slot_status_code SlotConfirmed = 1"
| "slot_status_code SlotFinalized = 2"
| "slot_status_code SlotFirstShredReceived = 3"
| "slot_status_code SlotCompleted = 4"
| "slot_status_code SlotCreatedBank = 5"
| "slot_status_code SlotDead = 6"

lemma slot_status_code_bound: "slot_status_code s < 7"
  by (cases s) simp_all

lemma slot_status_code_inject [simp]: "slot_status_code a = slot_status_code b \<longleftrightarrow> a = b"
  by (cases a; cases b) simp_all

lemma slot_status_from_code: "slot_status_from (int (slot_status_code s)) = s"
  by (cases s) (simp_all add: slot_status_from_def)

section \<open>Incremental backoff\<close>

record backoff =
  initial_interval :: duration
  max_interval :: duration
  retries :: "32 word option"

definition backoff_new :: "duration \<Rightarrow> duration \<Rightarrow> backoff" where
  "backoff_new i m = \<lparr>initial_interval = i, max_interval = m, retries = None\<rparr>"

text \<open>The default: 250 ms, at most 3 s, in nanoseconds.\<close>

definition backoff_default :: backoff where
  "backoff_default = backoff_new 250000000 3000000000"

definition backoff_reset :: "backoff \<Rightarrow> backoff" where
  "backoff_reset b = b\<lparr>retries := None\<rparr>"

definition backoff_init :: "backoff \<Rightarrow> backoff" where
  "backoff_init b = b\<lparr>retries := (case retries b of None \<Rightarrow> Some 0 | Some r \<Rightarrow> Some r)\<rparr>"

text \<open>The largest \<open>Duration\<close> in nanoseconds; multiplying past it panics in every build.\<close>

definition duration_max :: nat where
  "duration_max = 2 ^ 64 * 1000000000 - 1"

text \<open>
  \<open>maybe_tick\<close> returns how long it slept, if it slept at all. The power of the 32-bit factor is
  taken with wrap-around.
\<close>

definition maybe_tick :: "backoff \<Rightarrow> (duration option \<times> backoff) res" where
  "maybe_tick b =
     (case retries b of
        None \<Rightarrow> Inr (None, b)
      | Some r \<Rightarrow>
          (let factor = (2 :: 32 word) ^ unat r;
               next_delay = initial_interval b * unat factor
           in if next_delay > duration_max
              then Inl (Panic ''overflow when multiplying duration by scalar'')
              else Inr (Some (min (max_interval b) next_delay),
                        b\<lparr>retries := Some (if r = -1 then -1 else r + 1)\<rparr>)))"

text \<open>
  \<open>ClusterTpuInfoInner::get_epoch_schedule\<close>: tick, call, and on an error arm the backoff and try
  again. The answers of the RPC node are the argument list (\<open>None\<close> is an error); the result is the list
  of sleeps and the answer, \<open>None\<close> when the list ends before the node has answered.
\<close>

fun retry_loop :: "backoff \<Rightarrow> 'a option list \<Rightarrow> (duration option list \<times> 'a option) res" where
  "retry_loop b [] = Inr ([], None)"
| "retry_loop b (answer # answers) =
     res_bind (maybe_tick b) (\<lambda>(slept, b').
       (case answer of
          Some x \<Rightarrow> Inr ([slept], Some x)
        | None \<Rightarrow> res_bind (retry_loop (backoff_init b') answers)
                    (\<lambda>(sleeps, res). Inr (slept # sleeps, res))))"

lemma retries_backoff_init [simp]:
  "retries b = Some r \<Longrightarrow> backoff_init b = b"
  by (simp add: backoff_init_def)

lemma two_pow_word32:
  "unat ((2 :: 32 word) ^ k) = (if k < 32 then 2 ^ k else 0)"
proof (cases "k < 32")
  case True
  then have "(2::nat) ^ k < 2 ^ 32" by (rule power_strict_increasing) simp
  then have "unat (of_nat (2 ^ k) :: 32 word) = 2 ^ k"
    by (simp add: unat_of_nat take_bit_nat_eq_self del: of_nat_power)
  then show ?thesis using True by simp
next
  case False
  then have zero: "(2 :: 32 word) ^ k = 0" by simp
  show ?thesis unfolding zero using False by simp
qed

text \<open>The delay of the \<open>k\<close>-th armed tick (counted from 0) of a backoff.\<close>

definition backoff_delay :: "backoff \<Rightarrow> nat \<Rightarrow> duration" where
  "backoff_delay b k = (if k < 32 then min (max_interval b) (initial_interval b * 2 ^ k) else 0)"

lemma maybe_tick_armed:
  assumes "retries b = Some (of_nat k)" and "k < 2 ^ 32 - 1"
    and "initial_interval b * 2 ^ 31 \<le> duration_max"
  shows "maybe_tick b = Inr (Some (backoff_delay b k), b\<lparr>retries := Some (of_nat (Suc k))\<rparr>)"
proof -
  have unat_k: "unat (of_nat k :: 32 word) = k"
    using assms(2) by (simp add: unat_of_nat take_bit_nat_eq_self)
  have fits: "initial_interval b * unat ((2 :: 32 word) ^ k) \<le> duration_max"
  proof (cases "k < 32")
    case True
    then have "(2::nat) ^ k \<le> 2 ^ 31" by (intro power_increasing) simp_all
    then have "initial_interval b * 2 ^ k \<le> initial_interval b * 2 ^ 31"
      by (rule mult_left_mono) simp
    then show ?thesis using True assms(3) by (simp only: two_pow_word32 if_True)
  qed (simp add: two_pow_word32)
  have not_max: "of_nat k \<noteq> (-1 :: 32 word)"
  proof
    assume "of_nat k = (-1 :: 32 word)"
    then have "of_nat (Suc k) = (0 :: 32 word)" by simp
    then have "2 ^ 32 dvd Suc k" by (simp only: word_of_nat_eq_0_iff) simp
    then show False using assms(2) by (auto dest: dvd_imp_le)
  qed
  show ?thesis
    using fits not_max unat_k
    by (simp add: maybe_tick_def Let_def assms(1) backoff_delay_def two_pow_word32 add.commute)
qed

lemma retry_loop_armed:
  assumes "retries b = Some (of_nat k)" and "k + n < 2 ^ 32 - 1"
    and "initial_interval b * 2 ^ 31 \<le> duration_max"
  shows "retry_loop b (replicate n None @ [Some x]) =
    Inr (map (Some \<circ> backoff_delay b) [k..<k + Suc n], Some x)"
  using assms
proof (induction n arbitrary: b k)
  case 0
  have "maybe_tick b = Inr (Some (backoff_delay b k), b\<lparr>retries := Some (of_nat (Suc k))\<rparr>)"
    using 0 by (intro maybe_tick_armed) simp_all
  then show ?case by simp
next
  case (Suc n)
  define b' where "b' = b\<lparr>retries := Some (of_nat (Suc k) :: 32 word)\<rparr>"
  have tick: "maybe_tick b = Inr (Some (backoff_delay b k), b')"
    unfolding b'_def using Suc.prems by (intro maybe_tick_armed) simp_all
  have same: "backoff_delay b' = backoff_delay b"
    by (simp add: b'_def backoff_delay_def fun_eq_iff)
  have "retry_loop b' (replicate n None @ [Some x]) =
      Inr (map (Some \<circ> backoff_delay b') [Suc k..<Suc k + Suc n], Some x)"
    using Suc.prems by (intro Suc.IH) (simp_all add: b'_def)
  then have rest: "retry_loop b' (replicate n None @ [Some x]) =
      Inr (map (Some \<circ> backoff_delay b) [Suc k..<Suc k + Suc n], Some x)"
    by (simp only: same)
  have "backoff_init b' = b'" by (rule retries_backoff_init) (simp add: b'_def)
  then have "retry_loop b (replicate (Suc n) None @ [Some x]) =
      Inr (Some (backoff_delay b k) # map (Some \<circ> backoff_delay b) [Suc k..<Suc k + Suc n], Some x)"
    using tick rest by simp
  also have "Some (backoff_delay b k) # map (Some \<circ> backoff_delay b) [Suc k..<Suc k + Suc n]
      = map (Some \<circ> backoff_delay b) [k..<k + Suc (Suc n)]"
    using upt_conv_Cons [of k "k + Suc (Suc n)"] by simp
  finally show ?case .
qed

text \<open>
  The retry loop of \<open>get_epoch_schedule\<close> over a node that fails \<open>n\<close> times and then answers: it
  returns the answer; the first call is made at once; the call after the \<open>k\<close>-th failure is delayed by
  250 ms times \<open>2 ^ k\<close>, at most 3 s. The 32-bit power wraps to zero at \<open>k = 32\<close> in a build without
  overflow checks, so from the 33rd failure on the node is called without any delay.
\<close>

theorem default_backoff_delays:
  assumes "n < 2 ^ 32 - 2"
  shows "retry_loop backoff_default (replicate n None @ [Some x]) =
    Inr (None # map (\<lambda>k. Some (if k < 32 then min 3000000000 (250000000 * 2 ^ k) else 0)) [0..<n], Some x)"
proof (cases n)
  case 0
  then show ?thesis by (simp add: maybe_tick_def backoff_default_def backoff_new_def)
next
  case (Suc m)
  let ?b = "backoff_init backoff_default"
  have "retry_loop ?b (replicate m None @ [Some x]) = Inr (map (Some \<circ> backoff_delay ?b) [0..<0 + Suc m], Some x)"
    using assms Suc by (intro retry_loop_armed)
      (simp_all add: backoff_init_def backoff_default_def backoff_new_def duration_max_def)
  moreover have "Some \<circ> backoff_delay ?b = (\<lambda>k. Some (if k < 32 then min 3000000000 (250000000 * 2 ^ k) else 0))"
    by (simp add: fun_eq_iff backoff_delay_def backoff_init_def backoff_default_def backoff_new_def)
  moreover have "maybe_tick backoff_default = Inr (None, backoff_default)"
    by (simp add: maybe_tick_def backoff_default_def backoff_new_def)
  ultimately show ?thesis using Suc by (simp del: upt_Suc)
qed

theorem default_backoff_delays_witness:
  "retry_loop backoff_default [None, None, Some ''epochs''] = Inr ([None, Some 250000000, Some 500000000], Some ''epochs'')"
proof -
  have two: "replicate 2 None = [None, None]" "[0..<2] = [0, 1]"
    by (simp_all add: numeral_2_eq_2)
  have "(2::nat) < 2 ^ 32 - 2" by simp
  from default_backoff_delays [OF this, of "''epochs''", unfolded two] show ?thesis by (simp del: retry_loop.simps)
qed

end
