(* ===== verification/Jet_Geyser.thy ===== *)
theory Jet_Geyser
  imports Jet_Util
begin

unbundle bit_operations_syntax

text \<open>
  \<open>apps/jet/src/grpc_geyser.rs\<close>: the subscriber that turns the upstream gRPC stream into slot
  updates, block metadata with a commitment level, and transaction statuses. Slot statuses and block
  metadata arrive in any order; the subscriber tracks both per slot and emits metadata when it has both.

  State: the tracking map (a \<open>BTreeMap\<close>) and what was sent on the three channels so far. A broadcast
  send never fails the handler; a send on the bounded transactions channel fails when its receiver is
  gone, which is the field \<open>transactions_open\<close>. Decoding a block hash (\<open>Hash::from_str\<close>) and a
  signature (\<open>Signature::try_from\<close>) is code of the Solana SDK, the parameters \<open>parse_hash\<close> and
  \<open>sig_try_from\<close>.

  The lemmas: the status bit mask is a faithful set of statuses; every tracked slot with metadata has had
  that metadata emitted for each commitment status seen (nothing is missed, whatever the order); and
  everything emitted comes from a status and a metadata message of that slot.
\<close>

section \<open>Data\<close>

record slot_tracking_info =
  statuses_seen :: "8 word"
  sti_block_height :: block_height
  sti_block_hash :: hash
  has_block_meta :: bool

definition default_slot_tracking_info :: slot_tracking_info where
  "default_slot_tracking_info =
     \<lparr>statuses_seen = 0, sti_block_height = 0, sti_block_hash = Hash 0, has_block_meta = False\<rparr>"

record block_meta_with_commitment =
  bm_slot :: slot
  bm_block_height :: block_height
  bm_block_hash :: hash
  bm_commitment :: commitment_level

record slot_update_with_status =
  su_slot :: slot
  su_slot_status :: slot_status

record transaction_received =
  tr_slot :: slot
  tr_signature :: signature

datatype grpc_update_message =
    GBlockMeta block_meta_with_commitment
  | GSlot slot_update_with_status
  | GTransaction transaction_received

datatype geyser_error =
    StreamError string
  | StreamEnded
  | ChannelSendFailed string
  | InvalidBlockhash string
  | MissingBlockHeight
  | UnexpectedMessage

text \<open>\<open>SubscribeUpdate::update_oneof\<close>, with the fields the handlers read.\<close>

datatype update_oneof =
    USlot slot int
  | UTransactionStatus slot bytes
  | UBlockMeta slot string "block_height option"
  | UPing
  | UOther

record geyser_state =
  slot_tracking :: "(slot \<times> slot_tracking_info) list"
  slots_out :: "slot_update_with_status list"
  block_meta_out :: "block_meta_with_commitment list"
  transactions_out :: "grpc_update_message list"
  transactions_open :: bool

definition geyser_start :: "bool \<Rightarrow> geyser_state" where
  "geyser_start open_tx = \<lparr>slot_tracking = [], slots_out = [], block_meta_out = [],
     transactions_out = [], transactions_open = open_tx\<rparr>"

section \<open>Status bits\<close>

definition mark_status_seen :: "slot_status \<Rightarrow> slot_tracking_info \<Rightarrow> slot_tracking_info" where
  "mark_status_seen status info =
     info\<lparr>statuses_seen := statuses_seen info OR push_bit (slot_status_code status) 1\<rparr>"

definition has_seen_status :: "slot_tracking_info \<Rightarrow> slot_status \<Rightarrow> bool" where
  "has_seen_status info status \<longleftrightarrow>
     statuses_seen info AND push_bit (slot_status_code status) 1 \<noteq> 0"

fun slot_status_to_commitment :: "slot_status \<Rightarrow> commitment_level option" where
  "slot_status_to_commitment SlotProcessed = Some Processed"
| "slot_status_to_commitment SlotConfirmed = Some Confirmed"
| "slot_status_to_commitment SlotFinalized = Some Finalized"
| "slot_status_to_commitment _ = None"

section \<open>Handlers\<close>

definition tracking_entry :: "(slot \<times> slot_tracking_info) list \<Rightarrow> slot \<Rightarrow> slot_tracking_info" where
  "tracking_entry m s = (case map_of m s of None \<Rightarrow> default_slot_tracking_info | Some i \<Rightarrow> i)"

text \<open>
  The two sends of one piece of metadata: broadcast, then, if transactions are included, the bounded
  channel, whose failure ends the handler.
\<close>

definition emit_block_meta ::
  "bool \<Rightarrow> block_meta_with_commitment \<Rightarrow> geyser_state \<Rightarrow> geyser_state \<times> geyser_error option" where
  "emit_block_meta include_transactions bm s =
     (let s1 = s\<lparr>block_meta_out := block_meta_out s @ [bm]\<rparr>
      in if include_transactions then
           (if transactions_open s1
            then (s1\<lparr>transactions_out := transactions_out s1 @ [GBlockMeta bm]\<rparr>, None)
            else (s1, Some (ChannelSendFailed ''transactions'')))
         else (s1, None))"

text \<open>The emission check of a slot update: metadata already known and the status is a commitment.\<close>

definition slot_update_emit ::
  "bool \<Rightarrow> slot \<Rightarrow> slot_status \<Rightarrow> slot_tracking_info \<Rightarrow> geyser_state
     \<Rightarrow> geyser_state \<times> geyser_error option" where
  "slot_update_emit include_transactions sl slot_status entry s =
     (if has_block_meta entry then
        (case slot_status_to_commitment slot_status of
           Some commitment \<Rightarrow>
             emit_block_meta include_transactions
               \<lparr>bm_slot = sl, bm_block_height = sti_block_height entry,
                bm_block_hash = sti_block_hash entry, bm_commitment = commitment\<rparr> s
         | None \<Rightarrow> (s, None))
      else (s, None))"

definition handle_slot_update ::
  "bool \<Rightarrow> slot \<Rightarrow> int \<Rightarrow> geyser_state \<Rightarrow> geyser_state \<times> geyser_error option" where
  "handle_slot_update include_transactions sl status s =
     (let slot_status = slot_status_from status;
          entry = mark_status_seen slot_status (tracking_entry (slot_tracking s) sl);
          s1 = s\<lparr>slot_tracking := bt_insert sl entry (slot_tracking s),
                 slots_out := slots_out s @ [\<lparr>su_slot = sl, su_slot_status = slot_status\<rparr>]\<rparr>;
          (s2, err) = slot_update_emit include_transactions sl slot_status entry s1
      in case err of
           Some e \<Rightarrow> (s2, Some e)
         | None \<Rightarrow>
             (if slot_status = SlotFinalized
              then (s2\<lparr>slot_tracking := snd (bt_split_off sl (slot_tracking s2))\<rparr>, None)
              else (s2, None)))"

definition handle_transaction_status ::
  "(bytes \<Rightarrow> signature option) \<Rightarrow> slot \<Rightarrow> bytes \<Rightarrow> geyser_state
     \<Rightarrow> (geyser_state \<times> geyser_error option) res" where
  "handle_transaction_status sig_try_from sl raw s =
     res_bind (expect ''Invalid signature format'' (sig_try_from raw)) (\<lambda>sig.
       Inr (if transactions_open s
            then (s\<lparr>transactions_out := transactions_out s @
                     [GTransaction \<lparr>tr_slot = sl, tr_signature = sig\<rparr>]\<rparr>, None)
            else (s, Some (ChannelSendFailed ''transactions''))))"

text \<open>The loop of \<open>handle_block_meta\<close> over the commitment statuses; it stops at the first error.\<close>

fun emit_seen_statuses ::
  "bool \<Rightarrow> slot \<Rightarrow> slot_tracking_info \<Rightarrow> slot_status list \<Rightarrow> geyser_state
     \<Rightarrow> geyser_state \<times> geyser_error option" where
  "emit_seen_statuses inc sl entry [] s = (s, None)"
| "emit_seen_statuses inc sl entry (status # rest) s =
     (if has_seen_status entry status then
        (case slot_status_to_commitment status of
           Some commitment \<Rightarrow>
             (case emit_block_meta inc
                     \<lparr>bm_slot = sl, bm_block_height = sti_block_height entry,
                      bm_block_hash = sti_block_hash entry, bm_commitment = commitment\<rparr> s of
                (s', None) \<Rightarrow> emit_seen_statuses inc sl entry rest s'
              | (s', Some e) \<Rightarrow> (s', Some e))
         | None \<Rightarrow> emit_seen_statuses inc sl entry rest s)
      else emit_seen_statuses inc sl entry rest s)"

definition handle_block_meta ::
  "(string \<Rightarrow> hash option) \<Rightarrow> bool \<Rightarrow> slot \<Rightarrow> string \<Rightarrow> block_height option \<Rightarrow> geyser_state
     \<Rightarrow> geyser_state \<times> geyser_error option" where
  "handle_block_meta parse_hash include_transactions sl blockhash height s =
     (case height of
        None \<Rightarrow> (s, Some MissingBlockHeight)
      | Some block_height \<Rightarrow>
          (case parse_hash blockhash of
             None \<Rightarrow> (s, Some (InvalidBlockhash blockhash))
           | Some block_hash \<Rightarrow>
               (let entry = (tracking_entry (slot_tracking s) sl)
                              \<lparr>sti_block_height := block_height, sti_block_hash := block_hash,
                               has_block_meta := True\<rparr>;
                    s1 = s\<lparr>slot_tracking := bt_insert sl entry (slot_tracking s)\<rparr>
                in emit_seen_statuses include_transactions sl entry
                     [SlotProcessed, SlotConfirmed, SlotFinalized] s1)))"

definition handle_grpc_message ::
  "(string \<Rightarrow> hash option) \<Rightarrow> (bytes \<Rightarrow> signature option) \<Rightarrow> bool \<Rightarrow> update_oneof option
     \<Rightarrow> geyser_state \<Rightarrow> (geyser_state \<times> geyser_error option) res" where
  "handle_grpc_message parse_hash sig_try_from include_transactions msg s =
     (case msg of
        Some (USlot sl status) \<Rightarrow> Inr (handle_slot_update include_transactions sl status s)
      | Some (UTransactionStatus sl raw) \<Rightarrow>
          (if include_transactions then handle_transaction_status sig_try_from sl raw s
           else Inr (s, None))
      | Some (UBlockMeta sl blockhash height) \<Rightarrow>
          Inr (handle_block_meta parse_hash include_transactions sl blockhash height s)
      | Some UPing \<Rightarrow> Inr (s, None)
      | _ \<Rightarrow> Inr (s, Some UnexpectedMessage))"

text \<open>
  \<open>process_grpc_stream\<close>: the events of the \<open>select!\<close>, handled one by one. The result is \<open>None\<close> while
  the loop still waits, \<open>Some (Inr ())\<close> after cancellation, \<open>Some (Inl e)\<close> after an error.
\<close>

datatype stream_event =
    StreamItem "update_oneof option"
  | StreamItemErr string
  | StreamEnd
  | Cancelled

fun process_grpc_stream ::
  "(string \<Rightarrow> hash option) \<Rightarrow> (bytes \<Rightarrow> signature option) \<Rightarrow> bool \<Rightarrow> stream_event list
     \<Rightarrow> geyser_state \<Rightarrow> (geyser_state \<times> (geyser_error + unit) option) res" where
  "process_grpc_stream ph st inc [] s = Inr (s, None)"
| "process_grpc_stream ph st inc (Cancelled # es) s = Inr (s, Some (Inr ()))"
| "process_grpc_stream ph st inc (StreamEnd # es) s = Inr (s, Some (Inl StreamEnded))"
| "process_grpc_stream ph st inc (StreamItemErr e # es) s = Inr (s, Some (Inl (StreamError e)))"
| "process_grpc_stream ph st inc (StreamItem msg # es) s =
     res_bind (handle_grpc_message ph st inc msg s) (\<lambda>(s', err).
       (case err of
          Some e \<Rightarrow> Inr (s', Some (Inl e))
        | None \<Rightarrow> process_grpc_stream ph st inc es s'))"

section \<open>The bit mask is a set of statuses\<close>

lemma has_seen_status_bit:
  "has_seen_status info status \<longleftrightarrow> bit (statuses_seen info) (slot_status_code status)"
  by (simp add: has_seen_status_def push_bit_of_1 and_exp_eq_0_iff_not_bit)

lemma has_seen_mark:
  "has_seen_status (mark_status_seen a info) b \<longleftrightarrow> b = a \<or> has_seen_status info b"
proof -
  have "slot_status_code a < 8" using slot_status_code_bound [of a] by simp
  then show ?thesis
    by (auto simp: has_seen_status_bit mark_status_seen_def bit_simps push_bit_of_1)
qed

lemma mark_status_seen_frame [simp]:
  "sti_block_height (mark_status_seen a info) = sti_block_height info"
  "sti_block_hash (mark_status_seen a info) = sti_block_hash info"
  "has_block_meta (mark_status_seen a info) = has_block_meta info"
  by (simp_all add: mark_status_seen_def)

lemma default_no_block_meta [simp]: "\<not> has_block_meta default_slot_tracking_info"
  by (simp add: default_slot_tracking_info_def)

lemma has_seen_default [simp]: "\<not> has_seen_status default_slot_tracking_info b"
  by (simp add: has_seen_status_bit default_slot_tracking_info_def)

text \<open>
  The status bits are a faithful set: after \<open>mark_status_seen a\<close>, \<open>has_seen_status b\<close> answers
  yes exactly for \<open>a\<close> and for what was seen before; marking a status affects no other one.
\<close>

theorem status_mask_is_set:
  "has_seen_status (mark_status_seen a info) b \<longleftrightarrow> b = a \<or> has_seen_status info b"
  by (rule has_seen_mark)

section \<open>Nothing is missed\<close>

text \<open>The metadata a tracking entry stands for at a commitment level.\<close>

abbreviation entry_meta :: "slot \<Rightarrow> slot_tracking_info \<Rightarrow> commitment_level \<Rightarrow> block_meta_with_commitment" where
  "entry_meta sl info c \<equiv> \<lparr>bm_slot = sl, bm_block_height = sti_block_height info,
     bm_block_hash = sti_block_hash info, bm_commitment = c\<rparr>"

definition tracking_complete :: "geyser_state \<Rightarrow> bool" where
  "tracking_complete s \<longleftrightarrow>
     (\<forall>sl info st c. map_of (slot_tracking s) sl = Some info \<longrightarrow> has_block_meta info \<longrightarrow>
        slot_status_to_commitment st = Some c \<longrightarrow> has_seen_status info st \<longrightarrow>
        entry_meta sl info c \<in> set (block_meta_out s))"

lemma tracking_completeD:
  "tracking_complete s \<Longrightarrow> map_of (slot_tracking s) sl = Some info \<Longrightarrow> has_block_meta info \<Longrightarrow>
   slot_status_to_commitment st = Some c \<Longrightarrow> has_seen_status info st \<Longrightarrow>
   entry_meta sl info c \<in> set (block_meta_out s)"
  by (simp add: tracking_complete_def)

lemma emit_block_metaD:
  assumes "emit_block_meta inc bm s = (s', err)"
  shows "slot_tracking s' = slot_tracking s" and "slots_out s' = slots_out s"
    and "block_meta_out s' = block_meta_out s @ [bm]"
    and "transactions_open s' = transactions_open s"
  using assms by (auto simp: emit_block_meta_def Let_def split: if_splits)

lemma emit_seen_statuses_tracking:
  "emit_seen_statuses inc sl entry sts s = (s', err) \<Longrightarrow> slot_tracking s' = slot_tracking s"
  by (induction inc sl entry sts s rule: emit_seen_statuses.induct)
     (auto split: if_splits option.splits prod.splits dest: emit_block_metaD)

lemma emit_seen_statuses_mono:
  "emit_seen_statuses inc sl entry sts s = (s', err) \<Longrightarrow>
   set (block_meta_out s) \<subseteq> set (block_meta_out s')"
proof (induction inc sl entry sts s rule: emit_seen_statuses.induct)
  case (2 inc sl entry status rest s)
  then show ?case
    by (fastforce split: if_splits option.splits prod.splits dest: emit_block_metaD(3))
qed simp

lemma emit_seen_statuses_all:
  assumes "emit_seen_statuses inc sl entry sts s = (s', None)"
    and "st \<in> set sts" "has_seen_status entry st" "slot_status_to_commitment st = Some c"
  shows "entry_meta sl entry c \<in> set (block_meta_out s')"
  using assms
proof (induction inc sl entry sts s rule: emit_seen_statuses.induct)
  case (2 inc sl entry status rest s)
  show ?case
  proof (cases "st = status")
    case True
    obtain t where t: "emit_block_meta inc (entry_meta sl entry c) s = (t, None)"
      and rest: "emit_seen_statuses inc sl entry rest t = (s', None)"
      using 2 True by (auto split: prod.splits option.splits)
    have "entry_meta sl entry c \<in> set (block_meta_out t)"
      using emit_block_metaD(3) [OF t] by simp
    then show ?thesis using emit_seen_statuses_mono [OF rest] by blast
  next
    case False
    then show ?thesis using 2 by (auto split: if_splits option.splits prod.splits)
  qed
qed simp

lemma commitment_statuses:
  "slot_status_to_commitment st = Some c \<Longrightarrow> st \<in> set [SlotProcessed, SlotConfirmed, SlotFinalized]"
  by (cases st) simp_all

lemma handle_block_meta_complete [inv_intros]:
  assumes "tracking_complete s" and "handle_block_meta ph inc sl bh h s = (s', None)"
  shows "tracking_complete s'"
proof -
  obtain bheight bhash where h: "h = Some bheight" "ph bh = Some bhash"
    using assms(2) by (auto simp: handle_block_meta_def split: option.splits)
  define entry where "entry = (tracking_entry (slot_tracking s) sl)
      \<lparr>sti_block_height := bheight, sti_block_hash := bhash, has_block_meta := True\<rparr>"
  define s1 where "s1 = s\<lparr>slot_tracking := bt_insert sl entry (slot_tracking s)\<rparr>"
  have emit: "emit_seen_statuses inc sl entry [SlotProcessed, SlotConfirmed, SlotFinalized] s1 = (s', None)"
    using assms(2) by (simp add: handle_block_meta_def h entry_def s1_def Let_def)
  note frame = emit_seen_statuses_tracking [OF emit] emit_seen_statuses_mono [OF emit]
  show ?thesis unfolding tracking_complete_def
  proof (intro allI impI)
    fix sl' info st c
    assume look: "map_of (slot_tracking s') sl' = Some info" and "has_block_meta info"
      and st: "slot_status_to_commitment st = Some c" "has_seen_status info st"
    show "entry_meta sl' info c \<in> set (block_meta_out s')"
    proof (cases "sl' = sl")
      case True
      then have "info = entry" using look frame(1) by (simp add: s1_def)
      then show ?thesis
        using emit_seen_statuses_all [OF emit commitment_statuses] st True by simp
    next
      case False
      then have "map_of (slot_tracking s) sl' = Some info" using look frame(1) by (simp add: s1_def)
      then have "entry_meta sl' info c \<in> set (block_meta_out s)"
        using tracking_completeD [OF assms(1)] \<open>has_block_meta info\<close> st by blast
      then show ?thesis using frame(2) by (auto simp: s1_def)
    qed
  qed
qed

text \<open>
  A slot update, taken apart: the state after marking and the optional emission, before the clean-up.
\<close>

lemma handle_slot_updateE:
  assumes "handle_slot_update inc sl status s = (s', err)"
  obtains entry s2 where
    "entry = mark_status_seen (slot_status_from status) (tracking_entry (slot_tracking s) sl)"
    "slot_tracking s2 = bt_insert sl entry (slot_tracking s)"
    "block_meta_out s2 = block_meta_out s @
       (if has_block_meta entry then
          (case slot_status_to_commitment (slot_status_from status) of
             None \<Rightarrow> [] | Some c \<Rightarrow> [entry_meta sl entry c]) else [])"
    "s' = s2 \<or> s' = s2\<lparr>slot_tracking := snd (bt_split_off sl (slot_tracking s2))\<rparr>"
    "err = None \<Longrightarrow> slot_status_from status = SlotFinalized \<Longrightarrow>
       slot_tracking s' = snd (bt_split_off sl (slot_tracking s2))"
proof -
  define entry where
    "entry = mark_status_seen (slot_status_from status) (tracking_entry (slot_tracking s) sl)"
  define s1 where "s1 = s\<lparr>slot_tracking := bt_insert sl entry (slot_tracking s),
      slots_out := slots_out s @ [\<lparr>su_slot = sl, su_slot_status = slot_status_from status\<rparr>]\<rparr>"
  obtain s2 e where se: "slot_update_emit inc sl (slot_status_from status) entry s1 = (s2, e)"
    by (metis surj_pair)
  have res: "(s', err) = (case e of Some x \<Rightarrow> (s2, Some x)
       | None \<Rightarrow> if slot_status_from status = SlotFinalized
           then (s2\<lparr>slot_tracking := snd (bt_split_off sl (slot_tracking s2))\<rparr>, None) else (s2, None))"
    using assms se
    by (simp add: handle_slot_update_def Let_def entry_def [symmetric] s1_def [symmetric]
             split: option.splits)
  have "slot_tracking s2 = slot_tracking s1 \<and> block_meta_out s2 = block_meta_out s1 @
       (if has_block_meta entry then
          (case slot_status_to_commitment (slot_status_from status) of
             None \<Rightarrow> [] | Some c \<Rightarrow> [entry_meta sl entry c]) else [])"
    using se by (auto simp: slot_update_emit_def split: if_splits option.splits dest: emit_block_metaD)
  moreover have "slot_tracking s1 = bt_insert sl entry (slot_tracking s)"
    "block_meta_out s1 = block_meta_out s" by (simp_all add: s1_def)
  ultimately show thesis
    using res by (intro that [of entry s2]) (simp_all add: entry_def split: option.splits if_splits)
qed

lemma map_of_split_off_ge:
  "map_of (snd (bt_split_off k m)) j = Some v \<Longrightarrow> map_of m j = Some v"
  by (simp add: bt_split_off_def hmap_simps split: if_splits)

lemma handle_slot_update_complete [inv_intros]:
  assumes "tracking_complete s" and "handle_slot_update inc sl status s = (s', err)"
  shows "tracking_complete s'"
proof -
  obtain entry s2 where
    entry: "entry = mark_status_seen (slot_status_from status) (tracking_entry (slot_tracking s) sl)"
    and tr: "slot_tracking s2 = bt_insert sl entry (slot_tracking s)"
    and out: "block_meta_out s2 = block_meta_out s @
       (if has_block_meta entry then
          (case slot_status_to_commitment (slot_status_from status) of
             None \<Rightarrow> [] | Some c \<Rightarrow> [entry_meta sl entry c]) else [])"
    and s': "s' = s2 \<or> s' = s2\<lparr>slot_tracking := snd (bt_split_off sl (slot_tracking s2))\<rparr>"
    by (rule handle_slot_updateE [OF assms(2)]) blast
  have c2: "tracking_complete s2" unfolding tracking_complete_def
  proof (intro allI impI)
    fix sl' info st c
    assume look: "map_of (slot_tracking s2) sl' = Some info" and meta: "has_block_meta info"
      and st: "slot_status_to_commitment st = Some c" "has_seen_status info st"
    show "entry_meta sl' info c \<in> set (block_meta_out s2)"
    proof (cases "sl' = sl")
      case False
      then have "map_of (slot_tracking s) sl' = Some info" using look tr by simp
      then have "entry_meta sl' info c \<in> set (block_meta_out s)"
        using tracking_completeD [OF assms(1)] meta st by blast
      then show ?thesis unfolding out set_append by (rule UnI1)
    next
      case True
      then have info: "info = entry" using look tr by simp
      show ?thesis
      proof (cases "st = slot_status_from status")
        case True
        then show ?thesis using out info meta st \<open>sl' = sl\<close> by simp
      next
        case False
        let ?old = "tracking_entry (slot_tracking s) sl"
        have old: "has_seen_status ?old st" "has_block_meta ?old"
          "entry_meta sl info c = entry_meta sl ?old c"
          using False st meta info entry by (simp_all add: has_seen_mark)
        then have "map_of (slot_tracking s) sl = Some ?old"
          by (auto simp: tracking_entry_def split: option.splits)
        then have "entry_meta sl ?old c \<in> set (block_meta_out s)"
          using tracking_completeD [OF assms(1)] old(1,2) st(1) by blast
        then show ?thesis unfolding out set_append \<open>sl' = sl\<close> old(3) by (rule UnI1)
      qed
    qed
  qed
  then show ?thesis
    using s' by (auto simp: tracking_complete_def dest!: map_of_split_off_ge)
qed

lemma handle_grpc_message_complete [inv_intros]:
  assumes "tracking_complete s" and "handle_grpc_message ph st inc msg s = Inr (s', None)"
  shows "tracking_complete s'"
proof (cases msg)
  case None
  then show ?thesis using assms by (simp add: handle_grpc_message_def)
next
  case (Some m)
  show ?thesis
  proof (cases m)
    case (USlot sl status)
    then have "handle_slot_update inc sl status s = (s', None)"
      using assms Some by (simp add: handle_grpc_message_def)
    then show ?thesis by (rule handle_slot_update_complete [OF assms(1)])
  next
    case (UTransactionStatus sl raw)
    then show ?thesis
      using assms Some
      by (auto simp: handle_grpc_message_def handle_transaction_status_def tracking_complete_def
               split: if_splits)
  next
    case (UBlockMeta sl bh h)
    then have "handle_block_meta ph inc sl bh h s = (s', None)"
      using assms Some by (simp add: handle_grpc_message_def)
    then show ?thesis by (rule handle_block_meta_complete [OF assms(1)])
  qed (use assms Some in \<open>simp_all add: handle_grpc_message_def\<close>)
qed

lemma process_grpc_stream_complete:
  assumes "tracking_complete s" and "process_grpc_stream ph st inc es s = Inr (s', r)"
    and "\<forall>e. r \<noteq> Some (Inl e)"
  shows "tracking_complete s'"
  using assms
proof (induction ph st inc es s rule: process_grpc_stream.induct)
  case (5 ph st inc msg es s)
  obtain t e where te: "handle_grpc_message ph st inc msg s = Inr (t, e)"
    using "5.prems"(2) by auto
  then have "e = None" using "5.prems"(2,3) by (cases e) auto
  with te have t: "handle_grpc_message ph st inc msg s = Inr (t, None)" by simp
  then have rest: "process_grpc_stream ph st inc es t = Inr (s', r)"
    using "5.prems"(2) by simp
  show ?case
    using "5.IH" t rest handle_grpc_message_complete [OF "5.prems"(1) t] "5.prems"(3) by simp
qed auto



section \<open>Nothing is invented\<close>

definition meta_sound :: "(string \<Rightarrow> hash option) \<Rightarrow> update_oneof set \<Rightarrow> block_meta_with_commitment \<Rightarrow> bool" where
  "meta_sound ph M bm \<longleftrightarrow>
     (\<exists>code. USlot (bm_slot bm) code \<in> M \<and>
        slot_status_to_commitment (slot_status_from code) = Some (bm_commitment bm)) \<and>
     (\<exists>bh. UBlockMeta (bm_slot bm) bh (Some (bm_block_height bm)) \<in> M \<and> ph bh = Some (bm_block_hash bm))"

definition entry_sound ::
  "(string \<Rightarrow> hash option) \<Rightarrow> update_oneof set \<Rightarrow> slot \<Rightarrow> slot_tracking_info \<Rightarrow> bool" where
  "entry_sound ph M sl info \<longleftrightarrow>
     (\<forall>st. has_seen_status info st \<longrightarrow> (\<exists>code. USlot sl code \<in> M \<and> slot_status_from code = st)) \<and>
     (has_block_meta info \<longrightarrow>
        (\<exists>bh. UBlockMeta sl bh (Some (sti_block_height info)) \<in> M \<and> ph bh = Some (sti_block_hash info)))"

definition tracking_sound :: "(string \<Rightarrow> hash option) \<Rightarrow> update_oneof set \<Rightarrow> geyser_state \<Rightarrow> bool" where
  "tracking_sound ph M s \<longleftrightarrow>
     (\<forall>sl info. map_of (slot_tracking s) sl = Some info \<longrightarrow> entry_sound ph M sl info) \<and>
     (\<forall>bm \<in> set (block_meta_out s). meta_sound ph M bm)"

lemma meta_sound_mono: "M \<subseteq> N \<Longrightarrow> meta_sound ph M bm \<Longrightarrow> meta_sound ph N bm"
  unfolding meta_sound_def by blast

lemma entry_sound_mono: "M \<subseteq> N \<Longrightarrow> entry_sound ph M sl info \<Longrightarrow> entry_sound ph N sl info"
  unfolding entry_sound_def by blast

lemma tracking_sound_mono: "M \<subseteq> N \<Longrightarrow> tracking_sound ph M s \<Longrightarrow> tracking_sound ph N s"
  unfolding tracking_sound_def by (auto intro: meta_sound_mono [of M N] entry_sound_mono [of M N])

lemma entry_meta_sound:
  "entry_sound ph M sl info \<Longrightarrow> has_block_meta info \<Longrightarrow> has_seen_status info st \<Longrightarrow>
   slot_status_to_commitment st = Some c \<Longrightarrow> meta_sound ph M (entry_meta sl info c)"
  unfolding entry_sound_def meta_sound_def by auto

lemma tracking_entry_sound:
  "tracking_sound ph M s \<Longrightarrow> entry_sound ph M sl (tracking_entry (slot_tracking s) sl)"
  by (auto simp: tracking_sound_def tracking_entry_def entry_sound_def split: option.splits)

lemma tracking_sound_insert:
  assumes "tracking_sound ph M s" "entry_sound ph M sl entry"
    and "slot_tracking s' = bt_insert sl entry (slot_tracking s)"
    and "\<forall>bm \<in> set (block_meta_out s') - set (block_meta_out s). meta_sound ph M bm"
  shows "tracking_sound ph M s'"
  using assms unfolding tracking_sound_def by auto

lemma emit_seen_statuses_new:
  "emit_seen_statuses inc sl entry sts s = (s', err) \<Longrightarrow>
   bm \<in> set (block_meta_out s') \<Longrightarrow> bm \<notin> set (block_meta_out s) \<Longrightarrow>
   \<exists>st c. has_seen_status entry st \<and> slot_status_to_commitment st = Some c \<and> bm = entry_meta sl entry c"
proof (induction inc sl entry sts s rule: emit_seen_statuses.induct)
  case (2 inc sl entry status rest s)
  show ?case
  proof (cases "has_seen_status entry status \<and> (\<exists>c. slot_status_to_commitment status = Some c)")
    case False
    then have "emit_seen_statuses inc sl entry rest s = (s', err)"
      using "2.prems"(1) by (auto split: if_splits option.splits)
    then show ?thesis using "2.IH" False "2.prems" by (cases "slot_status_to_commitment status") auto
  next
    case True
    then obtain c where c: "slot_status_to_commitment status = Some c" by blast
    obtain t e where te: "emit_block_meta inc (entry_meta sl entry c) s = (t, e)" by fastforce
    note out = emit_block_metaD(3) [OF te]
    show ?thesis
    proof (cases "bm = entry_meta sl entry c \<or> e \<noteq> None")
      case True
      then show ?thesis
        using c te out "2.prems" \<open>has_seen_status entry status \<and> _\<close> by (auto split: option.splits)
    next
      case False
      then show ?thesis
        using c te out "2.prems" "2.IH"(2) [OF _ c te [symmetric]] \<open>has_seen_status entry status \<and> _\<close> by simp
    qed
  qed
qed simp

lemma handle_slot_update_sound [inv_intros]:
  assumes "tracking_sound ph M s" and "handle_slot_update inc sl status s = (s', err)"
  shows "tracking_sound ph (insert (USlot sl status) M) s'"
proof -
  let ?M = "insert (USlot sl status) M"
  obtain entry s2 where
    entry: "entry = mark_status_seen (slot_status_from status) (tracking_entry (slot_tracking s) sl)"
    and tr: "slot_tracking s2 = bt_insert sl entry (slot_tracking s)"
    and out: "block_meta_out s2 = block_meta_out s @
       (if has_block_meta entry then
          (case slot_status_to_commitment (slot_status_from status) of
             None \<Rightarrow> [] | Some c \<Rightarrow> [entry_meta sl entry c]) else [])"
    and s': "s' = s2 \<or> s' = s2\<lparr>slot_tracking := snd (bt_split_off sl (slot_tracking s2))\<rparr>"
    by (rule handle_slot_updateE [OF assms(2)]) blast
  have M: "tracking_sound ph ?M s" by (rule tracking_sound_mono [OF _ assms(1)]) blast
  have e: "entry_sound ph ?M sl entry"
    using tracking_entry_sound [OF M, of sl]
    by (auto simp: entry entry_sound_def has_seen_mark)
  have new: "meta_sound ph ?M bm"
    if m: "bm \<in> set (block_meta_out s2) - set (block_meta_out s)" for bm
  proof -
    have "bm \<in> set (if has_block_meta entry then
        (case slot_status_to_commitment (slot_status_from status) of
           None \<Rightarrow> [] | Some c \<Rightarrow> [entry_meta sl entry c]) else [])"
      using m unfolding out set_append by blast
    then obtain c where "has_block_meta entry" "bm = entry_meta sl entry c"
      "slot_status_to_commitment (slot_status_from status) = Some c"
      by (cases "has_block_meta entry"; cases "slot_status_to_commitment (slot_status_from status)") simp_all
    moreover have "has_seen_status entry (slot_status_from status)" by (simp add: entry has_seen_mark)
    ultimately show ?thesis using entry_meta_sound [OF e] by blast
  qed
  have "tracking_sound ph ?M s2" using tracking_sound_insert [OF M e tr] new by blast
  then show ?thesis
    using s' by (auto simp: tracking_sound_def dest!: map_of_split_off_ge)
qed

lemma handle_block_meta_sound [inv_intros]:
  assumes "tracking_sound ph M s" and "handle_block_meta ph inc sl bh h s = (s', err)"
  shows "tracking_sound ph (insert (UBlockMeta sl bh h) M) s'"
proof (cases "(\<exists>bheight bhash. h = Some bheight \<and> ph bh = Some bhash)")
  case False
  then have "s' = s" using assms(2) by (auto simp: handle_block_meta_def split: option.splits)
  then show ?thesis using tracking_sound_mono [OF _ assms(1)] by blast
next
  case True
  let ?M = "insert (UBlockMeta sl bh h) M"
  from True obtain bheight bhash where h: "h = Some bheight" "ph bh = Some bhash" by blast
  define entry where "entry = (tracking_entry (slot_tracking s) sl)
      \<lparr>sti_block_height := bheight, sti_block_hash := bhash, has_block_meta := True\<rparr>"
  define s1 where "s1 = s\<lparr>slot_tracking := bt_insert sl entry (slot_tracking s)\<rparr>"
  have emit: "emit_seen_statuses inc sl entry [SlotProcessed, SlotConfirmed, SlotFinalized] s1 = (s', err)"
    using assms(2) by (simp add: handle_block_meta_def h entry_def s1_def Let_def)
  have M: "tracking_sound ph ?M s" by (rule tracking_sound_mono [OF _ assms(1)]) blast
  have e: "entry_sound ph ?M sl entry"
    using tracking_entry_sound [OF M, of sl] h
    by (auto simp: entry_def entry_sound_def has_seen_status_bit)
  have meta: "has_block_meta entry" by (simp add: entry_def)
  show ?thesis
  proof (rule tracking_sound_insert [OF M e])
    show "slot_tracking s' = bt_insert sl entry (slot_tracking s)"
      using emit_seen_statuses_tracking [OF emit] by (simp add: s1_def)
    show "\<forall>bm \<in> set (block_meta_out s') - set (block_meta_out s). meta_sound ph ?M bm"
      using emit_seen_statuses_new [OF emit] entry_meta_sound [OF e meta] by (force simp: s1_def)
  qed
qed

lemma handle_transaction_status_frame:
  "handle_transaction_status st sl raw s = Inr (s', err) \<Longrightarrow>
   slot_tracking s' = slot_tracking s \<and> block_meta_out s' = block_meta_out s"
  by (auto simp: handle_transaction_status_def split: if_splits)

lemma handle_grpc_message_sound:
  assumes "tracking_sound ph M s" and "handle_grpc_message ph st inc msg s = Inr (s', err)"
  shows "tracking_sound ph (M \<union> set_option msg) s'"
proof (cases msg)
  case None
  then show ?thesis using assms by (simp add: handle_grpc_message_def)
next
  case (Some m)
  have weaken: "tracking_sound ph (insert m M) t" if "tracking_sound ph M t" for t
    using tracking_sound_mono that by blast
  have "tracking_sound ph (insert m M) s'"
  proof (cases m)
    case (USlot sl status)
    then have "handle_slot_update inc sl status s = (s', err)"
      using assms Some by (simp add: handle_grpc_message_def)
    then show ?thesis unfolding USlot by (rule handle_slot_update_sound [OF assms(1)])
  next
    case (UBlockMeta sl bh h)
    then have "handle_block_meta ph inc sl bh h s = (s', err)"
      using assms Some by (simp add: handle_grpc_message_def)
    then show ?thesis unfolding UBlockMeta by (rule handle_block_meta_sound [OF assms(1)])
  next
    case (UTransactionStatus sl raw)
    then have "slot_tracking s' = slot_tracking s \<and> block_meta_out s' = block_meta_out s"
      using assms(2) Some
      by (auto simp: handle_grpc_message_def split: if_splits dest: handle_transaction_status_frame)
    then show ?thesis using weaken [OF assms(1)] by (simp add: tracking_sound_def)
  qed (use assms Some weaken in \<open>simp_all add: handle_grpc_message_def\<close>)
  then show ?thesis using Some by simp
qed

definition stream_messages :: "stream_event list \<Rightarrow> update_oneof set" where
  "stream_messages es = {m. StreamItem (Some m) \<in> set es}"

lemma process_grpc_stream_sound:
  assumes "tracking_sound ph M s" and "process_grpc_stream ph st inc es s = Inr (s', r)"
  shows "tracking_sound ph (M \<union> stream_messages es) s'"
  using assms
proof (induction ph st inc es s arbitrary: M rule: process_grpc_stream.induct)
  case (5 ph st inc msg es s)
  obtain t e where te: "handle_grpc_message ph st inc msg s = Inr (t, e)"
    using "5.prems"(2) by auto
  have t: "tracking_sound ph (M \<union> set_option msg) t"
    by (rule handle_grpc_message_sound [OF "5.prems"(1) te])
  have sub: "M \<union> set_option msg \<union> stream_messages es \<subseteq> M \<union> stream_messages (StreamItem msg # es)"
    by (cases msg) (auto simp: stream_messages_def)
  show ?case
  proof (cases e)
    case None
    then have "tracking_sound ph (M \<union> set_option msg \<union> stream_messages es) s'"
      using "5.IH" [OF t] "5.prems"(2) te by simp
    then show ?thesis by (rule tracking_sound_mono [OF sub])
  next
    case (Some x)
    then have "s' = t" using "5.prems"(2) te by simp
    then show ?thesis using tracking_sound_mono [OF _ t] sub by blast
  qed
qed (auto intro: tracking_sound_mono [rotated])

text \<open>
  C6. Nothing is invented: every piece of block metadata the subscriber broadcasts carries the height and
  the decoded hash of a metadata message of that slot, and a commitment level that a slot-status message of
  that slot announced.
\<close>

theorem geyser_nothing_invented:
  assumes "process_grpc_stream ph st inc es (geyser_start open_tx) = Inr (s', r)"
    and "bm \<in> set (block_meta_out s')"
  shows "(\<exists>code. StreamItem (Some (USlot (bm_slot bm) code)) \<in> set es \<and>
            slot_status_to_commitment (slot_status_from code) = Some (bm_commitment bm)) \<and>
         (\<exists>bh. StreamItem (Some (UBlockMeta (bm_slot bm) bh (Some (bm_block_height bm)))) \<in> set es \<and>
            ph bh = Some (bm_block_hash bm))"
proof -
  have "tracking_sound ph {} (geyser_start open_tx)"
    by (simp add: tracking_sound_def geyser_start_def)
  from process_grpc_stream_sound [OF this assms(1)] assms(2)
  show ?thesis by (simp add: tracking_sound_def meta_sound_def stream_messages_def)
qed

theorem geyser_nothing_invented_witness:
  "\<exists>code. StreamItem (Some (USlot 7 code)) \<in>
       set [StreamItem (Some (USlot 7 2)), StreamItem (Some (UBlockMeta 7 ''h'' (Some 70)))] \<and>
     slot_status_to_commitment (slot_status_from code) = Some Finalized"
proof -
  let ?es = "[StreamItem (Some (USlot 7 2)), StreamItem (Some (UBlockMeta 7 ''h'' (Some 70)))]"
  let ?r = "process_grpc_stream (\<lambda>_. Some (Hash 9)) (\<lambda>_. None) False ?es (geyser_start True)"
  let ?bm = "\<lparr>bm_slot = 7, bm_block_height = 70, bm_block_hash = Hash 9, bm_commitment = Finalized\<rparr>"
  obtain s' where run: "?r = Inr (s', None)" and out: "?bm \<in> set (block_meta_out s')"
    by (simp add: handle_grpc_message_def handle_slot_update_def handle_block_meta_def geyser_start_def
        tracking_entry_def default_slot_tracking_info_def mark_status_seen_def slot_status_from_def
        slot_update_emit_def has_seen_status_def bt_split_off_def emit_block_meta_def)
  show ?thesis using geyser_nothing_invented [OF run out] by simp
qed

section \<open>The transactions channel mirrors the broadcast\<close>

fun metas_of :: "grpc_update_message list \<Rightarrow> block_meta_with_commitment list" where
  "metas_of [] = []"
| "metas_of (GBlockMeta bm # ms) = bm # metas_of ms"
| "metas_of (_ # ms) = metas_of ms"

lemma metas_of_append [simp]: "metas_of (xs @ ys) = metas_of xs @ metas_of ys"
  by (induction xs rule: metas_of.induct) simp_all

abbreviation mirrored :: "geyser_state \<Rightarrow> bool" where
  "mirrored s \<equiv> metas_of (transactions_out s) = block_meta_out s"

lemma emit_block_meta_mirror:
  "emit_block_meta True bm s = (s', None) \<Longrightarrow> mirrored s \<Longrightarrow> mirrored s'"
  by (auto simp: emit_block_meta_def Let_def split: if_splits)

lemma emit_seen_statuses_mirror:
  "emit_seen_statuses True sl entry sts s = (s', None) \<Longrightarrow> mirrored s \<Longrightarrow> mirrored s'"
  by (induction sts arbitrary: s)
     (auto split: if_splits option.splits prod.splits dest: emit_block_meta_mirror)

lemma handle_slot_update_mirror:
  "handle_slot_update True sl status s = (s', None) \<Longrightarrow> mirrored s \<Longrightarrow> mirrored s'"
  by (auto simp: handle_slot_update_def slot_update_emit_def Let_def
           split: if_splits option.splits prod.splits dest!: emit_block_meta_mirror)

lemma handle_grpc_message_mirror:
  assumes "handle_grpc_message ph st True msg s = Inr (s', None)" "mirrored s"
  shows "mirrored s'"
  using assms
  by (auto simp: handle_grpc_message_def handle_block_meta_def handle_transaction_status_def Let_def
           split: option.splits update_oneof.splits if_splits
           dest: handle_slot_update_mirror emit_seen_statuses_mirror simp del: emit_seen_statuses.simps)

text \<open>
  With transactions included, the consumer of the transactions channel sees the same block metadata, in
  the same order, as the subscribers of the metadata broadcast.
\<close>

theorem geyser_channels_agree:
  assumes "process_grpc_stream ph st True es (geyser_start open_tx) = Inr (s', r)"
    and "\<forall>e. r \<noteq> Some (Inl e)"
  shows "metas_of (transactions_out s') = block_meta_out s'"
proof -
  have "mirrored s'" if "process_grpc_stream ph st True es s = Inr (s', r)" "mirrored s" for s
    using that assms(2)
  proof (induction es arbitrary: s)
    case (Cons ev es)
    show ?case
    proof (cases ev)
      case (StreamItem msg)
      obtain t e where te: "handle_grpc_message ph st True msg s = Inr (t, e)"
        using Cons.prems(1) StreamItem by auto
      have "e = None" using Cons.prems(1,3) te StreamItem by (cases e) auto
      then show ?thesis
        using Cons te StreamItem handle_grpc_message_mirror [of ph st msg s t] by simp
    qed (use Cons.prems in auto)
  qed simp
  then show ?thesis using assms(1) by (simp add: geyser_start_def)
qed

theorem geyser_channels_agree_witness:
  "let s' = fst (projr (process_grpc_stream (\<lambda>_. Some (Hash 9)) (\<lambda>_. None) True
       [StreamItem (Some (USlot 7 1)), StreamItem (Some (UBlockMeta 7 ''h'' (Some 70)))] (geyser_start True)))
   in metas_of (transactions_out s') = block_meta_out s' \<and> length (block_meta_out s') = 1"
proof -
  let ?es = "[StreamItem (Some (USlot 7 1)), StreamItem (Some (UBlockMeta 7 ''h'' (Some 70)))]"
  let ?r = "process_grpc_stream (\<lambda>_. Some (Hash 9)) (\<lambda>_. None) True ?es (geyser_start True)"
  obtain s' where run: "?r = Inr (s', None)" and len: "length (block_meta_out s') = 1"
    by (simp add: handle_grpc_message_def handle_slot_update_def handle_block_meta_def geyser_start_def
        tracking_entry_def default_slot_tracking_info_def mark_status_seen_def slot_status_from_def
        slot_update_emit_def has_seen_status_def bt_split_off_def emit_block_meta_def)
  show ?thesis unfolding run Let_def using geyser_channels_agree [OF run] len by simp
qed

end
