(* ===== verification/Jet_Watcher.thy ===== *)
theory Jet_Watcher
  imports Jet_Prelude
begin

text \<open>
  \<open>apps/jet/src/quic_client/core.rs\<close>: \<open>LeaderTpuInfoService\<close>, which tells where a leader listens, its
  override \<open>OverrideTpuInfoService\<close>, and \<open>RemotePeerAddrWatcher\<close>, a task that watches the addresses of the
  connected peers and tells the gateway which have changed.

  A service is the record \<open>tpu_info_service\<close> of its two required methods. The watcher's state is shared by the
  task and the gateway: the watched addresses, the set of changed peers and the permit of the \<open>Notify\<close>, of
  which there is at most one. The lemmas show that a refresh reports exactly the peers that moved and that a
  reported change always has a permit, so the gateway is woken for it.
\<close>

section \<open>Where a leader listens\<close>

datatype config_quic_tpu_port = Normal | Forwards

record tpu_info_service =
  get_quic_tpu_socket_addr :: "pubkey \<Rightarrow> socket_addr option"
  get_quic_tpu_fwd_socket_addr :: "pubkey \<Rightarrow> socket_addr option"

fun get_quic_dest_addr :: "tpu_info_service \<Rightarrow> pubkey \<Rightarrow> config_quic_tpu_port \<Rightarrow> socket_addr option" where
  "get_quic_dest_addr service leader Normal = get_quic_tpu_socket_addr service leader"
| "get_quic_dest_addr service leader Forwards = get_quic_tpu_fwd_socket_addr service leader"

record tpu_override_info =
  toi_remote_peer :: pubkey
  toi_quic_tpu :: socket_addr
  toi_quic_tpu_forward :: socket_addr

definition or_else :: "'a option \<Rightarrow> 'a option \<Rightarrow> 'a option" where
  "or_else a b = (case a of None \<Rightarrow> b | Some x \<Rightarrow> Some x)"

definition override_tpu_info_service :: "tpu_override_info list \<Rightarrow> tpu_info_service \<Rightarrow> tpu_info_service" where
  "override_tpu_info_service override_vec other =
     \<lparr>get_quic_tpu_socket_addr = (\<lambda>leader.
        or_else (map_option toi_quic_tpu (find (\<lambda>info. toi_remote_peer info = leader) override_vec))
          (get_quic_tpu_socket_addr other leader)),
      get_quic_tpu_fwd_socket_addr = (\<lambda>leader.
        or_else (map_option toi_quic_tpu_forward (find (\<lambda>info. toi_remote_peer info = leader) override_vec))
          (get_quic_tpu_fwd_socket_addr other leader))\<rparr>"

section \<open>The watcher\<close>

datatype watcher_command = RegisterWatch pubkey socket_addr | DeregisterWatch pubkey

record watcher =
  wa_changes :: "pubkey set"
  wa_permit :: bool
  peers_to_watch_map :: "(pubkey, socket_addr) hmap"

definition watcher_new :: watcher where
  "watcher_new = \<lparr>wa_changes = {}, wa_permit = False, peers_to_watch_map = []\<rparr>"

fun watcher_handle_cnc :: "watcher_command \<Rightarrow> watcher \<Rightarrow> watcher" where
  "watcher_handle_cnc (RegisterWatch peer initial_addr) s =
     (case hm_get (peers_to_watch_map s) peer of
        None \<Rightarrow> s\<lparr>peers_to_watch_map := hm_insert peer initial_addr (peers_to_watch_map s)\<rparr>
      | Some _ \<Rightarrow> s)"
| "watcher_handle_cnc (DeregisterWatch peer) s = s\<lparr>peers_to_watch_map := hm_remove peer (peers_to_watch_map s)\<rparr>"

definition update_peers_to_watch :: "tpu_info_service \<Rightarrow> config_quic_tpu_port \<Rightarrow> watcher \<Rightarrow> watcher" where
  "update_peers_to_watch service kind s =
     (let diff = map fst (filter (\<lambda>(peer, last_known_addr).
            (case get_quic_dest_addr service peer kind of
               Some new_addr \<Rightarrow> new_addr \<noteq> last_known_addr
             | None \<Rightarrow> True)) (peers_to_watch_map s))
      in if diff = [] then s
         else s\<lparr>peers_to_watch_map := fold hm_remove diff (peers_to_watch_map s),
                wa_changes := wa_changes s \<union> set diff, wa_permit := True\<rparr>)"

text \<open>\<open>notified\<close>: it resolves only with a permit, and then takes the whole set.\<close>

definition watcher_notified :: "watcher \<Rightarrow> (pubkey set \<times> watcher) option" where
  "watcher_notified s =
     (if wa_permit s then Some (wa_changes s, s\<lparr>wa_changes := {}, wa_permit := False\<rparr>) else None)"

text \<open>The steps of the watcher: its own loop, and the gateway taking the changes.\<close>

datatype watcher_event =
    WatchTick tpu_info_service
  | WatchCommand watcher_command
  | WatchTaken

fun watcher_step :: "config_quic_tpu_port \<Rightarrow> watcher_event \<Rightarrow> watcher \<Rightarrow> watcher" where
  "watcher_step kind (WatchTick service) s = update_peers_to_watch service kind s"
| "watcher_step kind (WatchCommand c) s = watcher_handle_cnc c s"
| "watcher_step kind WatchTaken s = (case watcher_notified s of None \<Rightarrow> s | Some (_, s') \<Rightarrow> s')"

section \<open>What the watcher reports\<close>

definition moved :: "tpu_info_service \<Rightarrow> config_quic_tpu_port \<Rightarrow> watcher \<Rightarrow> pubkey set" where
  "moved service kind s =
     {peer. \<exists>addr. hm_get (peers_to_watch_map s) peer = Some addr \<and> get_quic_dest_addr service peer kind \<noteq> Some addr}"

lemma update_diff:
  assumes "hm_wf (peers_to_watch_map s)"
  shows "set (map fst (filter (\<lambda>(peer, last_known_addr).
            (case get_quic_dest_addr service peer kind of
               Some new_addr \<Rightarrow> new_addr \<noteq> last_known_addr | None \<Rightarrow> True)) (peers_to_watch_map s))) = moved service kind s"
proof -
  have "(case get_quic_dest_addr service p kind of Some new_addr \<Rightarrow> new_addr \<noteq> a | None \<Rightarrow> True) \<longleftrightarrow>
      get_quic_dest_addr service p kind \<noteq> Some a" for p a
    by (simp split: option.split)
  then show ?thesis
    by (force simp: moved_def hm_get_in_set [OF assms, symmetric])
qed

lemma update_peers_fields:
  assumes "hm_wf (peers_to_watch_map s)"
  shows "hm_get (peers_to_watch_map (update_peers_to_watch service kind s)) peer =
      (if peer \<in> moved service kind s then None else hm_get (peers_to_watch_map s) peer)"
    and "wa_changes (update_peers_to_watch service kind s) = wa_changes s \<union> moved service kind s"
    and "wa_permit (update_peers_to_watch service kind s) \<longleftrightarrow> wa_permit s \<or> moved service kind s \<noteq> {}"
    and "hm_wf (peers_to_watch_map (update_peers_to_watch service kind s))"
proof -
  define diff where "diff = map fst (filter (\<lambda>(peer, last_known_addr).
      (case get_quic_dest_addr service peer kind of
         Some new_addr \<Rightarrow> new_addr \<noteq> last_known_addr | None \<Rightarrow> True)) (peers_to_watch_map s))"
  have upd: "update_peers_to_watch service kind s =
      (if diff = [] then s
       else s\<lparr>peers_to_watch_map := fold hm_remove diff (peers_to_watch_map s),
              wa_changes := wa_changes s \<union> set diff, wa_permit := True\<rparr>)"
    unfolding update_peers_to_watch_def diff_def Let_def by (rule refl)
  have set: "moved service kind s = set diff" unfolding diff_def by (rule update_diff [OF assms, symmetric])
  show "hm_get (peers_to_watch_map (update_peers_to_watch service kind s)) peer =
      (if peer \<in> moved service kind s then None else hm_get (peers_to_watch_map s) peer)"
    and "wa_changes (update_peers_to_watch service kind s) = wa_changes s \<union> moved service kind s"
    and "wa_permit (update_peers_to_watch service kind s) \<longleftrightarrow> wa_permit s \<or> moved service kind s \<noteq> {}"
    and "hm_wf (peers_to_watch_map (update_peers_to_watch service kind s))"
    unfolding upd set using assms by (simp_all add: hm_get_fold_remove hm_wf_fold_remove)
qed

definition watcher_inv :: "watcher \<Rightarrow> bool" where
  "watcher_inv s \<longleftrightarrow> hm_wf (peers_to_watch_map s) \<and> (wa_changes s \<noteq> {} \<longrightarrow> wa_permit s)"

lemma watcher_step_inv [inv_intros]:
  assumes "watcher_inv s"
  shows "watcher_inv (watcher_step kind e s)"
proof (cases e)
  case (WatchTick service)
  have wf: "hm_wf (peers_to_watch_map s)" using assms by (simp add: watcher_inv_def)
  show ?thesis
    using assms update_peers_fields(2-4) [OF wf, of service kind] by (auto simp: WatchTick watcher_inv_def)
next
  case (WatchCommand c)
  then show ?thesis using assms by (cases c) (auto simp: watcher_inv_def split: option.split)
next
  case WatchTaken
  then show ?thesis using assms by (auto simp: watcher_inv_def watcher_notified_def)
qed

lemma watcher_run_inv: "watcher_inv s \<Longrightarrow> watcher_inv (fold (watcher_step kind) es s)"
  by (induction es arbitrary: s) (simp_all add: watcher_step_inv)

lemma watcher_new_inv [simp]: "watcher_inv watcher_new"
  by (simp add: watcher_inv_def watcher_new_def)

text \<open>
  C13. No address change is missed or stranded. In every state the watcher can reach, a refresh reports exactly
  the watched peers whose advertised address is gone or differs from the one they were watched with, stops
  watching those and no others, and afterwards the gateway's wait resolves whenever there is a change to take, and
  delivers all of them.
\<close>

theorem watcher_reports_every_move:
  "let s = fold (watcher_step kind) es watcher_new; s' = update_peers_to_watch service kind s
   in wa_changes s' = wa_changes s \<union> moved service kind s \<and>
      (\<forall>peer. hm_get (peers_to_watch_map s') peer =
         (if peer \<in> moved service kind s then None else hm_get (peers_to_watch_map s) peer)) \<and>
      (wa_changes s' = {} \<or> (\<exists>s''. watcher_notified s' = Some (wa_changes s', s'') \<and> wa_changes s'' = {}))"
proof -
  let ?s = "fold (watcher_step kind) es watcher_new"
  have inv: "watcher_inv ?s" by (rule watcher_run_inv) simp
  then have wf: "hm_wf (peers_to_watch_map ?s)" by (simp add: watcher_inv_def)
  have "watcher_inv (update_peers_to_watch service kind ?s)"
    using watcher_step_inv [OF inv, of kind "WatchTick service"] by simp
  then show ?thesis
    unfolding Let_def using update_peers_fields(1,2) [OF wf, of service kind]
    by (auto simp: watcher_inv_def watcher_notified_def)
qed

section \<open>Overrides\<close>

text \<open>
  An override decides both ports of the peers it names, by its first entry for the peer, and leaves every other
  peer to the service below it.
\<close>

theorem override_decides_named_peers:
  "get_quic_dest_addr (override_tpu_info_service (pre @ info # post) other) peer kind =
     (if peer \<in> toi_remote_peer ` set pre
      then get_quic_dest_addr (override_tpu_info_service pre other) peer kind
      else if peer = toi_remote_peer info
      then Some (case kind of Normal \<Rightarrow> toi_quic_tpu info | Forwards \<Rightarrow> toi_quic_tpu_forward info)
      else get_quic_dest_addr (override_tpu_info_service post other) peer kind) \<and>
   get_quic_dest_addr (override_tpu_info_service [] other) peer kind = get_quic_dest_addr other peer kind"
proof -
  have "find P (pre @ info # post) = (if \<exists>x \<in> set pre. P x then find P pre else if P info then Some info else find P post)"
    for P :: "tpu_override_info \<Rightarrow> bool"
    by (induction pre) auto
  moreover have "(\<exists>x \<in> set pre. toi_remote_peer x = peer) \<longleftrightarrow> peer \<in> toi_remote_peer ` set pre" by auto
  moreover have "(\<exists>x. find (\<lambda>info. toi_remote_peer info = peer) pre = Some x) \<longleftrightarrow> peer \<in> toi_remote_peer ` set pre"
    using find_None_iff [of "\<lambda>info. toi_remote_peer info = peer" pre] by (auto simp: image_iff)
  ultimately show ?thesis
    by (cases kind) (auto simp: override_tpu_info_service_def or_else_def)
qed

end
