(* ===== verification/Jet_Cluster.thy ===== *)
theory Jet_Cluster
  imports Jet_Geyser Jet_Watcher
begin

text \<open>
  \<open>apps/jet/src/cluster_tpu_info.rs\<close>: \<open>ClusterTpuInfo\<close>, which knows the latest slot, the leader schedule and
  the contact addresses of the cluster, and its use as \<open>LeaderTpuInfoService\<close> in
  \<open>quic_client/jet_intg.rs\<close>.

  The shared state \<open>ClusterTpuInfoInner\<close> is the record \<open>cluster_inner\<close>. Two tasks write to it: the one of
  \<open>update_latest_slot_and_leader_schedule\<close>, which reads slot updates from a broadcast channel and fetches a
  schedule when the current slot has no entry, and the one of \<open>update_cluster_nodes\<close>. Their local variables
  are the record \<open>cluster_task\<close>, and \<open>cluster_step\<close> is one step of either: a message put into the channel, one
  iteration of the slot loop, one answer of the node. The steps come in any order. The delays between
  two calls of the node are those of the backoff of \<open>Jet_Util\<close> and have no other effect.

  Parameters are the parser of public keys (\<open>Pubkey::from_str\<close>) and \<open>EpochSchedule\<close>, both of Solana crates; the
  record \<open>epoch_schedule\<close> has the three methods the code calls, and \<open>epoch_schedule_ok\<close> says what is relied
  on: a slot is the first slot of its epoch plus its index.
\<close>

section \<open>The shared state\<close>

record contact_info =
  ci_pubkey :: string
  ci_tpu_quic :: "socket_addr option"
  ci_tpu_forwards_quic :: "socket_addr option"

record epoch_schedule =
  get_epoch :: "slot \<Rightarrow> u64"
  get_epoch_and_slot_index :: "slot \<Rightarrow> u64 \<times> u64"
  get_first_slot_in_epoch :: "u64 \<Rightarrow> slot"

definition epoch_schedule_ok :: "epoch_schedule \<Rightarrow> bool" where
  "epoch_schedule_ok es \<longleftrightarrow>
     (\<forall>s. get_epoch es s = fst (get_epoch_and_slot_index es s) \<and>
          get_first_slot_in_epoch es (get_epoch es s) + snd (get_epoch_and_slot_index es s) = s)"

record tpu_info =
  ti_leader :: pubkey
  ti_slots :: "slot list"
  ti_quic :: "socket_addr option"
  ti_quic_forwards :: "socket_addr option"

definition consecutive_leader_slots :: u64 where
  "consecutive_leader_slots = 4"

definition leader_schedule_retention_slots :: u64 where
  "leader_schedule_retention_slots = 42"

record cluster_inner =
  cl_latest_seen_slot :: slot
  cl_epoch_schedule :: epoch_schedule
  cl_leader_schedule :: "(slot, pubkey) hmap"
  cl_cluster_nodes :: "(pubkey, contact_info) hmap"

definition get_tpu_info :: "cluster_inner \<Rightarrow> slot \<Rightarrow> tpu_info option" where
  "get_tpu_info inner leader_slot =
     (case hm_get (cl_leader_schedule inner) leader_slot of
        None \<Rightarrow> None
      | Some leader \<Rightarrow>
          (case hm_get (cl_cluster_nodes inner) leader of
             None \<Rightarrow> None
           | Some tpu_info \<Rightarrow>
               (let (epoch, index) = get_epoch_and_slot_index (cl_epoch_schedule inner) leader_slot;
                    slot = get_first_slot_in_epoch (cl_epoch_schedule inner) epoch + index
                             - index mod consecutive_leader_slots
                in Some \<lparr>ti_leader = leader, ti_slots = [slot, slot + 1, slot + 2, slot + 3],
                         ti_quic = ci_tpu_quic tpu_info, ti_quic_forwards = ci_tpu_forwards_quic tpu_info\<rparr>)))"

definition get_leader_tpus :: "cluster_inner \<Rightarrow> nat \<Rightarrow> tpu_info list" where
  "get_leader_tpus inner leader_forward_count =
     List.map_filter (\<lambda>i. get_tpu_info inner (cl_latest_seen_slot inner + of_nat i * consecutive_leader_slots))
       [0..<Suc leader_forward_count]"

text \<open>\<open>UpcomingLeaderSchedule\<close> and \<open>UpcomingLeaderPredictor\<close> of the cluster, and its addresses.\<close>

definition leader_lookahead :: "cluster_inner \<Rightarrow> nat \<Rightarrow> pubkey list" where
  "leader_lookahead inner leader_forward_lookahead = map ti_leader (get_leader_tpus inner leader_forward_lookahead)"

definition get_current_slot :: "cluster_inner \<Rightarrow> slot" where
  "get_current_slot inner = cl_latest_seen_slot inner"

definition try_predict_next_n_leaders :: "cluster_inner \<Rightarrow> nat \<Rightarrow> pubkey list" where
  "try_predict_next_n_leaders inner n = map ti_leader (get_leader_tpus inner n)"

definition cluster_tpu_info_service :: "cluster_inner \<Rightarrow> tpu_info_service" where
  "cluster_tpu_info_service inner =
     \<lparr>get_quic_tpu_socket_addr = (\<lambda>leader. Option.bind (hm_get (cl_cluster_nodes inner) leader) ci_tpu_quic),
      get_quic_tpu_fwd_socket_addr = (\<lambda>leader. Option.bind (hm_get (cl_cluster_nodes inner) leader) ci_tpu_forwards_quic)\<rparr>"

section \<open>The two tasks\<close>

text \<open>What the node answers: \<open>ClientResult\<close> with the error as text.\<close>

type_synonym 'a client_result = "string + 'a"

type_synonym rpc_leader_schedule = "(string \<times> nat list) list"

record cluster_task =
  ct_inner :: cluster_inner
  ct_slots_rx :: "slot_update_with_status list"
  ct_max_slot :: slot
  ct_fetching :: bool
  ct_stopped :: bool
  ct_old_cluster :: "(pubkey, contact_info) hmap"

definition cluster_new :: "epoch_schedule \<Rightarrow> cluster_task" where
  "cluster_new es =
     \<lparr>ct_inner = \<lparr>cl_latest_seen_slot = 0, cl_epoch_schedule = es, cl_leader_schedule = [], cl_cluster_nodes = []\<rparr>,
      ct_slots_rx = [], ct_max_slot = 0, ct_fetching = False, ct_stopped = False, ct_old_cluster = []\<rparr>"

text \<open>Equality of two hash maps, which does not depend on their iteration order.\<close>

definition hm_eq :: "('k, 'v) hmap \<Rightarrow> ('k, 'v) hmap \<Rightarrow> bool" where
  "hm_eq m m' \<longleftrightarrow> set m = set m'"

definition collect_nodes :: "(string \<Rightarrow> pubkey option) \<Rightarrow> contact_info list \<Rightarrow> (pubkey, contact_info) hmap" where
  "collect_nodes parse nodes =
     fold (\<lambda>(pubkey, info). hm_insert pubkey info)
       (List.map_filter (\<lambda>info. map_option (\<lambda>pubkey. (pubkey, info)) (parse (ci_pubkey info))) nodes) []"

definition update_cluster_nodes ::
  "(string \<Rightarrow> pubkey option) \<Rightarrow> contact_info list client_result \<Rightarrow> cluster_task \<Rightarrow> cluster_task" where
  "update_cluster_nodes parse answer t =
     (case answer of
        Inl error \<Rightarrow> t
      | Inr infos \<Rightarrow>
          (let nodes = collect_nodes parse infos
           in if \<not> hm_eq (ct_old_cluster t) nodes
              then t\<lparr>ct_inner := (ct_inner t)\<lparr>cl_cluster_nodes := nodes\<rparr>, ct_old_cluster := nodes\<rparr>
              else t))"

text \<open>Confirmed and finalized updates say nothing about the newest slot and are skipped.\<close>

definition ignored_status :: "slot_update_with_status \<Rightarrow> bool" where
  "ignored_status u \<longleftrightarrow> su_slot_status u \<in> {SlotConfirmed, SlotFinalized}"

fun drain_slots :: "slot_update_with_status list \<Rightarrow> slot \<Rightarrow> slot" where
  "drain_slots [] new_latest_slot = new_latest_slot"
| "drain_slots (u # us) new_latest_slot =
     drain_slots us (if ignored_status u then new_latest_slot else max new_latest_slot (su_slot u))"

text \<open>
  The slot loop up to the fetch: with the new slot it sets the flag \<open>ct_fetching\<close> when the schedule has no
  entry for it.
\<close>

definition new_slot :: "slot \<Rightarrow> cluster_task \<Rightarrow> cluster_task" where
  "new_slot new_latest_slot t =
     (if new_latest_slot \<le> ct_max_slot t then t
      else let max_slot = max (ct_max_slot t) new_latest_slot;
               need_update = (\<not> hm_contains (cl_leader_schedule (ct_inner t)) max_slot)
           in t\<lparr>ct_inner := (ct_inner t)\<lparr>cl_latest_seen_slot := max_slot\<rparr>,
                ct_max_slot := max_slot, ct_fetching := need_update\<rparr>)"

definition slot_loop :: "cluster_task \<Rightarrow> cluster_task" where
  "slot_loop t =
     (case ct_slots_rx t of
        [] \<Rightarrow> t
      | u # us \<Rightarrow>
          if ignored_status u then t\<lparr>ct_slots_rx := us\<rparr>
          else new_slot (drain_slots us (su_slot u)) (t\<lparr>ct_slots_rx := []\<rparr>))"

text \<open>The inner loop that fetches the schedule: it goes on until the node has one.\<close>

definition insert_leader ::
  "(string \<Rightarrow> pubkey option) \<Rightarrow> slot \<Rightarrow> string \<times> nat list \<Rightarrow> (slot, pubkey) hmap \<Rightarrow> (slot, pubkey) hmap" where
  "insert_leader parse epoch_start_slot entry m =
     (case parse (fst entry) of
        None \<Rightarrow> m
      | Some pubkey \<Rightarrow> fold (\<lambda>slot_index. hm_insert (epoch_start_slot + of_nat slot_index) pubkey) (snd entry) m)"

definition install_schedule ::
  "(string \<Rightarrow> pubkey option) \<Rightarrow> rpc_leader_schedule \<Rightarrow> slot \<Rightarrow> cluster_inner \<Rightarrow> cluster_inner" where
  "install_schedule parse leader_schedule max_slot inner =
     (let epoch = get_epoch (cl_epoch_schedule inner) max_slot;
          epoch_start_slot = get_first_slot_in_epoch (cl_epoch_schedule inner) epoch;
          kept = hm_retain (\<lambda>leader_schedule_slot _. leader_schedule_slot + leader_schedule_retention_slots > max_slot)
                   (cl_leader_schedule inner)
      in inner\<lparr>cl_leader_schedule := fold (insert_leader parse epoch_start_slot) leader_schedule kept\<rparr>)"

definition schedule_answer ::
  "(string \<Rightarrow> pubkey option) \<Rightarrow> rpc_leader_schedule option client_result \<Rightarrow> cluster_task \<Rightarrow> cluster_task" where
  "schedule_answer parse answer t =
     (case answer of
        Inr (Some leader_schedule) \<Rightarrow>
          t\<lparr>ct_inner := install_schedule parse leader_schedule (ct_max_slot t) (ct_inner t), ct_fetching := False\<rparr>
      | Inr None \<Rightarrow> t
      | Inl error \<Rightarrow> t)"

text \<open>
  The steps. While the schedule is being fetched the slot loop does not read its channel. An error of the
  channel ends the task, and with it both tasks, since they are branches of one \<open>select!\<close>.
\<close>

datatype cluster_event =
    SlotSent slot_update_with_status
  | SlotLoop
  | SlotsError
  | ScheduleAnswer "rpc_leader_schedule option client_result"
  | NodesAnswer "contact_info list client_result"

fun cluster_step :: "(string \<Rightarrow> pubkey option) \<Rightarrow> cluster_event \<Rightarrow> cluster_task \<Rightarrow> cluster_task" where
  "cluster_step parse (SlotSent u) t = t\<lparr>ct_slots_rx := ct_slots_rx t @ [u]\<rparr>"
| "cluster_step parse SlotLoop t = (if ct_stopped t \<or> ct_fetching t then t else slot_loop t)"
| "cluster_step parse SlotsError t = (if ct_stopped t \<or> ct_fetching t then t else t\<lparr>ct_stopped := True\<rparr>)"
| "cluster_step parse (ScheduleAnswer answer) t =
     (if ct_stopped t \<or> \<not> ct_fetching t then t else schedule_answer parse answer t)"
| "cluster_step parse (NodesAnswer answer) t = (if ct_stopped t then t else update_cluster_nodes parse answer t)"

definition cluster_run :: "(string \<Rightarrow> pubkey option) \<Rightarrow> cluster_event list \<Rightarrow> cluster_task \<Rightarrow> cluster_task" where
  "cluster_run parse evs t = fold (cluster_step parse) evs t"

section \<open>The leaders that are looked up\<close>

lemma get_tpu_info_SomeD:
  assumes "get_tpu_info inner s = Some info"
  shows "hm_get (cl_leader_schedule inner) s = Some (ti_leader info)"
    and "\<exists>ci. hm_get (cl_cluster_nodes inner) (ti_leader info) = Some ci \<and>
           ti_quic info = ci_tpu_quic ci \<and> ti_quic_forwards info = ci_tpu_forwards_quic ci"
  using assms by (auto simp: get_tpu_info_def Let_def split: option.splits prod.splits)

lemma get_tpu_info_leader:
  "map_option ti_leader (get_tpu_info inner s) =
     Option.bind (hm_get (cl_leader_schedule inner) s)
       (\<lambda>leader. if hm_contains (cl_cluster_nodes inner) leader then Some leader else None)"
  by (simp add: get_tpu_info_def Let_def hm_contains_iff split: option.split prod.split)

lemma word_mod_4_less: "(i::u64) mod 4 \<in> {0, 1, 2, 3}"
proof -
  have "unat (i mod 4) < 4" by (simp add: unat_mod)
  then have "unat (i mod 4) = unat (0::u64) \<or> unat (i mod 4) = unat (1::u64) \<or>
      unat (i mod 4) = unat (2::u64) \<or> unat (i mod 4) = unat (3::u64)" by auto
  then show ?thesis by (simp only: insert_iff empty_iff word_unat_eq_iff simp_thms)
qed

lemma get_tpu_info_window:
  assumes "epoch_schedule_ok (cl_epoch_schedule inner)" and "get_tpu_info inner s = Some info"
  shows "s \<in> set (ti_slots info)"
proof -
  obtain e i where ei: "get_epoch_and_slot_index (cl_epoch_schedule inner) s = (e, i)" by fastforce
  then have s: "get_first_slot_in_epoch (cl_epoch_schedule inner) e + i = s"
    using assms(1) by (metis epoch_schedule_ok_def fst_conv snd_conv)
  define w where "w = s - i mod 4"
  have "ti_slots info = [w, w + 1, w + 2, w + 3]"
    using assms(2) ei s
    by (auto simp: get_tpu_info_def Let_def consecutive_leader_slots_def w_def split: option.splits)
  moreover have "s = w + i mod 4" by (simp add: w_def)
  ultimately show ?thesis using word_mod_4_less [of i] by auto
qed

lemma map_map_filter: "map g (List.map_filter f xs) = List.map_filter (\<lambda>x. map_option g (f x)) xs"
  by (induction xs) (simp_all add: List.map_filter_simps split: option.split)

lemma length_map_filter: "length (List.map_filter f xs) \<le> length xs"
  by (induction xs) (simp_all add: List.map_filter_simps split: option.split)

text \<open>
  The contract of \<open>UpcomingLeaderSchedule\<close> the fanout relies on: at most one leader for each of the windows from
  the current one to the \<open>n\<close>-th after it.
\<close>

locale upcoming_leader_schedule =
  fixes lookahead :: "nat \<Rightarrow> pubkey list"
  assumes lookahead_bounded: "length (lookahead n) \<le> Suc n"
begin

lemma allowed_bounded: "length (filter P (lookahead n)) \<le> Suc n"
  using lookahead_bounded [of n] length_filter_le [of P "lookahead n"] by linarith

end

interpretation cluster_schedule: upcoming_leader_schedule "leader_lookahead inner" for inner
proof unfold_locales
  fix n
  show "length (leader_lookahead inner n) \<le> Suc n"
    unfolding leader_lookahead_def get_leader_tpus_def length_map
    by (rule order_trans [OF length_map_filter]) simp
qed


text \<open>An epoch schedule without warm-up, as on the main network, and a parser that knows two keys.\<close>

definition ex_epochs :: epoch_schedule where
  "ex_epochs = \<lparr>get_epoch = (\<lambda>s. s div 432000), get_epoch_and_slot_index = (\<lambda>s. (s div 432000, s mod 432000)),
     get_first_slot_in_epoch = (\<lambda>e. e * 432000)\<rparr>"

definition ex_parse :: "string \<Rightarrow> pubkey option" where
  "ex_parse s = (if s = ''A'' then Some (Pubkey 1) else if s = ''B'' then Some (Pubkey 2) else None)"

definition ex_info :: "string \<Rightarrow> contact_info" where
  "ex_info key = \<lparr>ci_pubkey = key, ci_tpu_quic = Some (SocketAddr 10 8009), ci_tpu_forwards_quic = None\<rparr>"

lemma ex_epochs_ok: "epoch_schedule_ok ex_epochs"
  by (simp add: epoch_schedule_ok_def ex_epochs_def word_mod_div_equality)

definition ex_inner :: cluster_inner where
  "ex_inner = \<lparr>cl_latest_seen_slot = 6, cl_epoch_schedule = ex_epochs,
     cl_leader_schedule = [(6, Pubkey 1), (10, Pubkey 2)], cl_cluster_nodes = [(Pubkey 1, ex_info ''A'')]\<rparr>"


section \<open>Following the slots\<close>

text \<open>The newest slot among the updates that count.\<close>

fun newest :: "slot_update_with_status list \<Rightarrow> slot" where
  "newest [] = 0"
| "newest (u # us) = (if ignored_status u then newest us else max (su_slot u) (newest us))"

fun sent_updates :: "cluster_event list \<Rightarrow> slot_update_with_status list" where
  "sent_updates [] = []"
| "sent_updates (SlotSent u # evs) = u # sent_updates evs"
| "sent_updates (_ # evs) = sent_updates evs"

lemma newest_append: "newest (us @ vs) = max (newest us) (newest vs)"
  by (induction us) (auto simp: max.assoc)

lemma drain_slots_newest: "drain_slots us s = max s (newest us)"
  by (induction us arbitrary: s) (auto simp: max.assoc)

definition cluster_inv :: "cluster_task \<Rightarrow> bool" where
  "cluster_inv t \<longleftrightarrow> cl_latest_seen_slot (ct_inner t) = ct_max_slot t \<and> hm_wf (cl_leader_schedule (ct_inner t)) \<and>
     hm_wf (cl_cluster_nodes (ct_inner t)) \<and> ct_old_cluster t = cl_cluster_nodes (ct_inner t) \<and>
     (ct_fetching t \<longrightarrow> \<not> hm_contains (cl_leader_schedule (ct_inner t)) (ct_max_slot t))"

lemma hm_wf_fold_insert: "hm_wf m \<Longrightarrow> hm_wf (fold (\<lambda>x. hm_insert (k x) (v x)) xs m)"
  by (induction xs arbitrary: m) auto

lemma hm_wf_collect_nodes: "hm_wf (collect_nodes parse infos)"
  unfolding collect_nodes_def case_prod_beta' by (rule hm_wf_fold_insert) simp

lemma hm_wf_insert_leader: "hm_wf m \<Longrightarrow> hm_wf (insert_leader parse st entry m)"
  by (simp add: insert_leader_def hm_wf_fold_insert split: option.split)

lemma hm_wf_fold_insert_leader: "hm_wf m \<Longrightarrow> hm_wf (fold (insert_leader parse st) sched m)"
  by (induction sched arbitrary: m) (auto simp: hm_wf_insert_leader)

lemma slot_loop_inv: "cluster_inv t \<Longrightarrow> \<not> ct_fetching t \<Longrightarrow> cluster_inv (slot_loop t)"
  by (auto simp: cluster_inv_def slot_loop_def new_slot_def Let_def max_def split: list.split)

lemma schedule_answer_inv: "cluster_inv t \<Longrightarrow> cluster_inv (schedule_answer parse answer t)"
  by (auto simp: cluster_inv_def schedule_answer_def install_schedule_def Let_def hm_wf_fold_insert_leader
      split: sum.split option.split)

lemma update_cluster_nodes_inv: "cluster_inv t \<Longrightarrow> cluster_inv (update_cluster_nodes parse answer t)"
  by (auto simp: cluster_inv_def update_cluster_nodes_def Let_def hm_wf_collect_nodes split: sum.split)

lemma cluster_step_inv [inv_intros]: "cluster_inv t \<Longrightarrow> cluster_inv (cluster_step parse ev t)"
proof (cases ev)
  case (SlotSent u)
  then show "cluster_inv t \<Longrightarrow> ?thesis" by (simp add: cluster_inv_def)
next
  case SlotsError
  then show "cluster_inv t \<Longrightarrow> ?thesis" by (simp add: cluster_inv_def)
qed (simp_all add: slot_loop_inv schedule_answer_inv update_cluster_nodes_inv)

lemma cluster_run_inv: "cluster_inv t \<Longrightarrow> cluster_inv (cluster_run parse evs t)"
  unfolding cluster_run_def by (induction evs arbitrary: t) (auto intro: inv_intros)

lemma cluster_new_inv: "cluster_inv (cluster_new es)"
  by (simp add: cluster_inv_def cluster_new_def)

lemma cluster_run_epoch: "cl_epoch_schedule (ct_inner (cluster_run parse evs t)) = cl_epoch_schedule (ct_inner t)"
  unfolding cluster_run_def
proof (induction evs arbitrary: t)
  case (Cons ev evs)
  have "cl_epoch_schedule (ct_inner (cluster_step parse ev t)) = cl_epoch_schedule (ct_inner t)"
    by (cases ev) (simp_all add: slot_loop_def new_slot_def schedule_answer_def install_schedule_def
        update_cluster_nodes_def Let_def split: list.split sum.split option.split)
  with Cons show ?case by simp
qed simp

text \<open>What is known and what is in the channel: together the newest slot so far.\<close>

definition newest_seen :: "cluster_task \<Rightarrow> slot" where
  "newest_seen t = max (ct_max_slot t) (newest (ct_slots_rx t))"

lemma slot_loop_newest: "newest_seen (slot_loop t) = newest_seen t"
  by (auto simp: newest_seen_def slot_loop_def new_slot_def drain_slots_newest Let_def max_def split: list.split)

lemma cluster_step_newest:
  "newest_seen (cluster_step parse ev t) = max (newest_seen t) (newest (sent_updates [ev]))"
proof (cases ev)
  case (SlotSent u)
  then show ?thesis by (auto simp: newest_seen_def newest_append max.assoc)
next
  case (ScheduleAnswer a)
  then show ?thesis by (simp add: newest_seen_def schedule_answer_def split: sum.split option.split)
next
  case (NodesAnswer a)
  then show ?thesis by (simp add: newest_seen_def update_cluster_nodes_def Let_def split: sum.split)
qed (simp_all add: slot_loop_newest newest_seen_def [of "t\<lparr>ct_stopped := True\<rparr>"] newest_seen_def [of t])

lemma sent_updates_Cons: "sent_updates (ev # evs) = sent_updates [ev] @ sent_updates evs"
  by (cases ev) simp_all

lemma cluster_run_newest:
  "newest_seen (cluster_run parse evs t) = max (newest_seen t) (newest (sent_updates evs))"
  unfolding cluster_run_def
proof (induction evs arbitrary: t)
  case (Cons ev evs)
  then show ?case
    by (simp add: cluster_step_newest sent_updates_Cons [of ev evs] newest_append max.assoc del: sent_updates.simps)
qed simp

text \<open>
  C18. Whatever the order of slot updates, answers and loop iterations: the slot the readers see, together
  with the updates still in the channel, is the newest slot announced by an update that is neither confirmed nor
  finalized. So once the channel has been drained the readers see exactly the newest announced slot, late
  and repeated updates never move it back, and a schedule is fetched only for a slot that has no entry.
\<close>

theorem cluster_follows_newest_slot:
  assumes "t = cluster_run parse evs (cluster_new es)"
  shows "max (cl_latest_seen_slot (ct_inner t)) (newest (ct_slots_rx t)) = newest (sent_updates evs) \<and>
    (ct_slots_rx t = [] \<longrightarrow> cl_latest_seen_slot (ct_inner t) = newest (sent_updates evs)) \<and>
    cl_latest_seen_slot (ct_inner t) \<le> cl_latest_seen_slot (ct_inner (cluster_step parse ev t)) \<and>
    (ct_fetching t \<longrightarrow> hm_get (cl_leader_schedule (ct_inner t)) (cl_latest_seen_slot (ct_inner t)) = None)"
proof -
  have inv: "cluster_inv t" unfolding assms by (intro cluster_run_inv cluster_new_inv)
  have seen: "cl_latest_seen_slot (ct_inner t) = ct_max_slot t" using inv by (simp add: cluster_inv_def)
  have "newest_seen t = newest (sent_updates evs)"
    unfolding assms cluster_run_newest by (simp add: newest_seen_def cluster_new_def)
  then have eq: "max (cl_latest_seen_slot (ct_inner t)) (newest (ct_slots_rx t)) = newest (sent_updates evs)"
    by (simp add: newest_seen_def seen)
  have "ct_max_slot t \<le> ct_max_slot (cluster_step parse ev t)"
    by (cases ev) (auto simp: slot_loop_def new_slot_def Let_def schedule_answer_def update_cluster_nodes_def
        split: list.split sum.split option.split)
  moreover have "cluster_inv (cluster_step parse ev t)" using inv by (rule inv_intros)
  ultimately have "cl_latest_seen_slot (ct_inner t) \<le> cl_latest_seen_slot (ct_inner (cluster_step parse ev t))"
    using seen by (simp add: cluster_inv_def)
  then show ?thesis using eq inv by (auto simp: cluster_inv_def hm_contains_iff)
qed

definition ex_update :: "slot \<Rightarrow> slot_status \<Rightarrow> slot_update_with_status" where
  "ex_update s st = \<lparr>su_slot = s, su_slot_status = st\<rparr>"

definition ex_cluster_events :: "cluster_event list" where
  "ex_cluster_events = [SlotSent (ex_update 7 SlotProcessed), SlotSent (ex_update 9 SlotFinalized),
     SlotSent (ex_update 6 SlotProcessed), SlotLoop]"

lemmas cluster_eval = ex_cluster_events_def ex_update_def cluster_run_def cluster_new_def slot_loop_def new_slot_def
  ignored_status_def Let_def

theorem cluster_follows_newest_slot_witness:
  "(let t = cluster_run ex_parse ex_cluster_events (cluster_new ex_epochs)
    in ct_slots_rx t = [] \<and> newest (sent_updates ex_cluster_events) = 7 \<and> cl_latest_seen_slot (ct_inner t) = 7)"
  using cluster_follows_newest_slot [OF refl, of ex_parse ex_cluster_events ex_epochs SlotLoop]
  by (simp add: cluster_eval)

section \<open>Installing a schedule\<close>

text \<open>The leader a schedule of the node names for a slot; a later entry wins over an earlier one.\<close>

definition scheduled :: "(string \<Rightarrow> pubkey option) \<Rightarrow> slot \<Rightarrow> rpc_leader_schedule \<Rightarrow> slot \<Rightarrow> pubkey option" where
  "scheduled parse start sched =
     map_of (rev (concat (map (\<lambda>(key, indices).
       (case parse key of None \<Rightarrow> [] | Some pubkey \<Rightarrow> map (\<lambda>i. (start + of_nat i, pubkey)) indices)) sched)))"

lemma scheduled_Cons:
  "scheduled parse start (entry # sched) s =
     (case scheduled parse start sched s of
        Some pk \<Rightarrow> Some pk
      | None \<Rightarrow> scheduled parse start [entry] s)"
  by (simp add: scheduled_def map_add_def split: option.split)

lemma hm_get_fold_insert:
  "hm_get (fold (\<lambda>x. hm_insert (f x) v) xs m) s = (if s \<in> f ` set xs then Some v else hm_get m s)"
  by (induction xs arbitrary: m) auto

lemma map_of_rev_const: "map_of (rev (map (\<lambda>x. (f x, v)) xs)) s = (if s \<in> f ` set xs then Some v else None)"
  by (induction xs) (auto simp: map_add_def)

lemma hm_get_insert_leader:
  "hm_get (insert_leader parse start entry m) s =
     (case scheduled parse start [entry] s of Some pk \<Rightarrow> Some pk | None \<Rightarrow> hm_get m s)"
  by (cases entry) (simp add: insert_leader_def scheduled_def hm_get_fold_insert map_of_rev_const split: option.split)

lemma hm_get_fold_insert_leader:
  "hm_get (fold (insert_leader parse start) sched m) s =
     (case scheduled parse start sched s of Some pk \<Rightarrow> Some pk | None \<Rightarrow> hm_get m s)"
proof (induction sched arbitrary: m)
  case (Cons entry sched)
  then show ?case
    by (simp add: hm_get_insert_leader scheduled_Cons [of parse start entry sched] split: option.split)
qed (simp add: scheduled_def)

lemma scheduled_listed:
  assumes "(key, indices) \<in> set sched" and "parse key = Some pk" and "i \<in> set indices"
  shows "scheduled parse start sched (start + of_nat i) \<noteq> None"
  unfolding scheduled_def map_of_eq_None_iff using assms by force

text \<open>
  C19. When the node answers with a schedule, in any state the two tasks reach, the new schedule names for a slot
  the leader of the answer; a slot the answer does not cover keeps its leader as long as it is less than 42
  slots behind the current slot, and is forgotten otherwise. If the answer lists the current slot's index
  under a key that parses, the current slot has a leader afterwards and the task goes back to reading slots.
\<close>

theorem schedule_answer_exact:
  assumes "t = cluster_run parse evs (cluster_new es)" and "ct_fetching t" and "\<not> ct_stopped t"
    and "t' = cluster_step parse (ScheduleAnswer (Inr (Some sched))) t"
    and "epoch_schedule_ok es"
  shows "hm_get (cl_leader_schedule (ct_inner t')) s =
      (case scheduled parse (get_first_slot_in_epoch es (get_epoch es (ct_max_slot t))) sched s of
         Some pk \<Rightarrow> Some pk
       | None \<Rightarrow> if ct_max_slot t < s + 42 then hm_get (cl_leader_schedule (ct_inner t)) s else None) \<and>
    \<not> ct_fetching t' \<and>
    ((key, indices) \<in> set sched \<and> parse key = Some pk \<and>
       unat (snd (get_epoch_and_slot_index es (ct_max_slot t))) \<in> set indices \<longrightarrow>
       hm_contains (cl_leader_schedule (ct_inner t')) (cl_latest_seen_slot (ct_inner t')))"
proof -
  let ?start = "get_first_slot_in_epoch es (get_epoch es (ct_max_slot t))"
  have inv: "cluster_inv t" unfolding assms(1) by (intro cluster_run_inv cluster_new_inv)
  have es: "cl_epoch_schedule (ct_inner t) = es"
    unfolding assms(1) by (simp add: cluster_run_epoch cluster_new_def)
  have t': "t' = t\<lparr>ct_inner := install_schedule parse sched (ct_max_slot t) (ct_inner t), ct_fetching := False\<rparr>"
    using assms(2-4) by (simp add: schedule_answer_def)
  have get: "hm_get (cl_leader_schedule (ct_inner t')) s =
      (case scheduled parse ?start sched s of
         Some pk \<Rightarrow> Some pk
       | None \<Rightarrow> if ct_max_slot t < s + 42 then hm_get (cl_leader_schedule (ct_inner t)) s else None)" for s
    using inv unfolding t' cluster_inv_def
    by (auto simp: install_schedule_def Let_def es hm_get_fold_insert_leader hm_get_retain
        leader_schedule_retention_slots_def split: option.split)
  have "cl_latest_seen_slot (ct_inner t') = ct_max_slot t"
    using inv unfolding t' cluster_inv_def by (simp add: install_schedule_def Let_def)
  moreover have "hm_get (cl_leader_schedule (ct_inner t')) (ct_max_slot t) \<noteq> None"
    if "(key, indices) \<in> set sched" "parse key = Some pk"
      "unat (snd (get_epoch_and_slot_index es (ct_max_slot t))) \<in> set indices"
  proof -
    have "?start + of_nat (unat (snd (get_epoch_and_slot_index es (ct_max_slot t)))) = ct_max_slot t"
      using assms(5) by (auto simp: epoch_schedule_ok_def dest: spec [of _ "ct_max_slot t"])
    then show ?thesis using scheduled_listed [of key indices sched parse pk, OF that, of ?start] by (auto simp: get)
  qed
  ultimately show ?thesis using get by (simp add: hm_contains_iff t')
qed

theorem schedule_answer_exact_witness:
  "(let t = cluster_run ex_parse ex_cluster_events (cluster_new ex_epochs)
    in ct_fetching t \<and> \<not> ct_stopped t \<and>
       hm_get (cl_leader_schedule (ct_inner
         (cluster_step ex_parse (ScheduleAnswer (Inr (Some [(''A'', [4, 5]), (''?'', [6]), (''B'', [7])]))) t))) 7
         = Some (Pubkey 2))"
proof -
  let ?t = "cluster_run ex_parse ex_cluster_events (cluster_new ex_epochs)"
  have t: "ct_fetching ?t" "\<not> ct_stopped ?t" "ct_max_slot ?t = 7" by (simp_all add: cluster_eval)
  show ?thesis
    using schedule_answer_exact [OF refl t(1,2) refl ex_epochs_ok, of "[(''A'', [4, 5]), (''?'', [6]), (''B'', [7])]" 7] t
    by (simp add: Let_def scheduled_def ex_parse_def ex_epochs_def)
qed

end
