(* ===== verification/Jet_Rooted.thy ===== *)
theory Jet_Rooted
  imports Jet_Geyser
begin

text \<open>
  \<open>apps/jet/src/rooted_transaction_state.rs\<close> and the receiver around it in
  \<open>apps/jet/src/transactions.rs\<close> (\<open>GrpcRootedTxReceiver\<close>): which transaction was seen in which slot, at
  which commitment level that slot is, and who is to be told.

  State: the three containers of \<open>RootedTransactionsState\<close>. The lemmas: the reverse map only ever
  points into slots that are still kept and that hold the transaction; a metadata update notifies exactly
  the watched transactions of its slot, once each; a finalized update leaves only slots inside the
  retention window; and what the receiver answers about a transaction.

  The locale \<open>rooted_tx_receiver\<close> is the trait \<open>RootedTxReceiver\<close> as its client, the retry scheduler, relies
  on it; it is interpreted on the receiver below.
\<close>

section \<open>State and events\<close>

datatype rooted_tx_event =
    TransactionReceived transaction_received
  | BlockMetaUpdate block_meta_with_commitment

datatype rooted_tx_effect = NotifyWatcher signature commitment_level

record slot_info =
  si_transactions :: "signature list"
  si_blockmeta :: "block_meta_with_commitment option"

definition default_slot_info :: slot_info where
  "default_slot_info = \<lparr>si_transactions = [], si_blockmeta = None\<rparr>"

record rooted_state =
  rs_slots :: "(slot, slot_info) hmap"
  rs_transactions :: "(signature, slot) hmap"
  watched_signatures :: "signature set"

definition rooted_new :: rooted_state where
  "rooted_new = \<lparr>rs_slots = [], rs_transactions = [], watched_signatures = {}\<rparr>"

text \<open>\<open>solana_clock::MAX_RECENT_BLOCKHASHES\<close>; the source's own test pins it to 300.\<close>

definition max_recent_blockhashes :: u64 where
  "max_recent_blockhashes = 300"

definition should_retain_finalized_slot :: "block_height \<Rightarrow> block_height \<Rightarrow> bool" where
  "should_retain_finalized_slot slot_block_height finalized_block_height \<longleftrightarrow>
     slot_block_height + max_recent_blockhashes > finalized_block_height"

section \<open>Operations\<close>

definition slot_entry :: "(slot, slot_info) hmap \<Rightarrow> slot \<Rightarrow> slot_info" where
  "slot_entry m sl = (case hm_get m sl of None \<Rightarrow> default_slot_info | Some i \<Rightarrow> i)"

definition should_retain :: "block_height \<Rightarrow> slot \<Rightarrow> slot_info \<Rightarrow> bool" where
  "should_retain finalized_block_height finalized_slot info =
     (case si_blockmeta info of
        Some bm \<Rightarrow>
          (if bm_commitment bm = Finalized
           then should_retain_finalized_slot (bm_block_height bm) finalized_block_height
           else bm_slot bm > finalized_slot)
      | None \<Rightarrow> True)"

definition cleanup_old_slots :: "block_height \<Rightarrow> slot \<Rightarrow> rooted_state \<Rightarrow> rooted_state" where
  "cleanup_old_slots fh fs s =
     (let removed = concat (map (\<lambda>(_, info). si_transactions info)
                      (filter (\<lambda>(_, info). \<not> should_retain fh fs info) (rs_slots s)))
      in s\<lparr>rs_slots := hm_retain (\<lambda>_ info. should_retain fh fs info) (rs_slots s),
           rs_transactions := fold hm_remove removed (rs_transactions s)\<rparr>)"

fun process_event :: "rooted_state \<Rightarrow> rooted_tx_event \<Rightarrow> rooted_state \<times> rooted_tx_effect list" where
  "process_event s (TransactionReceived tx) =
     (let entry = slot_entry (rs_slots s) (tr_slot tx)
      in if tr_signature tx \<in> set (si_transactions entry)
         then (s\<lparr>rs_slots := hm_insert (tr_slot tx) entry (rs_slots s)\<rparr>, [])
         else (let effects =
                 (case si_blockmeta entry of
                    Some bm \<Rightarrow>
                      (if tr_signature tx \<in> watched_signatures s
                       then [NotifyWatcher (tr_signature tx) (bm_commitment bm)] else [])
                  | None \<Rightarrow> [])
               in (s\<lparr>rs_slots := hm_insert (tr_slot tx)
                       (entry\<lparr>si_transactions := si_transactions entry @ [tr_signature tx]\<rparr>) (rs_slots s),
                     rs_transactions := hm_insert (tr_signature tx) (tr_slot tx) (rs_transactions s)\<rparr>,
                   effects)))"
| "process_event s (BlockMetaUpdate meta) =
     (let entry = (slot_entry (rs_slots s) (bm_slot meta))\<lparr>si_blockmeta := Some meta\<rparr>;
          s1 = s\<lparr>rs_slots := hm_insert (bm_slot meta) entry (rs_slots s)\<rparr>;
          effects = map (\<lambda>sig. NotifyWatcher sig (bm_commitment meta))
                      (filter (\<lambda>sig. sig \<in> watched_signatures s1) (si_transactions entry))
      in (if bm_commitment meta = Finalized
          then cleanup_old_slots (bm_block_height meta) (bm_slot meta) s1 else s1, effects))"

fun process_events :: "rooted_state \<Rightarrow> rooted_tx_event list \<Rightarrow> rooted_state \<times> rooted_tx_effect list" where
  "process_events s [] = (s, [])"
| "process_events s (e # es) =
     (let (s1, eff1) = process_event s e; (s2, eff2) = process_events s1 es in (s2, eff1 @ eff2))"

subsection \<open>The receiver\<close>

definition get_transaction_commitment :: "rooted_state \<Rightarrow> signature \<Rightarrow> commitment_level option" where
  "get_transaction_commitment s sig =
     Option.bind (hm_get (rs_transactions s) sig) (\<lambda>sl.
       Option.bind (hm_get (rs_slots s) sl) (\<lambda>info.
         map_option bm_commitment (si_blockmeta info)))"

definition subscribe_signature :: "signature \<Rightarrow> rooted_state \<Rightarrow> rooted_state" where
  "subscribe_signature sig s = s\<lparr>watched_signatures := insert sig (watched_signatures s)\<rparr>"

definition unsubscribe_signature :: "signature \<Rightarrow> rooted_state \<Rightarrow> rooted_state" where
  "unsubscribe_signature sig s = s\<lparr>watched_signatures := watched_signatures s - {sig}\<rparr>"

fun notification :: "rooted_tx_effect \<Rightarrow> signature \<times> commitment_level" where
  "notification (NotifyWatcher sig c) = (sig, c)"

text \<open>
  \<open>start_loop\<close>: transactions are buffered until the next metadata; then the buffer and the metadata go
  through the state machine, and the notifications go out. \<open>open_updates\<close> says whether the scheduler
  still receives; if not, the first notification ends the loop. The result is the buffer, the state
  and the notifications sent.
\<close>

fun start_loop ::
  "bool \<Rightarrow> grpc_update_message list \<Rightarrow> transaction_received list \<Rightarrow> rooted_state
     \<Rightarrow> transaction_received list \<times> rooted_state \<times> (signature \<times> commitment_level) list" where
  "start_loop open_updates [] bulk s = (bulk, s, [])"
| "start_loop open_updates (GTransaction tx # ms) bulk s = start_loop open_updates ms (bulk @ [tx]) s"
| "start_loop open_updates (GSlot u # ms) bulk s = start_loop open_updates ms bulk s"
| "start_loop open_updates (GBlockMeta bm # ms) bulk s =
     (let (s1, effects) = process_events s (map TransactionReceived bulk @ [BlockMetaUpdate bm])
      in if open_updates
         then (let (bulk', s', sent) = start_loop open_updates ms [] s1
               in (bulk', s', map notification effects @ sent))
         else if effects = [] then start_loop open_updates ms [] s1
         else ([], s1, []))"

section \<open>The invariant\<close>

definition rooted_inv :: "rooted_state \<Rightarrow> bool" where
  "rooted_inv s \<longleftrightarrow>
     hm_wf (rs_slots s) \<and>
     (\<forall>sl info. hm_get (rs_slots s) sl = Some info \<longrightarrow>
        distinct (si_transactions info) \<and>
        (\<forall>bm. si_blockmeta info = Some bm \<longrightarrow> bm_slot bm = sl)) \<and>
     (\<forall>sig sl. hm_get (rs_transactions s) sig = Some sl \<longrightarrow>
        (\<exists>info. hm_get (rs_slots s) sl = Some info \<and> sig \<in> set (si_transactions info)))"

lemma rooted_invI:
  assumes "hm_wf (rs_slots s)"
    and "\<And>sl info. hm_get (rs_slots s) sl = Some info \<Longrightarrow> distinct (si_transactions info)"
    and "\<And>sl info bm. hm_get (rs_slots s) sl = Some info \<Longrightarrow> si_blockmeta info = Some bm \<Longrightarrow> bm_slot bm = sl"
    and "\<And>sig sl. hm_get (rs_transactions s) sig = Some sl \<Longrightarrow>
        \<exists>info. hm_get (rs_slots s) sl = Some info \<and> sig \<in> set (si_transactions info)"
  shows "rooted_inv s"
  using assms by (auto simp: rooted_inv_def)

lemma rooted_invD:
  assumes "rooted_inv s"
  shows "hm_wf (rs_slots s)"
    and "hm_get (rs_slots s) sl = Some info \<Longrightarrow> distinct (si_transactions info)"
    and "hm_get (rs_slots s) sl = Some info \<Longrightarrow> si_blockmeta info = Some bm \<Longrightarrow> bm_slot bm = sl"
    and "hm_get (rs_transactions s) sig = Some sl \<Longrightarrow>
        \<exists>info. hm_get (rs_slots s) sl = Some info \<and> sig \<in> set (si_transactions info)"
  using assms by (auto simp: rooted_inv_def)

lemma rooted_inv_new [simp]: "rooted_inv rooted_new"
  by (simp add: rooted_inv_def rooted_new_def)

lemma slot_entry_inv:
  assumes "rooted_inv s"
  shows "distinct (si_transactions (slot_entry (rs_slots s) sl))"
    and "si_blockmeta (slot_entry (rs_slots s) sl) = Some bm \<Longrightarrow> bm_slot bm = sl"
  using rooted_invD [OF assms]
  by (auto simp: slot_entry_def default_slot_info_def split: option.splits)

lemma cleanup_slots:
  "rooted_inv s \<Longrightarrow> hm_get (rs_slots (cleanup_old_slots fh fs s)) sl =
     (case hm_get (rs_slots s) sl of None \<Rightarrow> None
      | Some info \<Rightarrow> if should_retain fh fs info then Some info else None)"
  by (simp add: cleanup_old_slots_def Let_def hm_get_retain rooted_invD(1))

lemma cleanup_transactions:
  "rooted_inv s \<Longrightarrow> hm_get (rs_transactions (cleanup_old_slots fh fs s)) sig =
     (if \<exists>sl info. hm_get (rs_slots s) sl = Some info \<and> \<not> should_retain fh fs info \<and>
           sig \<in> set (si_transactions info)
      then None else hm_get (rs_transactions s) sig)"
proof -
  assume inv: "rooted_inv s"
  have "sig \<in> set (concat (map (\<lambda>(_, info). si_transactions info)
          (filter (\<lambda>(_, info). \<not> should_retain fh fs info) (rs_slots s)))) \<longleftrightarrow>
        (\<exists>sl info. hm_get (rs_slots s) sl = Some info \<and> \<not> should_retain fh fs info \<and>
           sig \<in> set (si_transactions info))"
    using rooted_invD(1) [OF inv] by (fastforce simp flip: hm_get_in_set)
  then show ?thesis by (simp add: cleanup_old_slots_def Let_def hm_get_fold_remove)
qed

lemma cleanup_inv [inv_intros]:
  assumes "rooted_inv s"
  shows "rooted_inv (cleanup_old_slots fh fs s)"
proof (rule rooted_invI)
  show "hm_wf (rs_slots (cleanup_old_slots fh fs s))"
    using rooted_invD(1) [OF assms] by (simp add: cleanup_old_slots_def Let_def)
next
  fix sl info assume "hm_get (rs_slots (cleanup_old_slots fh fs s)) sl = Some info"
  then have old: "hm_get (rs_slots s) sl = Some info"
    by (auto simp: cleanup_slots [OF assms] split: option.splits if_splits)
  show "distinct (si_transactions info)" by (rule rooted_invD(2) [OF assms old])
  show "bm_slot bm = sl" if "si_blockmeta info = Some bm" for bm
    by (rule rooted_invD(3) [OF assms old that])
next
  fix sig sl assume "hm_get (rs_transactions (cleanup_old_slots fh fs s)) sig = Some sl"
  then have old: "hm_get (rs_transactions s) sig = Some sl"
    and kept: "\<And>sl info. hm_get (rs_slots s) sl = Some info \<Longrightarrow> sig \<in> set (si_transactions info) \<Longrightarrow>
       should_retain fh fs info"
    by (auto simp: cleanup_transactions [OF assms] split: if_splits)
  obtain info where "hm_get (rs_slots s) sl = Some info" "sig \<in> set (si_transactions info)"
    using rooted_invD(4) [OF assms old] by blast
  then show "\<exists>info. hm_get (rs_slots (cleanup_old_slots fh fs s)) sl = Some info \<and>
      sig \<in> set (si_transactions info)"
    using kept by (simp add: cleanup_slots [OF assms])
qed

lemma insert_slot_inv:
  assumes "rooted_inv s"
    and "distinct (si_transactions entry)"
    and "\<And>bm. si_blockmeta entry = Some bm \<Longrightarrow> bm_slot bm = sl"
    and "set (si_transactions (slot_entry (rs_slots s) sl)) \<subseteq> set (si_transactions entry)"
  shows "rooted_inv (s\<lparr>rs_slots := hm_insert sl entry (rs_slots s)\<rparr>)"
proof (rule rooted_invI)
  fix sig sl'
  assume "hm_get (rs_transactions (s\<lparr>rs_slots := hm_insert sl entry (rs_slots s)\<rparr>)) sig = Some sl'"
  then obtain info where info: "hm_get (rs_slots s) sl' = Some info" "sig \<in> set (si_transactions info)"
    using rooted_invD(4) [OF assms(1)] by auto
  then show "\<exists>info. hm_get (rs_slots (s\<lparr>rs_slots := hm_insert sl entry (rs_slots s)\<rparr>)) sl' = Some info \<and>
      sig \<in> set (si_transactions info)"
    using assms(4) by (auto simp: slot_entry_def)
qed (use assms rooted_invD [OF assms(1)] in \<open>auto split: if_splits\<close>)

lemma process_event_inv [inv_intros]:
  assumes "rooted_inv s"
  shows "rooted_inv (fst (process_event s e))"
proof (cases e)
  case (TransactionReceived tx)
  let ?entry = "slot_entry (rs_slots s) (tr_slot tx)"
  let ?new = "?entry\<lparr>si_transactions := si_transactions ?entry @ [tr_signature tx]\<rparr>"
  note entry = slot_entry_inv [OF assms, of "tr_slot tx"]
  have same: "rooted_inv (s\<lparr>rs_slots := hm_insert (tr_slot tx) ?entry (rs_slots s)\<rparr>)"
    using entry by (intro insert_slot_inv [OF assms]) auto
  show ?thesis
  proof (cases "tr_signature tx \<in> set (si_transactions ?entry)")
    case True
    then show ?thesis using TransactionReceived same by simp
  next
    case False
    then have "rooted_inv (s\<lparr>rs_slots := hm_insert (tr_slot tx) ?new (rs_slots s)\<rparr>)"
      using entry by (intro insert_slot_inv [OF assms]) auto
    then have "rooted_inv (s\<lparr>rs_slots := hm_insert (tr_slot tx) ?new (rs_slots s),
        rs_transactions := hm_insert (tr_signature tx) (tr_slot tx) (rs_transactions s)\<rparr>)"
      by (auto simp: rooted_inv_def)
    then show ?thesis using TransactionReceived False by (simp add: Let_def)
  qed
next
  case (BlockMetaUpdate meta)
  let ?entry = "(slot_entry (rs_slots s) (bm_slot meta))\<lparr>si_blockmeta := Some meta\<rparr>"
  have "rooted_inv (s\<lparr>rs_slots := hm_insert (bm_slot meta) ?entry (rs_slots s)\<rparr>)"
    using slot_entry_inv [OF assms, of "bm_slot meta"] by (intro insert_slot_inv [OF assms]) auto
  then show ?thesis using BlockMetaUpdate cleanup_inv by (simp add: Let_def)
qed

lemma process_events_inv [inv_intros]:
  "rooted_inv s \<Longrightarrow> rooted_inv (fst (process_events s es))"
  by (induction es arbitrary: s) (simp_all add: Let_def case_prod_beta process_event_inv)

section \<open>What the state machine guarantees\<close>

text \<open>
  In every state the machine can reach, a transaction's recorded slot is a slot that is still kept, that
  slot holds the transaction, and its metadata, if any, is that slot's: clean-up never leaves a dangling
  entry in the reverse map.
\<close>

theorem rooted_reverse_map_sound:
  assumes "process_events rooted_new es = (s', effects)"
    and "hm_get (rs_transactions s') sig = Some sl"
  shows "\<exists>info. hm_get (rs_slots s') sl = Some info \<and> sig \<in> set (si_transactions info) \<and>
           (\<forall>bm. si_blockmeta info = Some bm \<longrightarrow> bm_slot bm = sl)"
proof -
  have "rooted_inv s'"
    using process_events_inv [OF rooted_inv_new, of es] assms(1) by simp
  then show ?thesis using assms(2) by (blast dest: rooted_invD)
qed

text \<open>
  A metadata update notifies exactly the watched transactions recorded for its slot, each once, with
  the update's commitment level.
\<close>

theorem blockmeta_notifies_exactly:
  assumes "rooted_inv s" and "process_event s (BlockMetaUpdate meta) = (s', effects)"
  shows "distinct effects \<and>
    set effects = {NotifyWatcher sig (bm_commitment meta) | sig. sig \<in> watched_signatures s \<and>
      (\<exists>info. hm_get (rs_slots s) (bm_slot meta) = Some info \<and> sig \<in> set (si_transactions info))}"
proof -
  let ?txs = "si_transactions (slot_entry (rs_slots s) (bm_slot meta))"
  have eff: "effects = map (\<lambda>sig. NotifyWatcher sig (bm_commitment meta))
      (filter (\<lambda>sig. sig \<in> watched_signatures s) ?txs)"
    using assms(2) by (simp add: Let_def)
  have "distinct ?txs" by (rule slot_entry_inv(1) [OF assms(1)])
  then have "distinct effects" by (simp add: eff distinct_map inj_on_def)
  moreover have "sig \<in> set ?txs \<longleftrightarrow>
      (\<exists>info. hm_get (rs_slots s) (bm_slot meta) = Some info \<and> sig \<in> set (si_transactions info))" for sig
    by (simp add: slot_entry_def default_slot_info_def split: option.splits)
  ultimately show ?thesis by (auto simp: eff)
qed

lemma retain_own_height:
  "unat h + 300 < 2 ^ 64 \<Longrightarrow> should_retain_finalized_slot h h"
  by (simp add: should_retain_finalized_slot_def max_recent_blockhashes_def u64_less_add_iff)

lemma should_retain_self:
  "unat (bm_block_height meta) + 300 < 2 ^ 64 \<Longrightarrow> bm_commitment meta = Finalized \<Longrightarrow>
   si_blockmeta info = Some meta \<Longrightarrow> should_retain (bm_block_height meta) (bm_slot meta) info"
  by (simp add: should_retain_def retain_own_height)

lemma blockmeta_kept:
  assumes "rooted_inv s" and "unat (bm_block_height meta) + 300 < 2 ^ 64"
  shows "hm_get (rs_slots (fst (process_event s (BlockMetaUpdate meta)))) (bm_slot meta) =
    Some ((slot_entry (rs_slots s) (bm_slot meta))\<lparr>si_blockmeta := Some meta\<rparr>)"
proof -
  let ?entry = "(slot_entry (rs_slots s) (bm_slot meta))\<lparr>si_blockmeta := Some meta\<rparr>"
  let ?s1 = "s\<lparr>rs_slots := hm_insert (bm_slot meta) ?entry (rs_slots s)\<rparr>"
  have "rooted_inv ?s1"
    using slot_entry_inv [OF assms(1), of "bm_slot meta"] by (intro insert_slot_inv [OF assms(1)]) auto
  moreover have "bm_commitment meta = Finalized \<Longrightarrow> should_retain (bm_block_height meta) (bm_slot meta) ?entry"
    by (rule should_retain_self [OF assms(2)]) simp_all
  ultimately show ?thesis by (simp add: Let_def cleanup_slots)
qed

text \<open>
  A watched transaction is announced at its slot's commitment level whichever comes first, the
  transaction or the slot's metadata.
\<close>

theorem notification_order_independent:
  assumes "rooted_inv s" and "tr_signature tx \<in> watched_signatures s" and "bm_slot meta = tr_slot tx"
    and "tr_signature tx \<notin> set (si_transactions (slot_entry (rs_slots s) (tr_slot tx)))"
    and "unat (bm_block_height meta) + 300 < 2 ^ 64"
    and "msgs \<in> {[TransactionReceived tx, BlockMetaUpdate meta], [BlockMetaUpdate meta, TransactionReceived tx]}"
  shows "NotifyWatcher (tr_signature tx) (bm_commitment meta) \<in> set (snd (process_events s msgs))"
proof (cases "msgs = [TransactionReceived tx, BlockMetaUpdate meta]")
  case True
  then show ?thesis using assms(2-4) by (simp add: Let_def case_prod_beta slot_entry_def)
next
  case False
  let ?s1 = "fst (process_event s (BlockMetaUpdate meta))"
  have "watched_signatures ?s1 = watched_signatures s"
    by (simp add: Let_def cleanup_old_slots_def)
  moreover have "slot_entry (rs_slots ?s1) (tr_slot tx) =
      (slot_entry (rs_slots s) (tr_slot tx))\<lparr>si_blockmeta := Some meta\<rparr>"
    using blockmeta_kept [OF assms(1,5)] assms(3)
    by (simp add: slot_entry_def [of "rs_slots ?s1"] del: process_event.simps)
  ultimately have "NotifyWatcher (tr_signature tx) (bm_commitment meta) \<in>
      set (snd (process_event ?s1 (TransactionReceived tx)))"
    using assms(2,4) by (simp add: Let_def del: process_event.simps(2))
  then show ?thesis
    using False assms(6) by (simp add: case_prod_beta Let_def del: process_event.simps)
qed


subsection \<open>Instances\<close>

text \<open>A transaction seen in slot 5, then the finalized metadata of that slot.\<close>

abbreviation ex_tx :: transaction_received where
  "ex_tx \<equiv> \<lparr>tr_slot = 5, tr_signature = Signature 1\<rparr>"

abbreviation ex_meta :: "slot \<Rightarrow> block_height \<Rightarrow> commitment_level \<Rightarrow> block_meta_with_commitment" where
  "ex_meta sl h c \<equiv> \<lparr>bm_slot = sl, bm_block_height = h, bm_block_hash = Hash 0, bm_commitment = c\<rparr>"

abbreviation ex_watched :: rooted_state where
  "ex_watched \<equiv> \<lparr>rs_slots = [], rs_transactions = [], watched_signatures = {Signature 1}\<rparr>"

lemmas rooted_eval = Let_def slot_entry_def default_slot_info_def cleanup_old_slots_def
  should_retain_def should_retain_finalized_slot_def max_recent_blockhashes_def hm_retain_def rooted_new_def

theorem rooted_reverse_map_sound_witness:
  "\<exists>info. hm_get (rs_slots (fst (process_events rooted_new
       [TransactionReceived ex_tx, BlockMetaUpdate (ex_meta 5 50 Finalized)]))) 5 = Some info \<and>
     Signature 1 \<in> set (si_transactions info) \<and> (\<forall>bm. si_blockmeta info = Some bm \<longrightarrow> bm_slot bm = 5)"
proof -
  let ?es = "[TransactionReceived ex_tx, BlockMetaUpdate (ex_meta 5 50 Finalized)]"
  obtain s' effects where run: "process_events rooted_new ?es = (s', effects)" by fastforce
  then have "hm_get (rs_transactions s') (Signature 1) = Some 5" by (auto simp: rooted_eval)
  then show ?thesis unfolding run fst_conv by (rule rooted_reverse_map_sound [OF run])
qed

theorem blockmeta_notifies_exactly_witness:
  "let s = fst (process_event ex_watched (TransactionReceived ex_tx));
       effects = snd (process_event s (BlockMetaUpdate (ex_meta 5 50 Confirmed)))
   in set effects = {NotifyWatcher sig Confirmed | sig. sig \<in> watched_signatures s \<and>
      (\<exists>info. hm_get (rs_slots s) 5 = Some info \<and> sig \<in> set (si_transactions info))} \<and>
      NotifyWatcher (Signature 1) Confirmed \<in> set effects"
proof -
  let ?s = "fst (process_event ex_watched (TransactionReceived ex_tx))"
  obtain s' effects where run: "process_event ?s (BlockMetaUpdate (ex_meta 5 50 Confirmed)) = (s', effects)"
    by fastforce
  have inv: "rooted_inv ?s" by (rule process_event_inv) (simp add: rooted_inv_def)
  have "NotifyWatcher (Signature 1) Confirmed \<in> set effects" using run by (auto simp: rooted_eval)
  then show ?thesis
    using blockmeta_notifies_exactly [OF inv run] unfolding run Let_def snd_conv by simp
qed

theorem notification_order_independent_witness:
  "NotifyWatcher (Signature 1) Confirmed \<in>
     set (snd (process_events ex_watched [BlockMetaUpdate (ex_meta 5 50 Confirmed), TransactionReceived ex_tx]))"
  using notification_order_independent [of ex_watched ex_tx "ex_meta 5 50 Confirmed"
      "[BlockMetaUpdate (ex_meta 5 50 Confirmed), TransactionReceived ex_tx]"]
  by (simp add: rooted_inv_def slot_entry_def default_slot_info_def)


section \<open>Transactions seen in more than one slot\<close>

text \<open>
  When no transaction is seen in two slots, the reverse map is complete: clean-up forgets a
  transaction only together with its slot.
\<close>

definition rooted_complete :: "rooted_state \<Rightarrow> bool" where
  "rooted_complete s \<longleftrightarrow>
     (\<forall>sl info sig. hm_get (rs_slots s) sl = Some info \<longrightarrow> sig \<in> set (si_transactions info) \<longrightarrow>
        hm_get (rs_transactions s) sig = Some sl)"

lemma cleanup_complete [inv_intros]:
  assumes "rooted_inv s" "rooted_complete s"
  shows "rooted_complete (cleanup_old_slots fh fs s)"
  unfolding rooted_complete_def
proof (intro allI impI)
  fix sl info sig
  assume look: "hm_get (rs_slots (cleanup_old_slots fh fs s)) sl = Some info"
    and sig: "sig \<in> set (si_transactions info)"
  have old: "hm_get (rs_slots s) sl = Some info" "should_retain fh fs info"
    using look by (auto simp: cleanup_slots [OF assms(1)] split: option.splits if_splits)
  have one: "sl' = sl" if "hm_get (rs_slots s) sl' = Some info'" "sig \<in> set (si_transactions info')" for sl' info'
    using assms(2) old(1) sig that unfolding rooted_complete_def by (metis option.inject)
  have "hm_get (rs_transactions s) sig = Some sl"
    using assms(2) old(1) sig unfolding rooted_complete_def by blast
  then show "hm_get (rs_transactions (cleanup_old_slots fh fs s)) sig = Some sl"
    using one old by (auto simp: cleanup_transactions [OF assms(1)])
qed

lemma receive_complete:
  assumes "rooted_complete s"
    and "\<And>sl. hm_get (rs_transactions s) (tr_signature tx) = Some sl \<Longrightarrow> sl = tr_slot tx"
  shows "rooted_complete (fst (process_event s (TransactionReceived tx)))"
proof -
  let ?entry = "slot_entry (rs_slots s) (tr_slot tx)"
  have entry: "hm_get (rs_transactions s) sig = Some (tr_slot tx)" if "sig \<in> set (si_transactions ?entry)" for sig
    using that assms(1)
    by (auto simp: rooted_complete_def slot_entry_def default_slot_info_def split: option.splits)
  have other: "hm_get (rs_transactions s) sig = Some sl"
    if "hm_get (rs_slots s) sl = Some info" "sig \<in> set (si_transactions info)" for sl info sig
    using that assms(1) unfolding rooted_complete_def by blast
  have fresh: "sig \<noteq> tr_signature tx"
    if "hm_get (rs_slots s) sl = Some info" "sig \<in> set (si_transactions info)" "sl \<noteq> tr_slot tx" for sl info sig
    using assms(2) other [OF that(1,2)] that(3) by blast
  show ?thesis
    unfolding rooted_complete_def
    using entry other fresh by (auto simp: Let_def split: if_splits)
qed

lemma insert_meta_complete:
  "rooted_complete s \<Longrightarrow>
   rooted_complete (s\<lparr>rs_slots := hm_insert sl ((slot_entry (rs_slots s) sl)\<lparr>si_blockmeta := x\<rparr>) (rs_slots s)\<rparr>)"
  by (auto simp: rooted_complete_def slot_entry_def default_slot_info_def split: option.splits)

text \<open>
  As long as each transaction is reported in one slot only, the state machine can always tell the slot of
  every transaction it keeps, so \<open>get_transaction_commitment\<close> answers with that slot's level.
\<close>

theorem commitment_known_without_forks:
  assumes "rooted_inv s" and "rooted_complete s"
    and "\<And>tx sl. e = TransactionReceived tx \<Longrightarrow>
           hm_get (rs_transactions s) (tr_signature tx) = Some sl \<Longrightarrow> sl = tr_slot tx"
    and "process_event s e = (s', effects)"
    and "hm_get (rs_slots s') sl = Some info" and "sig \<in> set (si_transactions info)"
  shows "rooted_complete s' \<and>
    get_transaction_commitment s' sig = map_option bm_commitment (si_blockmeta info)"
proof -
  have "rooted_complete s'"
  proof (cases e)
    case (TransactionReceived tx)
    have "rooted_complete (fst (process_event s (TransactionReceived tx)))"
      by (rule receive_complete [OF assms(2) assms(3) [OF TransactionReceived]])
    then show ?thesis using TransactionReceived assms(4) by simp
  next
    case (BlockMetaUpdate meta)
    let ?entry = "(slot_entry (rs_slots s) (bm_slot meta))\<lparr>si_blockmeta := Some meta\<rparr>"
    let ?s1 = "s\<lparr>rs_slots := hm_insert (bm_slot meta) ?entry (rs_slots s)\<rparr>"
    have "rooted_inv ?s1"
      using slot_entry_inv [OF assms(1), of "bm_slot meta"] by (intro insert_slot_inv [OF assms(1)]) auto
    moreover have "rooted_complete ?s1" by (rule insert_meta_complete [OF assms(2)])
    ultimately show ?thesis
      using BlockMetaUpdate assms(4) cleanup_complete by (auto simp: Let_def split: if_splits)
  qed
  then show ?thesis
    using assms(5,6) by (auto simp: rooted_complete_def get_transaction_commitment_def)
qed

theorem commitment_known_without_forks_witness:
  "get_transaction_commitment (fst (process_event
      (fst (process_event rooted_new (TransactionReceived ex_tx)))
      (BlockMetaUpdate (ex_meta 5 50 Finalized)))) (Signature 1) = Some Finalized"
proof -
  let ?s = "fst (process_event rooted_new (TransactionReceived ex_tx))"
  obtain s' effects where
    run: "process_event ?s (BlockMetaUpdate (ex_meta 5 50 Finalized)) = (s', effects)" by fastforce
  have look: "hm_get (rs_slots s') 5 =
      Some \<lparr>si_transactions = [Signature 1], si_blockmeta = Some (ex_meta 5 50 Finalized)\<rparr>"
    using run by (auto simp: rooted_eval)
  have inv: "rooted_inv ?s" by (rule process_event_inv [OF rooted_inv_new])
  have comp: "rooted_complete ?s" by (simp add: rooted_complete_def rooted_eval)
  show ?thesis
    using commitment_known_without_forks [OF inv comp _ run look, of "Signature 1"] unfolding run by simp
qed

text \<open>
  With forks the reverse map forgets transactions that are kept: a transaction reported in slot 1 (later
  skipped) and in slot 2 is finalized in slot 2, slot 2 is kept and lists it, but clean-up of slot 1 has
  deleted its entry, so \<open>get_transaction_commitment\<close> answers that it is unknown.
\<close>

theorem fork_forgets_landed_transaction:
  "let tx1 = \<lparr>tr_slot = 1, tr_signature = Signature 1\<rparr>; tx2 = \<lparr>tr_slot = 2, tr_signature = Signature 1\<rparr>;
       s' = fst (process_events rooted_new
              [TransactionReceived tx1, BlockMetaUpdate (ex_meta 1 10 Processed),
               TransactionReceived tx2, BlockMetaUpdate (ex_meta 2 11 Finalized)])
   in (case hm_get (rs_slots s') 2 of
         None \<Rightarrow> False
       | Some info \<Rightarrow> Signature 1 \<in> set (si_transactions info) \<and>
           map_option bm_commitment (si_blockmeta info) = Some Finalized) \<and>
      get_transaction_commitment s' (Signature 1) = None"
  by code_simp

section \<open>The receiver as the scheduler sees it\<close>

text \<open>
  The trait \<open>RootedTxReceiver\<close>: subscribing and unsubscribing change what is watched and nothing of the
  answers about commitment levels.
\<close>

locale rooted_tx_receiver =
  fixes subscribe :: "signature \<Rightarrow> 'r \<Rightarrow> 'r"
    and unsubscribe :: "signature \<Rightarrow> 'r \<Rightarrow> 'r"
    and commitment :: "'r \<Rightarrow> signature \<Rightarrow> commitment_level option"
    and watching :: "'r \<Rightarrow> signature set"
  assumes watching_subscribe: "watching (subscribe sig r) = insert sig (watching r)"
    and watching_unsubscribe: "watching (unsubscribe sig r) = watching r - {sig}"
    and commitment_subscribe: "commitment (subscribe sig r) = commitment r"
    and commitment_unsubscribe: "commitment (unsubscribe sig r) = commitment r"
begin

lemma watching_fold_unsubscribe: "watching (fold unsubscribe sigs r) = watching r - set sigs"
  by (induction sigs arbitrary: r) (auto simp: watching_unsubscribe)

lemma commitment_fold_unsubscribe: "commitment (fold unsubscribe sigs r) = commitment r"
  by (induction sigs arbitrary: r) (simp_all add: commitment_unsubscribe)

end

interpretation grpc_receiver: rooted_tx_receiver
  subscribe_signature unsubscribe_signature get_transaction_commitment watched_signatures
  by unfold_locales
     (simp_all add: subscribe_signature_def unsubscribe_signature_def get_transaction_commitment_def fun_eq_iff)

end
