(* ===== verification/Jet_Blockhash.thy ===== *)
theory Jet_Blockhash
  imports Jet_Rooted
begin

text \<open>
  \<open>apps/jet/src/blockhash_queue.rs\<close>: the table from block hash to block metadata fed by the metadata
  broadcast, and the trait \<open>BlockHeightService\<close> the two schedulers query. State: the hash map. The lemmas:
  a stored block is found again, the latest height is the maximum over its commitment level, a
  finalized block evicts exactly what the rooted-transaction machine evicts.

  The locale \<open>block_height_service\<close> is the trait; it is interpreted on the queue.
\<close>

type_synonym blockmeta_map = "(hash, block_meta_with_commitment) hmap"

definition bq_retain :: "block_meta_with_commitment \<Rightarrow> block_meta_with_commitment \<Rightarrow> bool" where
  "bq_retain block_meta entry =
     (if bm_commitment entry = Finalized
      then bm_block_height entry + max_recent_blockhashes > bm_block_height block_meta
      else bm_slot entry > bm_slot block_meta)"

definition bq_update :: "block_meta_with_commitment \<Rightarrow> blockmeta_map \<Rightarrow> blockmeta_map" where
  "bq_update block_meta m =
     (let m1 = hm_insert (bm_block_hash block_meta) block_meta m
      in if bm_commitment block_meta = Finalized
         then hm_retain (\<lambda>_ entry. bq_retain block_meta entry) m1
         else m1)"

text \<open>The loop of \<open>subscribe\<close>; the result is \<open>None\<close> while it waits.\<close>

datatype bq_event = BqMeta block_meta_with_commitment | BqLagged nat | BqClosed | BqShutdown

datatype bq_error = StreamLagged nat

fun bq_subscribe :: "bq_event list \<Rightarrow> blockmeta_map \<Rightarrow> blockmeta_map \<times> (bq_error + unit) option" where
  "bq_subscribe [] m = (m, None)"
| "bq_subscribe (BqShutdown # es) m = (m, Some (Inr ()))"
| "bq_subscribe (BqClosed # es) m = (m, Some (Inr ()))"
| "bq_subscribe (BqLagged skipped # es) m = (m, Some (Inl (StreamLagged skipped)))"
| "bq_subscribe (BqMeta bm # es) m = bq_subscribe es (bq_update bm m)"

definition get_block_height :: "blockmeta_map \<Rightarrow> hash \<Rightarrow> block_height option" where
  "get_block_height m h = map_option bm_block_height (hm_get m h)"

text \<open>\<open>Iterator::max\<close>.\<close>

fun iter_max :: "'a::linorder list \<Rightarrow> 'a option" where
  "iter_max [] = None"
| "iter_max (x # xs) = Some (fold max xs x)"

definition get_block_height_latest :: "blockmeta_map \<Rightarrow> commitment_level \<Rightarrow> block_height option" where
  "get_block_height_latest m c =
     iter_max (map bm_block_height (filter (\<lambda>bm. bm_commitment bm = c) (hm_values m)))"

section \<open>Lookups\<close>

lemma fold_max_Max: "fold max xs x = Max (insert x (set xs))"
  by (simp add: Max.set_eq_fold [symmetric])

lemma iter_max_eq_Some: "iter_max xs = Some y \<longleftrightarrow> y \<in> set xs \<and> (\<forall>x \<in> set xs. x \<le> y)"
proof (cases xs)
  case (Cons x xs')
  have "Max (set xs) = y \<longleftrightarrow> y \<in> set xs \<and> (\<forall>x \<in> set xs. x \<le> y)"
    using Cons Max_eq_iff [of "set xs" y] by auto
  then show ?thesis using Cons by (simp add: fold_max_Max)
qed simp

lemma iter_max_eq_None [simp]: "iter_max xs = None \<longleftrightarrow> xs = []"
  by (cases xs) simp_all

lemma bq_update_wf [inv_intros]: "hm_wf m \<Longrightarrow> hm_wf (bq_update bm m)"
  by (simp add: bq_update_def Let_def)

lemma bq_subscribe_wf: "hm_wf m \<Longrightarrow> hm_wf (fst (bq_subscribe es m))"
  by (induction es m rule: bq_subscribe.induct) (simp_all add: bq_update_wf)

lemma bq_get_update:
  assumes "hm_wf m"
  shows "hm_get (bq_update bm m) h =
    (case (if h = bm_block_hash bm then Some bm else hm_get m h) of
       None \<Rightarrow> None
     | Some e \<Rightarrow> if bm_commitment bm = Finalized \<and> \<not> bq_retain bm e then None else Some e)"
  using assms by (simp add: bq_update_def Let_def hm_get_retain split: option.splits)

text \<open>Both consumers of block metadata use the same retention window.\<close>

lemma bq_retain_rooted:
  "bq_retain meta entry \<longleftrightarrow>
   should_retain (bm_block_height meta) (bm_slot meta) \<lparr>si_transactions = txs, si_blockmeta = Some entry\<rparr>"
  by (simp add: bq_retain_def should_retain_def should_retain_finalized_slot_def)

text \<open>
  The latest height at a commitment level is the greatest height among the stored blocks of that level,
  and is absent exactly when there is no such block.
\<close>

theorem latest_height_is_maximum:
  "(get_block_height_latest m c = Some h \<longleftrightarrow>
      (\<exists>bm \<in> set (hm_values m). bm_commitment bm = c \<and> bm_block_height bm = h) \<and>
      \<not> (\<exists>bm \<in> set (hm_values m). bm_commitment bm = c \<and> h < bm_block_height bm)) \<and>
   (get_block_height_latest m c = None \<longleftrightarrow> \<not> (\<exists>bm \<in> set (hm_values m). bm_commitment bm = c))"
  by (auto simp: get_block_height_latest_def iter_max_eq_Some filter_empty_conv not_less
           simp del: iter_max.simps)

text \<open>
  After a block has been recorded its hash resolves to its height (a finalized block never evicts
  itself unless its height is within 300 of the 64-bit limit), and after a finalized block every entry left
  is inside the retention window.
\<close>

theorem blockhash_queue_update:
  assumes "hm_wf m" and "unat (bm_block_height bm) + 300 < 2 ^ 64"
  shows "get_block_height (bq_update bm m) (bm_block_hash bm) = Some (bm_block_height bm) \<and>
    (bm_commitment bm = Finalized \<longrightarrow>
       (\<forall>h e. hm_get (bq_update bm m) h = Some e \<longrightarrow>
          (if bm_commitment e = Finalized then bm_block_height e + 300 > bm_block_height bm
           else bm_slot e > bm_slot bm)))"
proof -
  have "bm_commitment bm = Finalized \<Longrightarrow> bq_retain bm bm"
    using retain_own_height [OF assms(2)] by (simp add: bq_retain_def should_retain_finalized_slot_def)
  then show ?thesis
    by (auto simp: get_block_height_def bq_get_update [OF assms(1)] bq_retain_def max_recent_blockhashes_def
             split: option.splits if_splits)
qed

theorem blockhash_queue_update_witness:
  "get_block_height (bq_update \<lparr>bm_slot = 9, bm_block_height = 8, bm_block_hash = Hash 7, bm_commitment = Finalized\<rparr> [])
     (Hash 7) = Some 8"
  using blockhash_queue_update
    [of "[]" "\<lparr>bm_slot = 9, bm_block_height = 8, bm_block_hash = Hash 7, bm_commitment = Finalized\<rparr>"]
  by simp

section \<open>The block height service\<close>

text \<open>
  The trait \<open>BlockHeightService\<close>, with the law its clients rely on: a known block is at most as high as the
  latest known block of some commitment level.
\<close>

locale block_height_service =
  fixes block_height_of :: "'s \<Rightarrow> hash \<Rightarrow> block_height option"
    and latest_height :: "'s \<Rightarrow> commitment_level \<Rightarrow> block_height option"
    and service_inv :: "'s \<Rightarrow> bool"
  assumes known_below_latest:
    "service_inv s \<Longrightarrow> block_height_of s h = Some x \<Longrightarrow> \<exists>c y. latest_height s c = Some y \<and> x \<le> y"
begin

text \<open>With no block at any level, no hash is known.\<close>

lemma nothing_known:
  assumes "service_inv s" and "\<forall>c. latest_height s c = None"
  shows "block_height_of s h = None"
  using known_below_latest [OF assms(1)] assms(2) by (cases "block_height_of s h") auto

end

interpretation blockhash_queue: block_height_service
  get_block_height get_block_height_latest "\<lambda>m. hm_wf m"
proof unfold_locales
  fix m :: blockmeta_map and h x
  assume wf: "hm_wf m" and "get_block_height m h = Some x"
  then obtain bm where bm: "hm_get m h = Some bm" "x = bm_block_height bm"
    by (auto simp: get_block_height_def)
  let ?c = "bm_commitment bm"
  have "bm \<in> set (hm_values m)" using bm(1) by (force dest: map_of_SomeD)
  then have "bm_block_height bm \<in> set (map bm_block_height (filter (\<lambda>b. bm_commitment b = ?c) (hm_values m)))"
    by auto
  then obtain y where "get_block_height_latest m ?c = Some y" "bm_block_height bm \<le> y"
    unfolding get_block_height_latest_def
    by (metis iter_max_eq_Some iter_max_eq_None list.set_cases not_None_eq empty_iff list.set(1))
  then show "\<exists>c y. get_block_height_latest m c = Some y \<and> x \<le> y" using bm by blast
qed

end
