(* ===== verification/Jet_Scheduler.thy ===== *)
theory Jet_Scheduler
  imports Jet_Blockhash
begin

text \<open>
  \<open>apps/jet/src/transactions.rs\<close>, the two schedulers: \<open>TransactionRetrySchedulerRuntime\<close>, which sends a
  transaction at once and resends it until it lands, runs out of attempts or grows too old, and
  \<open>TransactionNoRetryScheduler\<close>, which forwards or drops.

  State: the record \<open>sched\<close> has the fields of the runtime; the receiver of landed transactions is its
  field \<open>rooted\<close> of any type \<open>'r\<close>, its trait methods are arguments of the operations that call them.
  The answers of the block height service at the moment of a call are the record \<open>heights\<close>. What was
  sent to the fanout and to the dead letter queue is logged in \<open>response_sink\<close> and \<open>dlq_out\<close>.

  The lemmas, most of them proved inside the locale of the receiver: the resend loop terminates; every
  pooled transaction is queued for resending, has a deadline entry and is watched; sends are bounded
  by the attempts; what each outcome of adding a transaction is; how long clean-up keeps it.
\<close>

section \<open>State\<close>

text \<open>The parts of \<open>VersionedTransaction\<close> the program reads.\<close>

record versioned_transaction =
  vt_signatures :: "signature list"
  vt_recent_blockhash :: hash

record send_transaction_request =
  str_signature :: signature
  str_transaction :: versioned_transaction
  str_wire_transaction :: bytes
  str_max_retries :: "nat option"
  str_policies :: "pubkey list"

record retryable_tx =
  rt_tx :: send_transaction_request
  leftover_attempt :: nat

datatype dlq_event =
    ReachedMaxProcessingAge signature
  | ReachedMaxRetries signature
  | AlreadyLanded signature

record sched_config =
  retry_rate :: duration
  stop_send_on_commitment :: commitment_level
  max_retry :: nat
  transaction_max_processing_age :: u64
  has_dlq :: bool

record 'r sched =
  cfg :: sched_config
  rooted :: 'r
  last_known_block_height :: block_height
  tx_pool :: "(signature, retryable_tx) hmap"
  block_height_deadline_map :: "(block_height \<times> signature list) list"
  insertion_order :: "(instant \<times> signature) list"
  response_sink :: "send_transaction_request list"
  dlq_out :: "dlq_event list"

record heights =
  height_of :: "hash \<Rightarrow> block_height option"
  height_latest :: "commitment_level \<Rightarrow> block_height option"

definition sched_new :: "sched_config \<Rightarrow> 'r \<Rightarrow> 'r sched" where
  "sched_new c r = \<lparr>cfg = c, rooted = r, last_known_block_height = 0, tx_pool = [],
     block_height_deadline_map = [], insertion_order = [], response_sink = [], dlq_out = []\<rparr>"

section \<open>Operations of the retry scheduler\<close>

definition dlq_send :: "dlq_event \<Rightarrow> 'r sched \<Rightarrow> 'r sched" where
  "dlq_send ev s = (if has_dlq (cfg s) then s\<lparr>dlq_out := dlq_out s @ [ev]\<rparr> else s)"

lemma dlq_send_frame [simp]:
  "cfg (dlq_send ev s) = cfg s" "rooted (dlq_send ev s) = rooted s"
  "last_known_block_height (dlq_send ev s) = last_known_block_height s"
  "tx_pool (dlq_send ev s) = tx_pool s"
  "block_height_deadline_map (dlq_send ev s) = block_height_deadline_map s"
  "insertion_order (dlq_send ev s) = insertion_order s"
  "response_sink (dlq_send ev s) = response_sink s"
  by (simp_all add: dlq_send_def)

text \<open>The attempts left in the whole pool; it falls with every resend.\<close>

definition pool_attempts :: "(signature, retryable_tx) hmap \<Rightarrow> nat" where
  "pool_attempts m = sum_list (map leftover_attempt (hm_values m))"

lemma pool_attempts_use:
  "hm_get m sig = Some rtx \<Longrightarrow> leftover_attempt rtx > 0 \<Longrightarrow>
   pool_attempts (hm_insert sig (rtx\<lparr>leftover_attempt := leftover_attempt rtx - Suc 0\<rparr>) m) < pool_attempts m"
  by (induction m) (auto simp: pool_attempts_def split: if_splits)

lemma pool_attempts_remove: "pool_attempts (hm_remove sig m) \<le> pool_attempts m"
  by (induction m) (auto simp: pool_attempts_def)

lemma pool_attempts_remove_cases:
  "pool_attempts (hm_remove sig m) < pool_attempts m \<or> pool_attempts (hm_remove sig m) = pool_attempts m"
  using pool_attempts_remove [of sig m] by linarith

function resend_non_landed_tx :: "instant \<Rightarrow> 'r sched \<Rightarrow> 'r sched" where
  "resend_non_landed_tx now s =
     (case insertion_order s of
        [] \<Rightarrow> s
      | (inserted_at, sig) # rest \<Rightarrow>
          (if now - inserted_at < retry_rate (cfg s) then s
           else (case hm_get (tx_pool s) sig of
                   None \<Rightarrow> resend_non_landed_tx now (s\<lparr>insertion_order := rest\<rparr>)
                 | Some rtx \<Rightarrow>
                     (if leftover_attempt rtx > 0
                      then resend_non_landed_tx now
                             (s\<lparr>tx_pool := hm_insert sig
                                  (rtx\<lparr>leftover_attempt := leftover_attempt rtx - 1\<rparr>) (tx_pool s),
                                response_sink := response_sink s @ [rt_tx rtx],
                                insertion_order := rest @ [(now, sig)]\<rparr>)
                      else resend_non_landed_tx now
                             (dlq_send (ReachedMaxRetries sig)
                                (s\<lparr>tx_pool := hm_remove sig (tx_pool s), insertion_order := rest\<rparr>))))))"
  by pat_completeness auto
termination
  by (relation "measures [\<lambda>(now, s). pool_attempts (tx_pool s), \<lambda>(now, s). length (insertion_order s)]")
     (auto simp: pool_attempts_use pool_attempts_remove_cases)

declare resend_non_landed_tx.simps [simp del]

definition gc_one :: "(signature \<Rightarrow> 'r \<Rightarrow> 'r) \<Rightarrow> signature \<Rightarrow> 'r sched \<Rightarrow> 'r sched" where
  "gc_one unsubscribe sig s =
     dlq_send (ReachedMaxProcessingAge sig)
       (s\<lparr>tx_pool := hm_remove sig (tx_pool s), rooted := unsubscribe sig (rooted s)\<rparr>)"

definition gc_deadline_map :: "(signature \<Rightarrow> 'r \<Rightarrow> 'r) \<Rightarrow> 'r sched \<Rightarrow> 'r sched" where
  "gc_deadline_map unsubscribe s =
     (let outdated_block_height = u64_saturating_sub (last_known_block_height s)
                                    (transaction_max_processing_age (cfg s));
          (deprecated, right) = bt_split_off outdated_block_height (block_height_deadline_map s)
      in fold (gc_one unsubscribe) (concat (map snd deprecated))
           (s\<lparr>block_height_deadline_map := right\<rparr>))"

definition handle_tx_commitment_update :: "signature \<Rightarrow> commitment_level \<Rightarrow> 'r sched \<Rightarrow> 'r sched" where
  "handle_tx_commitment_update sig c s =
     (if c = stop_send_on_commitment (cfg s) then s\<lparr>tx_pool := hm_remove sig (tx_pool s)\<rparr> else s)"

definition tx_max_retries :: "sched_config \<Rightarrow> send_transaction_request \<Rightarrow> nat" where
  "tx_max_retries c tx = min (case str_max_retries tx of None \<Rightarrow> 0 | Some n \<Rightarrow> n) (max_retry c)"

definition current_height :: "heights \<Rightarrow> block_height" where
  "current_height h = (case height_latest h Confirmed of None \<Rightarrow> 0 | Some x \<Rightarrow> x)"

definition last_valid_height :: "sched_config \<Rightarrow> heights \<Rightarrow> send_transaction_request \<Rightarrow> block_height" where
  "last_valid_height c h tx =
     (case height_of h (vt_recent_blockhash (str_transaction tx)) of
        Some x \<Rightarrow> x + transaction_max_processing_age c
      | None \<Rightarrow> current_height h + transaction_max_processing_age c)"

definition deadline_push :: "block_height \<Rightarrow> signature \<Rightarrow> (block_height \<times> signature list) list
    \<Rightarrow> (block_height \<times> signature list) list" where
  "deadline_push d sig m =
     bt_insert d ((case map_of m d of None \<Rightarrow> [] | Some sigs \<Rightarrow> sigs) @ [sig]) m"

definition add_new_transaction ::
  "(signature \<Rightarrow> 'r \<Rightarrow> 'r) \<Rightarrow> ('r \<Rightarrow> signature \<Rightarrow> commitment_level option) \<Rightarrow> heights
     \<Rightarrow> send_transaction_request \<Rightarrow> instant \<Rightarrow> 'r sched \<Rightarrow> 'r sched" where
  "add_new_transaction subscribe commitment h tx now s =
     (let max_retries = tx_max_retries (cfg s) tx;
          current_block_height = current_height h;
          s1 = s\<lparr>last_known_block_height := current_block_height\<rparr>;
          last_valid_block_height = last_valid_height (cfg s) h tx;
          sig = str_signature tx
      in if last_valid_block_height < current_block_height
         then dlq_send (ReachedMaxProcessingAge sig) s1
         else if (case commitment (rooted s1) sig of
                    None \<Rightarrow> False | Some cl \<Rightarrow> cl \<ge> stop_send_on_commitment (cfg s1))
         then dlq_send (AlreadyLanded sig) s1
         else s1\<lparr>rooted := subscribe sig (rooted s1),
                 tx_pool := hm_insert sig \<lparr>rt_tx = tx, leftover_attempt = max_retries - 1\<rparr> (tx_pool s1),
                 block_height_deadline_map :=
                   deadline_push last_valid_block_height sig (block_height_deadline_map s1),
                 response_sink := response_sink s1 @ [tx],
                 insertion_order := insertion_order s1 @ [(now, sig)]\<rparr>)"

text \<open>
  The \<open>select!\<close> of \<open>run\<close>, one event at a time. \<open>None\<close> is a closed channel and ends the loop, which the
  second component of the result says. \<open>ReceiverLoop\<close> is not an event of the scheduler: it is the
  receiver's own task, which replaces the shared state between two events.
\<close>

datatype 'r sched_event =
    Tick instant
  | Incoming "send_transaction_request option" instant heights
  | SignatureUpdate "(signature \<times> commitment_level) option"
  | ReceiverLoop 'r

fun sched_step ::
  "(signature \<Rightarrow> 'r \<Rightarrow> 'r) \<Rightarrow> (signature \<Rightarrow> 'r \<Rightarrow> 'r) \<Rightarrow> ('r \<Rightarrow> signature \<Rightarrow> commitment_level option)
     \<Rightarrow> 'r sched_event \<Rightarrow> 'r sched \<Rightarrow> 'r sched option" where
  "sched_step subscribe unsubscribe commitment (Tick now) s =
     Some (resend_non_landed_tx now (gc_deadline_map unsubscribe s))"
| "sched_step subscribe unsubscribe commitment (Incoming (Some tx) now h) s =
     Some (add_new_transaction subscribe commitment h tx now s)"
| "sched_step subscribe unsubscribe commitment (Incoming None now h) s = None"
| "sched_step subscribe unsubscribe commitment (SignatureUpdate (Some (sig, c))) s =
     Some (handle_tx_commitment_update sig c s)"
| "sched_step subscribe unsubscribe commitment (SignatureUpdate None) s = None"
| "sched_step subscribe unsubscribe commitment (ReceiverLoop r) s = Some (s\<lparr>rooted := r\<rparr>)"

fun sched_run ::
  "(signature \<Rightarrow> 'r \<Rightarrow> 'r) \<Rightarrow> (signature \<Rightarrow> 'r \<Rightarrow> 'r) \<Rightarrow> ('r \<Rightarrow> signature \<Rightarrow> commitment_level option)
     \<Rightarrow> 'r sched_event list \<Rightarrow> 'r sched \<Rightarrow> 'r sched" where
  "sched_run sub unsub com [] s = s"
| "sched_run sub unsub com (e # es) s =
     (case sched_step sub unsub com e s of None \<Rightarrow> s | Some s' \<Rightarrow> sched_run sub unsub com es s')"

section \<open>The scheduler without retries\<close>

text \<open>
  \<open>fwd_loop\<close>: each transaction comes with the answers of the height service at that moment;
  \<open>max_processing_age\<close> is \<open>solana_clock::MAX_PROCESSING_AGE\<close>; \<open>open_sink\<close> says whether the fanout still
  receives. The result is what was forwarded.
\<close>

definition no_retry_last_valid :: "u64 \<Rightarrow> heights \<Rightarrow> send_transaction_request \<Rightarrow> block_height" where
  "no_retry_last_valid max_processing_age h tx =
     (case height_of h (vt_recent_blockhash (str_transaction tx)) of None \<Rightarrow> 0 | Some x \<Rightarrow> x)
       + max_processing_age"

fun fwd_loop :: "u64 \<Rightarrow> bool \<Rightarrow> (send_transaction_request \<times> heights) list \<Rightarrow> send_transaction_request list" where
  "fwd_loop age open_sink [] = []"
| "fwd_loop age open_sink ((tx, h) # txs) =
     (if no_retry_last_valid age h tx < current_height h then fwd_loop age open_sink txs
      else if open_sink then tx # fwd_loop age open_sink txs
      else [])"

section \<open>The resend loop\<close>

definition head_due :: "instant \<Rightarrow> 'r sched \<Rightarrow> bool" where
  "head_due now s = (case insertion_order s of
     [] \<Rightarrow> False | (inserted_at, _) # _ \<Rightarrow> \<not> now - inserted_at < retry_rate (cfg s))"

text \<open>
  A rule for the loop: what its three kinds of iterations keep, the loop keeps; and it ends with no due
  entry at the head.
\<close>

lemma resend_loop:
  assumes "P s"
    and "\<And>s t sig rest. P s \<Longrightarrow> insertion_order s = (t, sig) # rest \<Longrightarrow>
           hm_get (tx_pool s) sig = None \<Longrightarrow> P (s\<lparr>insertion_order := rest\<rparr>)"
    and "\<And>s t sig rest rtx. P s \<Longrightarrow> insertion_order s = (t, sig) # rest \<Longrightarrow>
           hm_get (tx_pool s) sig = Some rtx \<Longrightarrow> leftover_attempt rtx > 0 \<Longrightarrow>
           P (s\<lparr>tx_pool := hm_insert sig (rtx\<lparr>leftover_attempt := leftover_attempt rtx - 1\<rparr>) (tx_pool s),
                response_sink := response_sink s @ [rt_tx rtx], insertion_order := rest @ [(now, sig)]\<rparr>)"
    and "\<And>s t sig rest rtx. P s \<Longrightarrow> insertion_order s = (t, sig) # rest \<Longrightarrow>
           hm_get (tx_pool s) sig = Some rtx \<Longrightarrow> leftover_attempt rtx = 0 \<Longrightarrow>
           P (dlq_send (ReachedMaxRetries sig)
               (s\<lparr>tx_pool := hm_remove sig (tx_pool s), insertion_order := rest\<rparr>))"
  shows "P (resend_non_landed_tx now s) \<and> \<not> head_due now (resend_non_landed_tx now s)"
  using assms
proof (induction now s rule: resend_non_landed_tx.induct)
  case (1 now s)
  note step = resend_non_landed_tx.simps [of now s]
  show ?case
  proof (cases "insertion_order s")
    case Nil
    then show ?thesis using "1.prems"(1) by (simp add: step head_due_def)
  next
    case (Cons e rest)
    obtain t sig where e: "e = (t, sig)" by fastforce
    consider "now - t < retry_rate (cfg s)"
      | "\<not> now - t < retry_rate (cfg s)" "hm_get (tx_pool s) sig = None"
      | rtx where "\<not> now - t < retry_rate (cfg s)" "hm_get (tx_pool s) sig = Some rtx" "leftover_attempt rtx > 0"
      | rtx where "\<not> now - t < retry_rate (cfg s)" "hm_get (tx_pool s) sig = Some rtx" "leftover_attempt rtx = 0"
      by (cases "hm_get (tx_pool s) sig") auto
    then show ?thesis
    proof cases
      case 2
      then show ?thesis
        using "1.IH"(1) [OF Cons e [symmetric] 2] "1.prems" Cons e by (simp add: step)
    next
      case 3
      then show ?thesis
        using "1.IH"(2) [OF Cons e [symmetric] 3] "1.prems" Cons e by (simp add: step)
    next
      case 4
      then show ?thesis
        using "1.IH"(3) [OF Cons e [symmetric] 4(1,2)] "1.prems" Cons e by (simp add: step)
    qed (use "1.prems"(1) Cons e in \<open>simp add: step head_due_def\<close>)
  qed
qed

lemmas resend_loop_rule = resend_loop [THEN conjunct1]

lemma resend_frame [simp]:
  "cfg (resend_non_landed_tx now s) = cfg s"
  "rooted (resend_non_landed_tx now s) = rooted s"
  "block_height_deadline_map (resend_non_landed_tx now s) = block_height_deadline_map s"
  "last_known_block_height (resend_non_landed_tx now s) = last_known_block_height s"
proof -
  let ?P = "\<lambda>t. cfg t = cfg s \<and> rooted t = rooted s \<and>
      block_height_deadline_map t = block_height_deadline_map s \<and>
      last_known_block_height t = last_known_block_height s"
  have "?P (resend_non_landed_tx now s)" by (rule resend_loop_rule) simp_all
  then show "cfg (resend_non_landed_tx now s) = cfg s"
    "rooted (resend_non_landed_tx now s) = rooted s"
    "block_height_deadline_map (resend_non_landed_tx now s) = block_height_deadline_map s"
    "last_known_block_height (resend_non_landed_tx now s) = last_known_block_height s"
    by simp_all
qed


section \<open>Clean-up of the deadline map\<close>

lemma gc_fold:
  "tx_pool (fold (gc_one u) sigs s) = fold hm_remove sigs (tx_pool s)"
  "rooted (fold (gc_one u) sigs s) = fold u sigs (rooted s)"
  "cfg (fold (gc_one u) sigs s) = cfg s"
  "block_height_deadline_map (fold (gc_one u) sigs s) = block_height_deadline_map s"
  "insertion_order (fold (gc_one u) sigs s) = insertion_order s"
  "response_sink (fold (gc_one u) sigs s) = response_sink s"
  "last_known_block_height (fold (gc_one u) sigs s) = last_known_block_height s"
  by (induction sigs arbitrary: s) (simp_all add: gc_one_def)

abbreviation outdated_height :: "'r sched \<Rightarrow> block_height" where
  "outdated_height s \<equiv>
     u64_saturating_sub (last_known_block_height s) (transaction_max_processing_age (cfg s))"

definition expired_signatures :: "'r sched \<Rightarrow> signature list" where
  "expired_signatures s =
     concat (map snd (filter (\<lambda>(d, _). d < outdated_height s) (block_height_deadline_map s)))"

lemma gc_deadline_map_fields:
  "tx_pool (gc_deadline_map u s) = fold hm_remove (expired_signatures s) (tx_pool s)"
  "rooted (gc_deadline_map u s) = fold u (expired_signatures s) (rooted s)"
  "cfg (gc_deadline_map u s) = cfg s"
  "block_height_deadline_map (gc_deadline_map u s) =
     filter (\<lambda>(d, _). outdated_height s \<le> d) (block_height_deadline_map s)"
  "insertion_order (gc_deadline_map u s) = insertion_order s"
  "response_sink (gc_deadline_map u s) = response_sink s"
  "last_known_block_height (gc_deadline_map u s) = last_known_block_height s"
  by (simp_all add: gc_deadline_map_def bt_split_off_def Let_def gc_fold expired_signatures_def)

lemma expired_iff:
  assumes "bt_wf (block_height_deadline_map s)"
  shows "sig \<in> set (expired_signatures s) \<longleftrightarrow>
    (\<exists>d sigs. map_of (block_height_deadline_map s) d = Some sigs \<and> d < outdated_height s \<and> sig \<in> set sigs)"
  using bt_wf_hm_wf [OF assms] by (force simp: expired_signatures_def simp flip: hm_get_in_set)

section \<open>The invariant of the retry scheduler\<close>

definition sched_inv :: "('r \<Rightarrow> signature set) \<Rightarrow> 'r sched \<Rightarrow> bool" where
  "sched_inv watching s \<longleftrightarrow>
     hm_wf (tx_pool s) \<and> bt_wf (block_height_deadline_map s) \<and>
     (\<forall>sig rtx. hm_get (tx_pool s) sig = Some rtx \<longrightarrow>
        str_signature (rt_tx rtx) = sig \<and> leftover_attempt rtx < max 1 (max_retry (cfg s)) \<and>
        sig \<in> snd ` set (insertion_order s) \<and>
        (\<exists>d sigs. map_of (block_height_deadline_map s) d = Some sigs \<and> sig \<in> set sigs) \<and>
        sig \<in> watching (rooted s))"

lemma sched_inv_new [simp]: "sched_inv watching (sched_new c r)"
  by (simp add: sched_inv_def sched_new_def)

lemma sched_inv_dlq [simp]: "sched_inv watching (dlq_send ev s) = sched_inv watching s"
  by (simp add: sched_inv_def)

lemma resend_inv [inv_intros]:
  assumes "sched_inv watching s"
  shows "sched_inv watching (resend_non_landed_tx now s)"
proof (rule resend_loop_rule [where P = "sched_inv watching"])
  show "sched_inv watching s" by (rule assms)
next
  fix s :: "'a sched" and t sig rest
  assume "sched_inv watching s" "insertion_order s = (t, sig) # rest" "hm_get (tx_pool s) sig = None"
  then show "sched_inv watching (s\<lparr>insertion_order := rest\<rparr>)"
    by (fastforce simp: sched_inv_def)
next
  fix s :: "'a sched" and t sig rest rtx
  assume inv: "sched_inv watching s" and hyps: "insertion_order s = (t, sig) # rest"
    "hm_get (tx_pool s) sig = Some rtx" "0 < leftover_attempt rtx"
  have "leftover_attempt rtx < max 1 (max_retry (cfg s))"
    using inv hyps(2) unfolding sched_inv_def by blast
  then have "leftover_attempt rtx - Suc 0 < max (Suc 0) (max_retry (cfg s))" by simp
  with inv hyps show "sched_inv watching
      (s\<lparr>tx_pool := hm_insert sig (rtx\<lparr>leftover_attempt := leftover_attempt rtx - 1\<rparr>) (tx_pool s),
         response_sink := response_sink s @ [rt_tx rtx], insertion_order := rest @ [(now, sig)]\<rparr>)"
    unfolding sched_inv_def by (auto split: if_splits)
next
  fix s :: "'a sched" and t sig rest rtx
  assume "sched_inv watching s" "insertion_order s = (t, sig) # rest"
    "hm_get (tx_pool s) sig = Some rtx" "leftover_attempt rtx = 0"
  then show "sched_inv watching (dlq_send (ReachedMaxRetries sig)
      (s\<lparr>tx_pool := hm_remove sig (tx_pool s), insertion_order := rest\<rparr>))"
    unfolding sched_inv_dlq by (auto simp: sched_inv_def split: if_splits)
qed

lemma commitment_update_inv [inv_intros]:
  "sched_inv watching s \<Longrightarrow> sched_inv watching (handle_tx_commitment_update sig c s)"
  by (auto simp: handle_tx_commitment_update_def sched_inv_def)

lemma deadline_push_lookup:
  "\<exists>sigs. map_of (deadline_push d sig m) d = Some sigs \<and> sig \<in> set sigs"
  by (simp add: deadline_push_def)

lemma deadline_push_mono:
  "map_of m d' = Some sigs \<Longrightarrow> \<exists>sigs'. map_of (deadline_push d sig m) d' = Some sigs' \<and> set sigs \<subseteq> set sigs'"
  by (cases "d' = d") (auto simp: deadline_push_def)

context rooted_tx_receiver
begin

lemma gc_inv:
  assumes "sched_inv watching s"
  shows "sched_inv watching (gc_deadline_map unsubscribe s)"
proof -
  have wf: "hm_wf (tx_pool s)" "bt_wf (block_height_deadline_map s)"
    using assms by (simp_all add: sched_inv_def)
  note gc = gc_deadline_map_fields [of unsubscribe s]
  show ?thesis unfolding sched_inv_def
  proof (intro conjI allI impI)
    fix sig rtx assume "hm_get (tx_pool (gc_deadline_map unsubscribe s)) sig = Some rtx"
    then have old: "hm_get (tx_pool s) sig = Some rtx" and live: "sig \<notin> set (expired_signatures s)"
      by (auto simp: gc hm_get_fold_remove split: if_splits)
    have inv: "str_signature (rt_tx rtx) = sig" "leftover_attempt rtx < max 1 (max_retry (cfg s))"
      "sig \<in> snd ` set (insertion_order s)" "sig \<in> watching (rooted s)"
      using assms old unfolding sched_inv_def by blast+
    show "str_signature (rt_tx rtx) = sig" by (rule inv(1))
    show "leftover_attempt rtx < max 1 (max_retry (cfg (gc_deadline_map unsubscribe s)))"
      using inv(2) by (simp add: gc)
    show "sig \<in> snd ` set (insertion_order (gc_deadline_map unsubscribe s))"
      using inv(3) by (simp add: gc)
    show "sig \<in> watching (rooted (gc_deadline_map unsubscribe s))"
      using inv(4) live by (simp add: gc watching_fold_unsubscribe)
    obtain d sigs where d: "map_of (block_height_deadline_map s) d = Some sigs" "sig \<in> set sigs"
      using assms old unfolding sched_inv_def by blast
    then have "outdated_height s \<le> d" using live expired_iff [OF wf(2)] by (meson not_le)
    then show "\<exists>d sigs. map_of (block_height_deadline_map (gc_deadline_map unsubscribe s)) d = Some sigs \<and>
        sig \<in> set sigs"
      using d by (auto simp: gc bt_get_filter_ge)
  qed (simp_all add: gc wf hm_wf_fold_remove bt_wf_filter)
qed

lemma add_inv:
  assumes "sched_inv watching s"
  shows "sched_inv watching (add_new_transaction subscribe commitment h tx now s)"
proof -
  let ?s1 = "s\<lparr>last_known_block_height := current_height h\<rparr>"
  have s1: "sched_inv watching ?s1" using assms by (simp add: sched_inv_def)
  have push: "\<exists>d' sigs. map_of (deadline_push d (str_signature tx) (block_height_deadline_map s)) d' = Some sigs \<and>
      sig \<in> set sigs"
    if "\<exists>d' sigs. map_of (block_height_deadline_map s) d' = Some sigs \<and> sig \<in> set sigs" for d sig
    using that deadline_push_mono by blast
  have here: "\<exists>d' sigs. map_of (deadline_push d (str_signature tx) (block_height_deadline_map s)) d' = Some sigs \<and>
      str_signature tx \<in> set sigs" for d
    using deadline_push_lookup by blast
  have wf: "bt_wf (deadline_push d (str_signature tx) (block_height_deadline_map s))" for d
    using assms by (simp add: sched_inv_def deadline_push_def)
  have bound: "tx_max_retries (cfg s) tx - 1 < max 1 (max_retry (cfg s))"
    by (auto simp: tx_max_retries_def max_def)
  have "sched_inv watching
      (?s1\<lparr>rooted := subscribe (str_signature tx) (rooted ?s1),
         tx_pool := hm_insert (str_signature tx)
            \<lparr>rt_tx = tx, leftover_attempt = tx_max_retries (cfg s) tx - 1\<rparr> (tx_pool ?s1),
         block_height_deadline_map :=
            deadline_push (last_valid_height (cfg s) h tx) (str_signature tx) (block_height_deadline_map ?s1),
         response_sink := response_sink ?s1 @ [tx],
         insertion_order := insertion_order ?s1 @ [(now, str_signature tx)]\<rparr>)"
    using assms wf bound push here
    unfolding sched_inv_def by (auto simp: watching_subscribe split: if_splits)
  then show ?thesis
    using s1 by (simp add: add_new_transaction_def Let_def)
qed

lemma step_inv:
  assumes "sched_inv watching s" and "sched_step subscribe unsubscribe commitment e s = Some s'"
    and "\<And>r. e = ReceiverLoop r \<Longrightarrow> watching r = watching (rooted s)"
  shows "sched_inv watching s'"
proof (cases e)
  case (Tick now)
  then show ?thesis using assms by (auto intro: resend_inv gc_inv)
next
  case (Incoming tx now h)
  then show ?thesis using assms by (cases tx) (auto intro: add_inv)
next
  case (SignatureUpdate u)
  then show ?thesis using assms by (cases u) (auto intro: commitment_update_inv)
next
  case (ReceiverLoop r)
  then show ?thesis using assms by (auto simp: sched_inv_def)
qed

end

text \<open>
  The states of the scheduler over the gRPC receiver: its own events, interleaved with the receiver's
  loop, which runs the state machine of \<open>Jet_Rooted\<close> on the shared state.
\<close>

inductive sched_reach :: "sched_config \<Rightarrow> rooted_state sched \<Rightarrow> bool" for c where
  start: "sched_reach c (sched_new c rooted_new)"
| step: "sched_reach c s \<Longrightarrow>
     sched_step subscribe_signature unsubscribe_signature get_transaction_commitment e s = Some s' \<Longrightarrow>
     (\<And>r. e = ReceiverLoop r \<Longrightarrow> \<exists>evs. r = fst (process_events (rooted s) evs)) \<Longrightarrow>
     sched_reach c s'"

lemma process_event_watched: "watched_signatures (fst (process_event s e)) = watched_signatures s"
  by (cases e) (simp_all add: Let_def cleanup_old_slots_def)

lemma process_events_watched: "watched_signatures (fst (process_events s es)) = watched_signatures s"
  by (induction es arbitrary: s) (simp_all add: Let_def case_prod_beta process_event_watched)

lemma sched_reach_inv: "sched_reach c s \<Longrightarrow> sched_inv watched_signatures s"
proof (induction rule: sched_reach.induct)
  case (step s e s')
  then show ?case
    using process_events_watched by (blast intro: grpc_receiver.step_inv)
qed simp

lemma add_cfg [simp]: "cfg (add_new_transaction sub com h tx now s) = cfg s"
  by (simp add: add_new_transaction_def Let_def)

lemma step_cfg: "sched_step sub unsub com e s = Some s' \<Longrightarrow> cfg s' = cfg s"
  by (induction sub unsub com e s rule: sched_step.induct)
     (auto simp: gc_deadline_map_fields handle_tx_commitment_update_def)

lemma sched_reach_cfg: "sched_reach c s \<Longrightarrow> cfg s = c"
  by (induction rule: sched_reach.induct)
     (auto simp: sched_new_def dest: step_cfg)

text \<open>
  C7. No pooled transaction is ever lost by the retry scheduler: in every reachable state each transaction
  in the pool is in the resend queue, is listed under some deadline (so clean-up will find it), is
  watched at the receiver (so its landing will be announced), and has fewer attempts left than the
  configured maximum.
\<close>

theorem pooled_transaction_tracked:
  assumes "sched_reach c s" and "hm_get (tx_pool s) sig = Some rtx"
  shows "str_signature (rt_tx rtx) = sig \<and> leftover_attempt rtx < max 1 (max_retry (cfg s)) \<and>
    sig \<in> snd ` set (insertion_order s) \<and>
    (\<exists>d sigs. map_of (block_height_deadline_map s) d = Some sigs \<and> sig \<in> set sigs) \<and>
    sig \<in> watched_signatures (rooted s)"
  using sched_reach_inv [OF assms(1)] assms(2) unfolding sched_inv_def by blast

subsection \<open>Instances\<close>

abbreviation ex_cfg :: sched_config where
  "ex_cfg \<equiv> \<lparr>retry_rate = 1000, stop_send_on_commitment = Confirmed, max_retry = 3,
     transaction_max_processing_age = 150, has_dlq = True\<rparr>"

abbreviation ex_req :: send_transaction_request where
  "ex_req \<equiv> \<lparr>str_signature = Signature 1, str_transaction = \<lparr>vt_signatures = [Signature 1], vt_recent_blockhash = Hash 0\<rparr>,
     str_wire_transaction = [], str_max_retries = Some 2, str_policies = []\<rparr>"

abbreviation ex_heights :: heights where
  "ex_heights \<equiv> \<lparr>height_of = (\<lambda>_. None), height_latest = (\<lambda>_. Some 1000)\<rparr>"

lemmas sched_eval = Let_def add_new_transaction_def sched_new_def rooted_new_def current_height_def
  last_valid_height_def tx_max_retries_def deadline_push_def dlq_send_def get_transaction_commitment_def
  subscribe_signature_def

abbreviation ex_sched :: "rooted_state sched" where
  "ex_sched \<equiv> add_new_transaction subscribe_signature get_transaction_commitment ex_heights ex_req 5
     (sched_new ex_cfg rooted_new)"

lemma ex_sched_reach: "sched_reach ex_cfg ex_sched"
  by (rule sched_reach.step [OF sched_reach.start, where e = "Incoming (Some ex_req) 5 ex_heights"]) simp_all

lemma ex_sched_pool: "hm_get (tx_pool ex_sched) (Signature 1) = Some \<lparr>rt_tx = ex_req, leftover_attempt = 1\<rparr>"
  by (simp add: sched_eval)

theorem pooled_transaction_tracked_witness:
  "Signature 1 \<in> snd ` set (insertion_order ex_sched) \<and> Signature 1 \<in> watched_signatures (rooted ex_sched)"
  using pooled_transaction_tracked [OF ex_sched_reach ex_sched_pool] by blast

section \<open>Sends are bounded\<close>

definition sends_of :: "signature \<Rightarrow> 'r sched \<Rightarrow> nat" where
  "sends_of sig s = length (filter (\<lambda>tx. str_signature tx = sig) (response_sink s))"

definition attempts_left :: "signature \<Rightarrow> 'r sched \<Rightarrow> nat" where
  "attempts_left sig s = (case hm_get (tx_pool s) sig of None \<Rightarrow> 0 | Some rtx \<Rightarrow> leftover_attempt rtx)"

definition pool_keyed :: "'r sched \<Rightarrow> bool" where
  "pool_keyed s \<longleftrightarrow> (\<forall>sig rtx. hm_get (tx_pool s) sig = Some rtx \<longrightarrow> str_signature (rt_tx rtx) = sig)"

text \<open>The sends one event may add: an accepted request brings its attempts, at least one.\<close>

fun allowance :: "sched_config \<Rightarrow> signature \<Rightarrow> 'r sched_event \<Rightarrow> nat" where
  "allowance c sig (Incoming (Some tx) now h) = (if str_signature tx = sig then max 1 (tx_max_retries c tx) else 0)"
| "allowance c sig _ = 0"

lemma resend_budget:
  assumes "pool_keyed s"
  shows "pool_keyed (resend_non_landed_tx now s) \<and>
    sends_of sig (resend_non_landed_tx now s) + attempts_left sig (resend_non_landed_tx now s)
      \<le> sends_of sig s + attempts_left sig s"
  by (rule resend_loop_rule [where P = "\<lambda>t. pool_keyed t \<and>
        sends_of sig t + attempts_left sig t \<le> sends_of sig s + attempts_left sig s"])
     (use assms in \<open>auto simp: pool_keyed_def sends_of_def attempts_left_def split: if_splits option.splits\<close>)

lemma gc_budget:
  assumes "pool_keyed s"
  shows "pool_keyed (gc_deadline_map u s) \<and>
    sends_of sig (gc_deadline_map u s) + attempts_left sig (gc_deadline_map u s) \<le> sends_of sig s + attempts_left sig s"
  using assms
  by (auto simp: pool_keyed_def sends_of_def attempts_left_def gc_deadline_map_fields hm_get_fold_remove
           split: option.splits)

lemma update_budget:
  assumes "pool_keyed s"
  shows "pool_keyed (handle_tx_commitment_update sg c s) \<and>
    sends_of sig (handle_tx_commitment_update sg c s) + attempts_left sig (handle_tx_commitment_update sg c s)
      \<le> sends_of sig s + attempts_left sig s"
  using assms
  by (auto simp: handle_tx_commitment_update_def pool_keyed_def sends_of_def attempts_left_def)

lemma add_budget:
  assumes "pool_keyed s"
  shows "pool_keyed (add_new_transaction sub com h tx now s) \<and>
    sends_of sig (add_new_transaction sub com h tx now s) + attempts_left sig (add_new_transaction sub com h tx now s)
      \<le> sends_of sig s + attempts_left sig s + (if str_signature tx = sig then max 1 (tx_max_retries (cfg s) tx) else 0)"
  using assms
  by (auto simp: add_new_transaction_def Let_def pool_keyed_def sends_of_def attempts_left_def)

lemma step_budget:
  assumes "pool_keyed s" and "sched_step sub unsub com e s = Some s'"
  shows "pool_keyed s' \<and> sends_of sig s' + attempts_left sig s' \<le> sends_of sig s + attempts_left sig s + allowance (cfg s) sig e"
proof (cases e)
  case (Tick now)
  let ?g = "gc_deadline_map unsub s"
  have "pool_keyed ?g" using gc_budget [OF assms(1)] by blast
  then have "pool_keyed s' \<and> sends_of sig s' + attempts_left sig s' \<le> sends_of sig ?g + attempts_left sig ?g"
    using resend_budget [of ?g] assms(2) Tick by auto
  then show ?thesis using gc_budget [OF assms(1), of unsub sig] Tick by simp
next
  case (Incoming tx now h)
  show ?thesis
  proof (cases tx)
    case (Some t)
    then show ?thesis
      using assms Incoming add_budget [OF assms(1), of sub com h t now sig] by simp
  qed (use assms Incoming in simp)
next
  case (SignatureUpdate u)
  then show ?thesis
    using assms update_budget [OF assms(1), of _ _ sig] by (cases u) auto
next
  case (ReceiverLoop r)
  then show ?thesis using assms by (auto simp: pool_keyed_def sends_of_def attempts_left_def)
qed

lemma run_budget:
  assumes "pool_keyed s"
  shows "sends_of sig (sched_run sub unsub com es s) \<le>
      sends_of sig s + attempts_left sig s + (\<Sum>e\<leftarrow>es. allowance (cfg s) sig e)"
  using assms
proof (induction es arbitrary: s)
  case (Cons e es)
  show ?case
  proof (cases "sched_step sub unsub com e s")
    case (Some s')
    have "pool_keyed s'" and le: "sends_of sig s' + attempts_left sig s' \<le>
        sends_of sig s + attempts_left sig s + allowance (cfg s) sig e"
      using step_budget [OF Cons.prems Some] by blast+
    then show ?thesis
      using Cons.IH [of s'] Some step_cfg [OF Some] by simp
  qed simp
qed simp

text \<open>
  Over any run, whatever the interleaving of ticks, landings and requests, the number of times a
  transaction is handed to the fanout is at most the sum of the attempts its requests were granted: the
  minimum of the requested and the configured maximum, and one for a request that asks for none.
\<close>

theorem sends_bounded_by_attempts:
  "sends_of sig (sched_run sub unsub com es (sched_new c r)) \<le> (\<Sum>e\<leftarrow>es. allowance c sig e)"
proof -
  have "pool_keyed (sched_new c r)" by (simp add: pool_keyed_def sched_new_def)
  from run_budget [OF this] show ?thesis by (simp add: sends_of_def attempts_left_def sched_new_def)
qed

lemma sched_inv_keyed: "sched_inv w s \<Longrightarrow> pool_keyed s"
  by (auto simp: sched_inv_def pool_keyed_def)

text \<open>
  C8. A landed transaction is not resent. Once the scheduler has been told that a transaction reached the
  configured commitment, no later run that brings no new request for it hands it to the fanout again,
  although its entry is still in the resend queue.
\<close>

theorem landed_is_not_resent:
  assumes "sched_reach c s" and "\<And>e. e \<in> set es \<Longrightarrow> allowance c sig e = 0"
  shows "sends_of sig (sched_run sub unsub com es
           (handle_tx_commitment_update sig (stop_send_on_commitment (cfg s)) s)) \<le> sends_of sig s"
proof -
  let ?s = "handle_tx_commitment_update sig (stop_send_on_commitment (cfg s)) s"
  have keyed: "pool_keyed ?s"
    using update_budget sched_inv_keyed [OF sched_reach_inv [OF assms(1)]] by blast
  have fields: "cfg ?s = c" "attempts_left sig ?s = 0" "sends_of sig ?s = sends_of sig s"
    using sched_reach_cfg [OF assms(1)] by (simp_all add: handle_tx_commitment_update_def attempts_left_def sends_of_def)
  have "(\<Sum>e\<leftarrow>es. allowance c sig e) = 0"
    using assms(2) by (simp add: sum_list_eq_0_iff)
  then show ?thesis using run_budget [OF keyed, of sig sub unsub com es] unfolding fields by linarith
qed

theorem landed_is_not_resent_witness:
  "sends_of (Signature 1) (sched_run subscribe_signature unsubscribe_signature get_transaction_commitment
     [Tick 2000, Tick 4000] (handle_tx_commitment_update (Signature 1) Confirmed ex_sched)) \<le> 1"
proof -
  have ex: "stop_send_on_commitment (cfg ex_sched) = Confirmed" "sends_of (Signature 1) ex_sched = 1"
    by (simp_all add: sched_eval sends_of_def)
  have "sends_of (Signature 1) (sched_run subscribe_signature unsubscribe_signature get_transaction_commitment
     [Tick 2000, Tick 4000] (handle_tx_commitment_update (Signature 1) (stop_send_on_commitment (cfg ex_sched)) ex_sched))
     \<le> sends_of (Signature 1) ex_sched"
    by (rule landed_is_not_resent [OF ex_sched_reach]) auto
  then show ?thesis by (simp only: ex)
qed


section \<open>What becomes of a new transaction\<close>

text \<open>
  Adding a transaction has exactly three outcomes. If its last valid block height is below the
  current confirmed height it is reported as too old and nothing else changes but the known height. If the
  receiver already knows it at the configured level or above, it is reported as landed. Otherwise it is
  sent at once, pooled with one attempt fewer than granted, watched, queued and given its deadline.
\<close>

theorem add_new_transaction_outcomes:
  fixes s :: "rooted_state sched" and h :: heights and tx :: send_transaction_request
  shows "let expired = last_valid_height (cfg s) h tx < current_height h;
      landed = (case get_transaction_commitment (rooted s) (str_signature tx) of
                  None \<Rightarrow> False | Some cl \<Rightarrow> cl \<ge> stop_send_on_commitment (cfg s));
      s' = add_new_transaction subscribe_signature get_transaction_commitment h tx now s
    in last_known_block_height s' = current_height h \<and>
    (if expired \<or> landed
     then tx_pool s' = tx_pool s \<and> response_sink s' = response_sink s \<and>
          insertion_order s' = insertion_order s \<and> rooted s' = rooted s \<and>
          block_height_deadline_map s' = block_height_deadline_map s \<and>
          dlq_out s' = dlq_out s @ (if has_dlq (cfg s)
            then [if expired then ReachedMaxProcessingAge (str_signature tx) else AlreadyLanded (str_signature tx)]
            else [])
     else hm_get (tx_pool s') (str_signature tx) =
            Some \<lparr>rt_tx = tx, leftover_attempt = tx_max_retries (cfg s) tx - 1\<rparr> \<and>
          response_sink s' = response_sink s @ [tx] \<and>
          insertion_order s' = insertion_order s @ [(now, str_signature tx)] \<and>
          str_signature tx \<in> watched_signatures (rooted s') \<and>
          (\<exists>sigs. map_of (block_height_deadline_map s') (last_valid_height (cfg s) h tx) = Some sigs \<and>
             str_signature tx \<in> set sigs) \<and>
          dlq_out s' = dlq_out s)"
  by (simp add: add_new_transaction_def Let_def dlq_send_def subscribe_signature_def deadline_push_lookup
        split: option.split)

section \<open>Ageing\<close>

lemma gc_keeps:
  assumes "hm_get (tx_pool s) sig = Some rtx" and "bt_wf (block_height_deadline_map s)"
    and "\<And>d sigs. map_of (block_height_deadline_map s) d = Some sigs \<Longrightarrow> sig \<in> set sigs \<Longrightarrow>
           outdated_height s \<le> d"
  shows "hm_get (tx_pool (gc_deadline_map u s)) sig = Some rtx"
proof -
  have "sig \<notin> set (expired_signatures s)"
    using assms(3) by (auto simp: expired_iff [OF assms(2)] not_less [symmetric])
  then show ?thesis using assms(1) by (simp add: gc_deadline_map_fields hm_get_fold_remove)
qed

text \<open>
  Clean-up is exact: a pooled transaction is removed (and, with a dead letter queue, reported) precisely
  when one of its deadlines is below the last known height minus the maximum age, and the deadlines left
  are the others.
\<close>

theorem gc_removes_exactly_expired:
  assumes "bt_wf (block_height_deadline_map s)"
  shows "hm_get (tx_pool (gc_deadline_map u s)) sig =
      (if \<exists>d sigs. map_of (block_height_deadline_map s) d = Some sigs \<and> sig \<in> set sigs \<and>
            unat d < unat (last_known_block_height s) - unat (transaction_max_processing_age (cfg s))
       then None else hm_get (tx_pool s) sig) \<and>
    map_of (block_height_deadline_map (gc_deadline_map u s)) d =
      (if unat d < unat (last_known_block_height s) - unat (transaction_max_processing_age (cfg s))
       then None else map_of (block_height_deadline_map s) d)"
proof -
  have lt: "d < outdated_height s \<longleftrightarrow>
      unat d < unat (last_known_block_height s) - unat (transaction_max_processing_age (cfg s))" for d
    by (simp add: word_less_nat_alt unat_saturating_sub)
  have "sig \<in> set (expired_signatures s) \<longleftrightarrow>
      (\<exists>d sigs. map_of (block_height_deadline_map s) d = Some sigs \<and> sig \<in> set sigs \<and>
         unat d < unat (last_known_block_height s) - unat (transaction_max_processing_age (cfg s)))"
    by (auto simp: expired_iff [OF assms] lt)
  then show ?thesis
    by (simp add: gc_deadline_map_fields hm_get_fold_remove bt_get_filter_ge lt [symmetric] not_less)
qed

theorem gc_removes_exactly_expired_witness:
  "hm_get (tx_pool (gc_deadline_map unsubscribe_signature (ex_sched\<lparr>last_known_block_height := 1301\<rparr>))) (Signature 1) = None"
proof -
  let ?s = "ex_sched\<lparr>last_known_block_height := 1301\<rparr>"
  have wf: "bt_wf (block_height_deadline_map ?s)" by (simp add: sched_eval)
  have "map_of (block_height_deadline_map ?s) 1150 = Some [Signature 1] \<and> Signature 1 \<in> set [Signature 1] \<and>
      unat (1150 :: u64) < unat (last_known_block_height ?s) - unat (transaction_max_processing_age (cfg ?s))"
    by (simp add: sched_eval)
  then show ?thesis
    using gc_removes_exactly_expired [OF wf, of unsubscribe_signature "Signature 1" 0] by (metis (no_types, lifting))
qed

text \<open>
  The age limit is applied twice. A transaction whose block hash is unknown, accepted at height
  \<open>x\<close>, gets the deadline \<open>x + age\<close>, and clean-up compares deadlines with the known height minus \<open>age\<close>
  again: it stays pooled for every known height up to \<open>x + 2 * age\<close>, although the configuration documents
  \<open>age\<close> as the maximum number of blocks a transaction can stay in the pool.
\<close>

theorem pool_age_is_twice_the_limit:
  fixes age :: nat and x :: nat and c :: sched_config
  assumes "transaction_max_processing_age c = of_nat age" and "x + 2 * age < 2 ^ 64" and "known \<le> x + 2 * age"
    and "height_latest h Confirmed = Some (of_nat x)"
    and "height_of h (vt_recent_blockhash (str_transaction tx)) = None"
  shows "let s = add_new_transaction subscribe_signature get_transaction_commitment h tx now (sched_new c rooted_new)
    in hm_get (tx_pool (gc_deadline_map unsubscribe_signature (s\<lparr>last_known_block_height := of_nat known\<rparr>)))
         (str_signature tx) \<noteq> None"
proof -
  let ?s = "add_new_transaction subscribe_signature get_transaction_commitment h tx now (sched_new c rooted_new)"
  let ?t = "?s\<lparr>last_known_block_height := of_nat known\<rparr>"
  have valid: "last_valid_height c h tx = of_nat (x + age)" and cur: "current_height h = of_nat x"
    using assms(1,4,5) by (simp_all add: last_valid_height_def current_height_def)
  have unat: "unat (of_nat n :: u64) = n" if "n \<le> x + 2 * age" for n
    using that assms(2) by (simp add: unat_of_nat take_bit_nat_eq_self)
  have live: "\<not> last_valid_height c h tx < current_height h"
    unfolding valid cur word_less_nat_alt by (simp add: unat del: of_nat_add)
  then have pooled: "hm_get (tx_pool ?t) (str_signature tx) =
        Some \<lparr>rt_tx = tx, leftover_attempt = tx_max_retries c tx - 1\<rparr>"
    and "block_height_deadline_map ?t = [(last_valid_height c h tx, [str_signature tx])]"
    and c: "cfg ?t = c"
    by (simp_all add: sched_eval(2,3,4) Let_def get_transaction_commitment_def deadline_push_def)
  then have map: "block_height_deadline_map ?t = [(of_nat (x + age), [str_signature tx])]"
    by (simp only: valid)
  have "outdated_height ?t \<le> of_nat (x + age)"
    using assms(1-3) by (simp add: word_le_nat_alt unat_saturating_sub c unat del: of_nat_add)
  then have "outdated_height ?t \<le> d" if "map_of (block_height_deadline_map ?t) d = Some sigs" for d sigs
    using that by (simp only: map) (simp split: if_splits)
  then have "hm_get (tx_pool (gc_deadline_map unsubscribe_signature ?t)) (str_signature tx) =
      Some \<lparr>rt_tx = tx, leftover_attempt = tx_max_retries c tx - 1\<rparr>"
    by (intro gc_keeps [OF pooled]) (simp only: map, simp)
  then show ?thesis unfolding Let_def by simp
qed

theorem pool_age_is_twice_the_limit_witness:
  "hm_get (tx_pool (gc_deadline_map unsubscribe_signature (ex_sched\<lparr>last_known_block_height := of_nat 1300\<rparr>)))
     (Signature 1) \<noteq> None"
  using pool_age_is_twice_the_limit [of ex_cfg 150 1000 1300 ex_heights ex_req 5] by (simp add: Let_def)

section \<open>The scheduler without retries\<close>

lemma fwd_loop_open:
  "fwd_loop age True txs = map fst (filter (\<lambda>(tx, h). \<not> no_retry_last_valid age h tx < current_height h) txs)"
  by (induction txs) auto

lemma fwd_loop_append:
  "fwd_loop age True (xs @ ys) = fwd_loop age True xs @ fwd_loop age True ys"
  by (simp add: fwd_loop_open)

text \<open>
  The scheduler without retries keeps the order of its input and forwards each transaction at most once,
  and it forwards a transaction exactly when the height of its block hash plus the maximum age has not
  been passed. A transaction whose block hash is unknown is treated as if its block had height 0.
\<close>

theorem no_retry_forwards_fresh_in_order:
  assumes "\<And>tx h x. (tx, h) \<in> set txs \<Longrightarrow> height_of h (vt_recent_blockhash (str_transaction tx)) = Some x \<Longrightarrow>
             unat x + unat age < 2 ^ 64"
  shows "fwd_loop age True txs = map fst (filter (\<lambda>(tx, h).
      unat (current_height h) \<le> unat age +
        (case height_of h (vt_recent_blockhash (str_transaction tx)) of None \<Rightarrow> 0 | Some x \<Rightarrow> unat x)) txs)"
  unfolding fwd_loop_open
proof (rule arg_cong [where f = "map fst"], rule filter_cong [OF refl], clarify)
  fix tx h assume "(tx, h) \<in> set txs"
  then have "unat (no_retry_last_valid age h tx) = unat age +
      (case height_of h (vt_recent_blockhash (str_transaction tx)) of None \<Rightarrow> 0 | Some x \<Rightarrow> unat x)"
    using assms [of tx h] by (cases "height_of h (vt_recent_blockhash (str_transaction tx))")
      (simp_all add: no_retry_last_valid_def u64_add_no_wrap)
  then show "(\<not> no_retry_last_valid age h tx < current_height h) = (unat (current_height h) \<le> unat age +
      (case height_of h (vt_recent_blockhash (str_transaction tx)) of None \<Rightarrow> 0 | Some x \<Rightarrow> unat x))"
    by (simp add: word_less_nat_alt not_less)
qed

theorem no_retry_forwards_fresh_in_order_witness:
  "fwd_loop 150 True [(ex_req, ex_heights), (ex_req\<lparr>str_signature := Signature 2\<rparr>,
      \<lparr>height_of = (\<lambda>_. Some 900), height_latest = (\<lambda>_. Some 1000)\<rparr>)] = [ex_req\<lparr>str_signature := Signature 2\<rparr>]"
  by (subst no_retry_forwards_fresh_in_order) (auto simp: current_height_def)

text \<open>
  The two schedulers disagree about a block hash that the block height service does not know: the
  retry scheduler assumes it is the current one and sends the transaction at once, the scheduler
  without retries drops it as soon as the chain is older than the maximum age.
\<close>

theorem unknown_blockhash_sent_or_dropped:
  assumes "height_latest h Confirmed = Some x" and "height_of h (vt_recent_blockhash (str_transaction tx)) = None"
    and "transaction_max_processing_age c < x" and "unat x + unat (transaction_max_processing_age c) < 2 ^ 64"
  shows "fwd_loop (transaction_max_processing_age c) True [(tx, h)] = [] \<and>
    response_sink (add_new_transaction subscribe_signature get_transaction_commitment h tx now (sched_new c rooted_new)) = [tx]"
proof -
  have "\<not> x + transaction_max_processing_age c < x"
    using assms(4) by (simp add: not_less word_le_nat_alt unat_word_ariths)
  then show ?thesis
    using assms by (simp add: fwd_loop_open no_retry_last_valid_def current_height_def last_valid_height_def
      add_new_transaction_def Let_def sched_new_def rooted_new_def get_transaction_commitment_def)
qed

theorem unknown_blockhash_sent_or_dropped_witness:
  "fwd_loop 150 True [(ex_req, ex_heights)] = [] \<and> response_sink ex_sched = [ex_req]"
  using unknown_blockhash_sent_or_dropped [of ex_heights 1000 ex_req ex_cfg 5] by simp

end
