(* ===== verification/Jet_Worker.thy ===== *)
theory Jet_Worker
  imports Jet_Prelude
begin

text \<open>
  \<open>apps/jet/src/quic_client/core.rs\<close>: the messages of the QUIC gateway and \<open>QuicTxSenderWorker\<close>, the task
  that owns one connection and sends the transactions of one remote peer in sequence.

  The connection is code of the \<open>quinn\<close> crate and a parameter: \<open>answers k\<close> is what the \<open>k\<close>-th attempt to open
  a stream and write a transaction gives. The channel from the gateway is the list \<open>w_incoming\<close> with the
  flag \<open>w_senders_open\<close>; the permit of \<open>cancel_notify\<close> is the flag \<open>w_cancel\<close>. One iteration of the loop of
  \<open>run\<close> is \<open>worker_iteration\<close>: it drains the queue, then one branch of the \<open>select!\<close> resolves.

  The lemmas: draining the queue terminates whatever the connection answers, each transaction is attempted
  at most \<open>max_tx_attempt\<close> times, and every transaction is afterwards sent, given up or still queued, once.
\<close>

section \<open>Messages\<close>

record gateway_transaction =
  gt_tx_sig :: signature
  gt_wire :: bytes
  gt_remote_peer :: pubkey

text \<open>\<open>quinn::ConnectionError\<close> and \<open>quinn::WriteError\<close>, with the cases the program tells apart.\<close>

datatype connection_error = VersionMismatch | TimedOut | OtherConnectionError string

datatype write_error =
    WriteStopped nat
  | WriteConnectionLost connection_error
  | WriteClosedStream
  | WriteZeroRttRejected

datatype uni_outcome = OpenUniErr connection_error | WriteErr write_error | WriteOk

datatype send_tx_error =
    SendConnectionError connection_error
  | StreamStopped nat
  | StreamClosed
  | ZeroRttRejected

datatype tx_sender_worker_error = ConnectionLost connection_error | WorkerZeroRttRejected

record gateway_tx_sent =
  ts_remote_peer_identity :: pubkey
  ts_remote_peer_addr :: socket_addr
  ts_tx_sig :: signature

text \<open>The failure reason is kept as the error itself, not as its printed form.\<close>

record gateway_tx_failed =
  tf_remote_peer_identity :: pubkey
  tf_remote_peer_addr :: socket_addr
  tf_tx_sig :: signature
  tf_failure_reason :: send_tx_error

datatype tx_drop_reason = RateLimited | RemotePeerUnreachable | DropByGateway | RemotePeerBeingEvicted

type_synonym tx_queue = "(gateway_transaction \<times> nat) list"

record tx_drop =
  td_remote_peer_identity :: pubkey
  td_drop_reason :: tx_drop_reason
  td_dropped_gateway_tx_vec :: tx_queue

datatype gateway_response =
    TxSent gateway_tx_sent
  | TxFailed gateway_tx_failed
  | TxDrop tx_drop

section \<open>The worker\<close>

record worker =
  w_remote_peer :: pubkey
  w_remote_addr :: socket_addr
  w_incoming :: "gateway_transaction list"
  w_senders_open :: bool
  w_tx_queue :: tx_queue
  w_cancel :: bool
  w_max_tx_attempt :: nat

record tx_sender_worker_completed =
  wc_err :: "tx_sender_worker_error option"
  wc_rx :: "gateway_transaction list"
  wc_pending_tx :: tx_queue
  wc_canceled :: bool

definition send_tx :: "uni_outcome \<Rightarrow> send_tx_error option" where
  "send_tx answer =
     (case answer of
        WriteOk \<Rightarrow> None
      | OpenUniErr e \<Rightarrow> Some (SendConnectionError e)
      | WriteErr (WriteStopped code) \<Rightarrow> Some (StreamStopped code)
      | WriteErr (WriteConnectionLost e) \<Rightarrow> Some (SendConnectionError e)
      | WriteErr WriteClosedStream \<Rightarrow> Some StreamClosed
      | WriteErr WriteZeroRttRejected \<Rightarrow> Some ZeroRttRejected)"

fun worker_error_of :: "send_tx_error \<Rightarrow> tx_sender_worker_error option" where
  "worker_error_of (SendConnectionError e) = Some (ConnectionLost e)"
| "worker_error_of (StreamStopped _) = None"
| "worker_error_of StreamClosed = None"
| "worker_error_of ZeroRttRejected = Some WorkerZeroRttRejected"

text \<open>\<open>process_tx\<close> returns the error that ends the worker, if there is one, and what it sends to the outlet.\<close>

definition process_tx ::
  "uni_outcome \<Rightarrow> gateway_transaction \<Rightarrow> nat \<Rightarrow> worker
     \<Rightarrow> worker \<times> gateway_response list \<times> tx_sender_worker_error option" where
  "process_tx answer tx attempt w =
     (case send_tx answer of
        None \<Rightarrow>
          (w, [TxSent \<lparr>ts_remote_peer_identity = w_remote_peer w, ts_remote_peer_addr = w_remote_addr w,
                       ts_tx_sig = gt_tx_sig tx\<rparr>], None)
      | Some e \<Rightarrow>
          (if attempt \<ge> w_max_tx_attempt w
           then (w, [TxFailed \<lparr>tf_remote_peer_identity = w_remote_peer w, tf_remote_peer_addr = w_remote_addr w,
                               tf_tx_sig = gt_tx_sig tx, tf_failure_reason = e\<rparr>], worker_error_of e)
           else (w\<lparr>w_tx_queue := w_tx_queue w @ [(tx, attempt + 1)]\<rparr>, [], worker_error_of e)))"

text \<open>The attempts the queue may still make; it falls with every call of \<open>process_tx\<close>.\<close>

definition queue_budget :: "nat \<Rightarrow> tx_queue \<Rightarrow> nat" where
  "queue_budget max_attempt q = (\<Sum>(tx, attempt)\<leftarrow>q. Suc (max_attempt - attempt))"

lemma process_tx_fields:
  assumes "process_tx answer tx attempt w = (w', out, err)"
  shows "w_max_tx_attempt w' = w_max_tx_attempt w" and "w_remote_peer w' = w_remote_peer w"
    and "w_remote_addr w' = w_remote_addr w" and "w_incoming w' = w_incoming w"
    and "w_senders_open w' = w_senders_open w" and "w_cancel w' = w_cancel w"
    and "queue_budget (w_max_tx_attempt w) (w_tx_queue w') + (if attempt < w_max_tx_attempt w then 0 else 1)
           \<le> queue_budget (w_max_tx_attempt w) (w_tx_queue w) + (w_max_tx_attempt w - attempt) +
             (if attempt < w_max_tx_attempt w then 0 else 1)"
  using assms by (auto simp: process_tx_def queue_budget_def split: option.splits if_splits)

function try_process_tx_in_queue ::
  "(nat \<Rightarrow> uni_outcome) \<Rightarrow> worker \<Rightarrow> worker \<times> gateway_response list \<times> tx_sender_worker_error option" where
  "try_process_tx_in_queue answers w =
     (case w_tx_queue w of
        [] \<Rightarrow> (w, [], None)
      | (tx, attempt) # rest \<Rightarrow>
          (case process_tx (answers 0) tx attempt (w\<lparr>w_tx_queue := rest\<rparr>) of
             (w', out, Some e) \<Rightarrow> (w', out, Some e)
           | (w', out, None) \<Rightarrow>
               (case try_process_tx_in_queue (\<lambda>k. answers (Suc k)) w' of
                  (w'', out', err) \<Rightarrow> (w'', out @ out', err))))"
  by pat_completeness auto
termination
proof (relation "measure (\<lambda>(answers, w). queue_budget (w_max_tx_attempt w) (w_tx_queue w))")
  fix answers :: "nat \<Rightarrow> uni_outcome" and w :: worker and e rest tx attempt w' q out
    and err :: "tx_sender_worker_error option"
  assume "w_tx_queue w = e # rest" "(tx, attempt) = e"
    and "(w', q) = process_tx (answers 0) tx attempt (w\<lparr>w_tx_queue := rest\<rparr>)" "(out, err) = q" "err = None"
  then have queue: "w_tx_queue w = (tx, attempt) # rest"
    and "process_tx (answers 0) tx attempt (w\<lparr>w_tx_queue := rest\<rparr>) = (w', out, err)" by auto
  note f = process_tx_fields [OF this(2)]
  show "((\<lambda>k. answers (Suc k), w'), answers, w) \<in>
      measure (\<lambda>(answers, w). queue_budget (w_max_tx_attempt w) (w_tx_queue w))"
    using f(1,7) by (simp add: queue queue_budget_def split: if_splits)
qed simp

declare try_process_tx_in_queue.simps [simp del]

text \<open>
  One iteration of \<open>run\<close>. \<open>SelRecv\<close> resolves when a message is there or all senders are gone,
  \<open>SelCancel\<close> when the permit is there; otherwise the worker keeps waiting.
\<close>

datatype worker_select = SelRecv | SelClosed connection_error | SelCancel

datatype worker_task = Running worker | Finished tx_sender_worker_completed

definition completed :: "worker \<Rightarrow> tx_sender_worker_error option \<Rightarrow> bool \<Rightarrow> tx_sender_worker_completed" where
  "completed w err canceled =
     \<lparr>wc_err = err, wc_rx = w_incoming w, wc_pending_tx = w_tx_queue w, wc_canceled = canceled\<rparr>"

definition worker_iteration ::
  "(nat \<Rightarrow> uni_outcome) \<Rightarrow> worker_select \<Rightarrow> worker \<Rightarrow> worker_task \<times> gateway_response list" where
  "worker_iteration answers sel w =
     (case try_process_tx_in_queue answers w of
        (w1, out, Some e) \<Rightarrow> (Finished (completed w1 (Some e) False), out)
      | (w1, out, None) \<Rightarrow>
          ((case sel of
              SelRecv \<Rightarrow>
                (case w_incoming w1 of
                   tx # rest \<Rightarrow> Running (w1\<lparr>w_incoming := rest, w_tx_queue := w_tx_queue w1 @ [(tx, 1)]\<rparr>)
                 | [] \<Rightarrow> if w_senders_open w1 then Running w1 else Finished (completed w1 None False))
            | SelClosed e \<Rightarrow> Finished (completed w1 (Some (ConnectionLost e)) False)
            | SelCancel \<Rightarrow> if w_cancel w1 then Finished (completed w1 None True) else Running w1), out))"

section \<open>Nothing is lost in a worker\<close>

definition queue_sigs :: "tx_queue \<Rightarrow> signature multiset" where
  "queue_sigs q = mset (map (gt_tx_sig \<circ> fst) q)"

fun response_sigs :: "gateway_response \<Rightarrow> signature multiset" where
  "response_sigs (TxSent r) = {#ts_tx_sig r#}"
| "response_sigs (TxFailed r) = {#tf_tx_sig r#}"
| "response_sigs (TxDrop d) = queue_sigs (td_dropped_gateway_tx_vec d)"

definition responses_sigs :: "gateway_response list \<Rightarrow> signature multiset" where
  "responses_sigs rs = (\<Sum>r\<leftarrow>rs. response_sigs r)"

definition incoming_sigs :: "gateway_transaction list \<Rightarrow> signature multiset" where
  "incoming_sigs txs = mset (map gt_tx_sig txs)"

fun task_sigs :: "worker_task \<Rightarrow> signature multiset" where
  "task_sigs (Running w) = incoming_sigs (w_incoming w) + queue_sigs (w_tx_queue w)"
| "task_sigs (Finished c) = incoming_sigs (wc_rx c) + queue_sigs (wc_pending_tx c)"

lemma sigs_simps [simp]:
  "queue_sigs [] = {#}" "queue_sigs (e # q) = add_mset (gt_tx_sig (fst e)) (queue_sigs q)"
  "queue_sigs (q @ q') = queue_sigs q + queue_sigs q'"
  "responses_sigs [] = {#}" "responses_sigs (r # rs) = response_sigs r + responses_sigs rs"
  "responses_sigs (rs @ rs') = responses_sigs rs + responses_sigs rs'"
  "incoming_sigs [] = {#}" "incoming_sigs (tx # txs) = add_mset (gt_tx_sig tx) (incoming_sigs txs)"
  "incoming_sigs (txs @ txs') = incoming_sigs txs + incoming_sigs txs'"
  by (simp_all add: queue_sigs_def responses_sigs_def incoming_sigs_def)

lemma process_tx_sigs:
  "process_tx answer tx attempt w = (w', out, err) \<Longrightarrow>
   add_mset (gt_tx_sig tx) (queue_sigs (w_tx_queue w)) = responses_sigs out + queue_sigs (w_tx_queue w')"
  by (auto simp: process_tx_def split: option.splits if_splits)

text \<open>The loop's rule: a relation that holds of no iteration and is extended by one, holds of the loop.\<close>

lemma try_process_rule:
  assumes "try_process_tx_in_queue answers w = (w', out, err)"
    and base: "\<And>w. R w w []"
    and step: "\<And>answer w tx attempt rest w1 out1 err1 w2 out2. w_tx_queue w = (tx, attempt) # rest \<Longrightarrow>
      process_tx answer tx attempt (w\<lparr>w_tx_queue := rest\<rparr>) = (w1, out1, err1) \<Longrightarrow> R w1 w2 out2 \<Longrightarrow>
      R w w2 (out1 @ out2)"
  shows "R w w' out"
  using assms(1)
proof (induction answers w arbitrary: w' out err rule: try_process_tx_in_queue.induct)
  case (1 answers w)
  note unfold = try_process_tx_in_queue.simps [of answers w]
  show ?case
  proof (cases "w_tx_queue w")
    case Nil
    then show ?thesis using "1.prems" base by (simp add: unfold)
  next
    case (Cons e rest)
    obtain tx attempt where e: "e = (tx, attempt)" by fastforce
    obtain w1 out1 err1 where p: "process_tx (answers 0) tx attempt (w\<lparr>w_tx_queue := rest\<rparr>) = (w1, out1, err1)"
      by (metis prod_cases3)
    show ?thesis
    proof (cases err1)
      case (Some x)
      then have "w' = w1" "out = out1 @ []" using "1.prems" Cons e p by (simp_all add: unfold)
      then show ?thesis using step [OF _ p base] Cons e by simp
    next
      case None
      obtain w2 out2 err2 where rec: "try_process_tx_in_queue (\<lambda>k. answers (Suc k)) w1 = (w2, out2, err2)"
        by (metis prod_cases3)
      then have eqs: "w' = w2" "out = out1 @ out2" using "1.prems" Cons e p None by (simp_all add: unfold)
      have "R w1 w2 out2" by (rule "1.IH" [OF Cons e [symmetric] p [symmetric] refl None rec])
      then show ?thesis unfolding eqs using step [OF _ p] Cons e by blast
    qed
  qed
qed

lemma try_process_sigs:
  "try_process_tx_in_queue answers w = (w', out, err) \<Longrightarrow>
   queue_sigs (w_tx_queue w) = responses_sigs out + queue_sigs (w_tx_queue w')"
  by (erule try_process_rule) (auto dest!: process_tx_sigs)

lemma try_process_fields:
  assumes "try_process_tx_in_queue answers w = (w', out, err)"
  shows "w_remote_peer w' = w_remote_peer w \<and> w_remote_addr w' = w_remote_addr w \<and> w_incoming w' = w_incoming w \<and>
    w_senders_open w' = w_senders_open w \<and> w_cancel w' = w_cancel w \<and> w_max_tx_attempt w' = w_max_tx_attempt w"
proof (rule try_process_rule [OF assms], goal_cases)
  case (2 answer w tx attempt rest w1 out1 err1 w2 out2)
  then show ?case using process_tx_fields(1-6) [OF 2(2)] by simp
qed simp

lemma worker_iteration_sigs:
  assumes "worker_iteration answers sel w = (t, out)"
  shows "task_sigs (Running w) = task_sigs t + responses_sigs out"
proof -
  obtain w1 out1 err where p: "try_process_tx_in_queue answers w = (w1, out1, err)" by (metis prod_cases3)
  note sigs = try_process_sigs [OF p] and inc = try_process_fields [OF p]
  show ?thesis
    using assms sigs inc
    by (cases err; cases sel)
       (auto simp: worker_iteration_def p completed_def split: list.splits if_splits)
qed

text \<open>
  C10. A worker loses no transaction and reports none twice: whatever the connection answers and whichever
  branch of the \<open>select!\<close> resolves, the transactions it held before an iteration (in its channel and its queue)
  are, with their multiplicities, those it holds afterwards or hands over in its completion, plus
  those it reported as sent or failed.
\<close>

theorem worker_loses_nothing:
  assumes "worker_iteration answers sel w = (t, out)"
  shows "incoming_sigs (w_incoming w) + queue_sigs (w_tx_queue w) = task_sigs t + responses_sigs out"
  using worker_iteration_sigs [OF assms] by simp

abbreviation ex_gtx :: "nat \<Rightarrow> gateway_transaction" where
  "ex_gtx n \<equiv> \<lparr>gt_tx_sig = Signature n, gt_wire = [], gt_remote_peer = Pubkey 1\<rparr>"

abbreviation ex_worker :: worker where
  "ex_worker \<equiv> \<lparr>w_remote_peer = Pubkey 1, w_remote_addr = SocketAddr 1 8000, w_incoming = [ex_gtx 3],
     w_senders_open = True, w_tx_queue = [(ex_gtx 1, 3), (ex_gtx 2, 1)], w_cancel = False, w_max_tx_attempt = 3\<rparr>"

lemmas worker_eval = worker_iteration_def try_process_tx_in_queue.simps process_tx_def send_tx_def completed_def

lemma ex_worker_iteration:
  "worker_iteration (\<lambda>_. OpenUniErr TimedOut) SelRecv ex_worker =
     (Finished \<lparr>wc_err = Some (ConnectionLost TimedOut), wc_rx = [ex_gtx 3], wc_pending_tx = [(ex_gtx 2, 1)],
        wc_canceled = False\<rparr>,
      [TxFailed \<lparr>tf_remote_peer_identity = Pubkey 1, tf_remote_peer_addr = SocketAddr 1 8000, tf_tx_sig = Signature 1,
         tf_failure_reason = SendConnectionError TimedOut\<rparr>])"
  by (simp add: worker_eval)

theorem worker_loses_nothing_witness:
  "{#Signature 3, Signature 1, Signature 2#} = {#Signature 3, Signature 2#} + {#Signature 1#}"
  using worker_loses_nothing [OF ex_worker_iteration] by simp

section \<open>Order and number of attempts\<close>

lemma try_process_all_sent:
  assumes "\<And>k. k < length (w_tx_queue w) \<Longrightarrow> answers k = WriteOk"
  shows "try_process_tx_in_queue answers w =
    (w\<lparr>w_tx_queue := []\<rparr>, map (\<lambda>(tx, _). TxSent \<lparr>ts_remote_peer_identity = w_remote_peer w,
       ts_remote_peer_addr = w_remote_addr w, ts_tx_sig = gt_tx_sig tx\<rparr>) (w_tx_queue w), None)"
  using assms
proof (induction "w_tx_queue w" arbitrary: w answers)
  case Nil
  have "w\<lparr>w_tx_queue := []\<rparr> = w" using Nil(1) by simp
  then show ?case using Nil(1) by (simp add: try_process_tx_in_queue.simps)
next
  case (Cons e rest)
  obtain tx attempt where e: "e = (tx, attempt)" by fastforce
  have "answers 0 = WriteOk" "\<And>k. k < length rest \<Longrightarrow> answers (Suc k) = WriteOk"
    using Cons.prems Cons.hyps(2) by (metis length_Cons zero_less_Suc, metis length_Cons Suc_less_eq)
  then show ?case
    using Cons.hyps(1) [of "w\<lparr>w_tx_queue := rest\<rparr>" "\<lambda>k. answers (Suc k)"] Cons.hyps(2) [symmetric]
    by (subst try_process_tx_in_queue.simps) (simp add: e process_tx_def send_tx_def)
qed

text \<open>
  Over a connection that accepts every stream the worker sends its queue in order, each transaction once,
  reports each as sent, and is then ready for the next message.
\<close>

theorem worker_sends_in_order:
  assumes "\<And>k. k < length (w_tx_queue w) \<Longrightarrow> answers k = WriteOk" and "w_incoming w = tx # rest"
  shows "worker_iteration answers SelRecv w =
    (Running (w\<lparr>w_incoming := rest, w_tx_queue := [(tx, 1)]\<rparr>),
     map (\<lambda>(tx, _). TxSent \<lparr>ts_remote_peer_identity = w_remote_peer w, ts_remote_peer_addr = w_remote_addr w,
       ts_tx_sig = gt_tx_sig tx\<rparr>) (w_tx_queue w))"
  by (simp add: worker_iteration_def try_process_all_sent [OF assms(1)] assms(2))

theorem worker_sends_in_order_witness:
  "snd (worker_iteration (\<lambda>_. WriteOk) SelRecv ex_worker) =
     map (\<lambda>n. TxSent \<lparr>ts_remote_peer_identity = Pubkey 1, ts_remote_peer_addr = SocketAddr 1 8000, ts_tx_sig = Signature n\<rparr>) [1, 2]"
  by (subst worker_sends_in_order [where tx = "ex_gtx 3" and rest = "[]"]) simp_all

lemma process_tx_budget:
  assumes "process_tx answer tx attempt (w\<lparr>w_tx_queue := rest\<rparr>) = (w', out, err)" and "w_tx_queue w = (tx, attempt) # rest"
  shows "queue_budget (w_max_tx_attempt w) (w_tx_queue w') < queue_budget (w_max_tx_attempt w) (w_tx_queue w)"
  using process_tx_fields(7) [OF assms(1)] by (simp add: assms(2) queue_budget_def split: if_splits)

lemma queue_budget_fresh:
  "m > 0 \<Longrightarrow> (\<And>tx a. (tx, a) \<in> set q \<Longrightarrow> a = 1) \<Longrightarrow> queue_budget m q = length q * m"
  by (induction q) (force simp: queue_budget_def)+

lemma try_process_cong:
  assumes "\<And>k. k < queue_budget (w_max_tx_attempt w) (w_tx_queue w) \<Longrightarrow> answers k = answers' k"
  shows "try_process_tx_in_queue answers w = try_process_tx_in_queue answers' w"
  using assms
proof (induction answers w arbitrary: answers' rule: try_process_tx_in_queue.induct)
  case (1 answers w)
  note unfold = try_process_tx_in_queue.simps [of answers w] try_process_tx_in_queue.simps [of answers' w]
  show ?case
  proof (cases "w_tx_queue w")
    case (Cons e rest)
    obtain tx attempt where e: "e = (tx, attempt)" by fastforce
    have same: "answers' 0 = answers 0"
      using "1.prems" [of 0] by (simp add: Cons e queue_budget_def)
    obtain w1 out1 err1 where p: "process_tx (answers 0) tx attempt (w\<lparr>w_tx_queue := rest\<rparr>) = (w1, out1, err1)"
      by (metis prod_cases3)
    have "err1 = None \<Longrightarrow> try_process_tx_in_queue (\<lambda>k. answers (Suc k)) w1 = try_process_tx_in_queue (\<lambda>k. answers' (Suc k)) w1"
    proof (rule "1.IH" [OF Cons e [symmetric] p [symmetric] refl])
      fix k assume "k < queue_budget (w_max_tx_attempt w1) (w_tx_queue w1)"
      then show "answers (Suc k) = answers' (Suc k)"
        using "1.prems" [of "Suc k"] process_tx_budget [OF p] Cons e process_tx_fields(1) [OF p] by simp
    qed
    then show ?thesis by (cases err1) (simp_all add: unfold Cons e p same)
  qed (simp add: unfold)
qed

text \<open>
  The worker gives up. Draining a queue of fresh transactions returns, and makes at most
  \<open>max_send_attempt\<close> attempts per transaction: the result depends on no answer of the connection beyond that number.
\<close>

theorem worker_attempts_bounded:
  assumes "w_max_tx_attempt w > 0" and "\<And>tx a. (tx, a) \<in> set (w_tx_queue w) \<Longrightarrow> a = 1"
    and "\<And>k. k < length (w_tx_queue w) * w_max_tx_attempt w \<Longrightarrow> answers k = answers' k"
  shows "try_process_tx_in_queue answers w = try_process_tx_in_queue answers' w"
  by (rule try_process_cong) (simp add: queue_budget_fresh [OF assms(1,2)] assms(3))

theorem worker_attempts_bounded_witness:
  "let w = ex_worker\<lparr>w_tx_queue := [(ex_gtx 1, 1)]\<rparr>
   in try_process_tx_in_queue (\<lambda>_. WriteErr WriteClosedStream) w =
      try_process_tx_in_queue (\<lambda>k. if k < 3 then WriteErr WriteClosedStream else WriteOk) w"
  unfolding Let_def by (rule worker_attempts_bounded) simp_all

end
