(* ===== verification/Jet_Fanout.thy ===== *)
theory Jet_Fanout
  imports Jet_Cluster Jet_Scheduler Jet_Worker
begin

text \<open>
  \<open>apps/jet/src/transactions.rs\<close>: \<open>TransactionFanout\<close>, which takes transactions from a scheduler, sends each to
  the upcoming leaders its policies allow and to the extra peers of the configuration, and keeps a transaction
  from being sent again while it is in flight.

  The record \<open>fanout\<close> is the struct, with its \<open>JoinSet\<close> as a map from task identifiers to the tasks' states and
  the channel to the gateway as the list \<open>fo_sink\<close> of everything sent on it. A task first asks the leader schedule
  and the policy store (\<open>send_plan\<close>) and then performs the actions of its plan one by one, since each send
  may wait for room in the channel; the steps of different tasks interleave freely with the messages of the loop.
  The policy store is the parameter \<open>is_allowed\<close>; its answers are fixed for the time of one task. What the
  Lewis handler is told is the list \<open>fo_lewis_log\<close>.

  The lemmas: the loop never panics; a task sends to exactly the allowed leaders and the remaining extra peers;
  between two responses for a transaction it is forwarded at most once; and two shortcomings, a transaction that is
  sent to nobody stays in flight for ever, and one sent to two leaders can be in flight twice.
\<close>

section \<open>Configuration and state\<close>

datatype fanout_config = Custom nat | SmartFanout

definition fanout_config_default :: fanout_config where
  "fanout_config_default = SmartFanout"

datatype send_transaction_error = GatewayClosed

definition always_allow :: "pubkey list \<Rightarrow> pubkey \<Rightarrow> bool" where
  "always_allow policies leader = True"

datatype send_action =
    SkipLeader signature pubkey slot "pubkey list"
  | SendTo gateway_transaction

datatype send_task =
    Spawned send_transaction_request
  | Sending signature "send_action list"
  | Returned "send_transaction_error + signature"

datatype lewis_report =
    ReportSkip signature pubkey slot "pubkey list"
  | ReportResponse gateway_response slot

record fanout =
  fo_sink :: "gateway_transaction list"
  fo_sink_open :: bool
  fo_send_set :: "(nat, send_task) hmap"
  fo_next_task :: nat
  fo_send_set_meta :: "(nat, signature) hmap"
  fo_inflight :: "signature set"
  fo_config :: fanout_config
  fo_lewis :: bool
  fo_lewis_log :: "lewis_report list"
  fo_extra_fwd :: "pubkey list"
  fo_running :: bool

definition fanout_new :: "fanout_config \<Rightarrow> pubkey list \<Rightarrow> bool \<Rightarrow> fanout" where
  "fanout_new config extra_fwd lewis =
     \<lparr>fo_sink = [], fo_sink_open = True, fo_send_set = [], fo_next_task = 0, fo_send_set_meta = [], fo_inflight = {},
      fo_config = config, fo_lewis = lewis, fo_lewis_log = [], fo_extra_fwd = extra_fwd, fo_running = True\<rparr>"

section \<open>The send task\<close>

fun fanout_count :: "fanout_config \<Rightarrow> slot \<Rightarrow> nat" where
  "fanout_count (Custom n) current_slot = max n 1"
| "fanout_count SmartFanout current_slot = (let reminder = current_slot mod 4 in if reminder < 2 then 1 else 2)"

definition gateway_tx :: "send_transaction_request \<Rightarrow> pubkey \<Rightarrow> gateway_transaction" where
  "gateway_tx tx dest = \<lparr>gt_tx_sig = str_signature tx, gt_wire = str_wire_transaction tx, gt_remote_peer = dest\<rparr>"

text \<open>The loop over the leaders: the actions and the mask of the leaders sent to.\<close>

fun plan_leaders ::
  "(pubkey list \<Rightarrow> pubkey \<Rightarrow> bool) \<Rightarrow> send_transaction_request \<Rightarrow> slot \<Rightarrow> pubkey list \<Rightarrow> send_action list \<times> bool list" where
  "plan_leaders is_allowed tx current_slot [] = ([], [])"
| "plan_leaders is_allowed tx current_slot (dest # rest) =
     (let (actions, sent_mask) = plan_leaders is_allowed tx current_slot rest
      in if \<not> is_allowed (str_policies tx) dest
         then (SkipLeader (str_signature tx) dest current_slot (str_policies tx) # actions, False # sent_mask)
         else (SendTo (gateway_tx tx dest) # actions, True # sent_mask))"

definition already_sent :: "pubkey list \<Rightarrow> bool list \<Rightarrow> pubkey \<Rightarrow> bool" where
  "already_sent next_leaders sent_mask extra =
     list_ex (\<lambda>(leader, sent). sent \<and> leader = extra) (zip next_leaders sent_mask)"

definition send_plan ::
  "fanout_config \<Rightarrow> pubkey list \<Rightarrow> (pubkey list \<Rightarrow> pubkey \<Rightarrow> bool) \<Rightarrow> slot \<Rightarrow> (nat \<Rightarrow> pubkey list)
     \<Rightarrow> send_transaction_request \<Rightarrow> send_action list" where
  "send_plan config extra_fwd is_allowed current_slot lookahead tx =
     (let next_leaders = lookahead (fanout_count config current_slot);
          (actions, sent_mask) = plan_leaders is_allowed tx current_slot next_leaders
      in actions @ map (\<lambda>extra. SendTo (gateway_tx tx extra))
                     (filter (\<lambda>extra. \<not> already_sent next_leaders sent_mask extra) extra_fwd))"

text \<open>One action of a task; sending on a closed channel ends it with an error.\<close>

definition set_send_task :: "nat \<Rightarrow> send_task \<Rightarrow> fanout \<Rightarrow> fanout" where
  "set_send_task i task s = s\<lparr>fo_send_set := hm_insert i task (fo_send_set s)\<rparr>"

fun perform :: "nat \<Rightarrow> send_task \<Rightarrow> fanout \<Rightarrow> fanout" where
  "perform i (Sending sig []) s = set_send_task i (Returned (Inr sig)) s"
| "perform i (Sending sig (SkipLeader sg dest current_slot policies # actions)) s =
     set_send_task i (Sending sig actions)
       (if fo_lewis s then s\<lparr>fo_lewis_log := fo_lewis_log s @ [ReportSkip sg dest current_slot policies]\<rparr> else s)"
| "perform i (Sending sig (SendTo gtx # actions)) s =
     (if fo_sink_open s then set_send_task i (Sending sig actions) (s\<lparr>fo_sink := fo_sink s @ [gtx]\<rparr>)
      else set_send_task i (Returned (Inl GatewayClosed)) s)"
| "perform i task s = s"

section \<open>The loop\<close>

definition fwd_tx :: "send_transaction_request \<Rightarrow> fanout \<Rightarrow> fanout" where
  "fwd_tx tx s =
     (if str_signature tx \<in> fo_inflight s then s
      else s\<lparr>fo_inflight := insert (str_signature tx) (fo_inflight s),
             fo_send_set := hm_insert (fo_next_task s) (Spawned tx) (fo_send_set s),
             fo_send_set_meta := hm_insert (fo_next_task s) (str_signature tx) (fo_send_set_meta s),
             fo_next_task := fo_next_task s + 1\<rparr>)"

fun responded_sigs :: "gateway_response \<Rightarrow> signature list" where
  "responded_sigs (TxSent sent) = [ts_tx_sig sent]"
| "responded_sigs (TxFailed failed) = [tf_tx_sig failed]"
| "responded_sigs (TxDrop dropped) = map (\<lambda>(gw_tx, _). gt_tx_sig gw_tx) (td_dropped_gateway_tx_vec dropped)"

definition handle_gateway_response :: "gateway_response \<Rightarrow> slot \<Rightarrow> fanout \<Rightarrow> fanout" where
  "handle_gateway_response response current_slot s =
     (let s1 = (if fo_lewis s then s\<lparr>fo_lewis_log := fo_lewis_log s @ [ReportResponse response current_slot]\<rparr> else s)
      in s1\<lparr>fo_inflight := fold (\<lambda>sig inflight. inflight - {sig}) (responded_sigs response) (fo_inflight s1)\<rparr>)"

definition handle_transaction_sent_result :: "nat \<Rightarrow> send_transaction_error + signature \<Rightarrow> fanout \<Rightarrow> fanout res" where
  "handle_transaction_sent_result task_id result s =
     res_bind (expect ''unknown task id'' (hm_get (fo_send_set_meta s) task_id)) (\<lambda>signature.
       let s1 = s\<lparr>fo_send_set_meta := hm_remove task_id (fo_send_set_meta s)\<rparr>
       in case result of
            Inr signature2 \<Rightarrow> if signature = signature2 then Inr s1 else Inl (Panic ''task id mismatch'')
          | Inl GatewayClosed \<Rightarrow> Inr s1)"

text \<open>
  The events: the branches of the \<open>select!\<close>, the progress of the spawned tasks, and the gateway closing its end
  of the channel. A started task reads the cluster's state twice, for the slot and for the leaders.
\<close>

datatype fanout_event =
    Incoming send_transaction_request
  | IncomingClosed
  | Response gateway_response slot
  | ResponsesClosed
  | TaskStart nat slot cluster_inner "pubkey list \<Rightarrow> pubkey \<Rightarrow> bool"
  | TaskAction nat
  | TaskJoined nat
  | SinkClosed

fun fanout_step :: "fanout_event \<Rightarrow> fanout \<Rightarrow> fanout res" where
  "fanout_step (Incoming tx) s = Inr (if fo_running s then fwd_tx tx s else s)"
| "fanout_step IncomingClosed s = Inr (s\<lparr>fo_running := False\<rparr>)"
| "fanout_step (Response response current_slot) s =
     Inr (if fo_running s then handle_gateway_response response current_slot s else s)"
| "fanout_step ResponsesClosed s = Inr (s\<lparr>fo_running := False\<rparr>)"
| "fanout_step (TaskStart i current_slot inner is_allowed) s =
     Inr (case hm_get (fo_send_set s) i of
            Some (Spawned tx) \<Rightarrow>
              set_send_task i (Sending (str_signature tx)
                (send_plan (fo_config s) (fo_extra_fwd s) is_allowed current_slot (leader_lookahead inner) tx)) s
          | _ \<Rightarrow> s)"
| "fanout_step (TaskAction i) s =
     Inr (case hm_get (fo_send_set s) i of None \<Rightarrow> s | Some task \<Rightarrow> perform i task s)"
| "fanout_step (TaskJoined i) s =
     (case hm_get (fo_send_set s) i of
        Some (Returned result) \<Rightarrow>
          if fo_running s
          then handle_transaction_sent_result i result (s\<lparr>fo_send_set := hm_remove i (fo_send_set s)\<rparr>)
          else Inr s
      | _ \<Rightarrow> Inr s)"
| "fanout_step SinkClosed s = Inr (s\<lparr>fo_sink_open := False\<rparr>)"

fun fanout_run :: "fanout_event list \<Rightarrow> fanout \<Rightarrow> fanout res" where
  "fanout_run [] s = Inr s"
| "fanout_run (ev # evs) s = res_bind (fanout_step ev s) (fanout_run evs)"

section \<open>Where a transaction is sent\<close>

fun sends :: "send_action list \<Rightarrow> gateway_transaction list" where
  "sends [] = []"
| "sends (SendTo gtx # actions) = gtx # sends actions"
| "sends (SkipLeader _ _ _ _ # actions) = sends actions"

fun skipped :: "send_action list \<Rightarrow> pubkey list" where
  "skipped [] = []"
| "skipped (SendTo _ # actions) = skipped actions"
| "skipped (SkipLeader _ dest _ _ # actions) = dest # skipped actions"

lemma sends_append [simp]: "sends (as @ bs) = sends as @ sends bs"
  by (induction as rule: sends.induct) simp_all

lemma sends_map [simp]: "sends (map (\<lambda>x. SendTo (f x)) xs) = map f xs"
  by (induction xs) simp_all

lemma plan_leaders_sends:
  "sends (fst (plan_leaders is_allowed tx sl leaders)) = map (gateway_tx tx) (filter (is_allowed (str_policies tx)) leaders)"
  "snd (plan_leaders is_allowed tx sl leaders) = map (is_allowed (str_policies tx)) leaders"
  by (induction leaders) (simp_all add: case_prod_beta Let_def)

lemma already_sent_iff:
  "already_sent leaders (map P leaders) extra \<longleftrightarrow> P extra \<and> extra \<in> set leaders"
  by (induction leaders) (auto simp: already_sent_def)

lemma sends_send_plan:
  "sends (send_plan config extra_fwd is_allowed sl lookahead tx) =
     (let to = filter (is_allowed (str_policies tx)) (lookahead (fanout_count config sl))
      in map (gateway_tx tx) (to @ filter (\<lambda>extra. extra \<notin> set to) extra_fwd))"
proof -
  have "(\<lambda>extra. \<not> already_sent (lookahead n) (map P (lookahead n)) extra) = (\<lambda>extra. extra \<notin> set (filter P (lookahead n)))"
    for P n by (auto simp: already_sent_iff fun_eq_iff)
  then show ?thesis
    by (simp add: send_plan_def case_prod_beta Let_def plan_leaders_sends)
qed

lemma perform_all:
  assumes "hm_get (fo_send_set s) i = Some (Sending sig actions)" and "fo_sink_open s"
  shows "\<exists>s'. fanout_run (replicate (Suc (length actions)) (TaskAction i)) s = Inr s' \<and>
    fo_sink s' = fo_sink s @ sends actions \<and> hm_get (fo_send_set s') i = Some (Returned (Inr sig)) \<and>
    fo_inflight s' = fo_inflight s"
  using assms
proof (induction actions arbitrary: s rule: sends.induct)
  case 1
  then show ?case by (simp add: set_send_task_def)
next
  case (2 gtx actions)
  define s1 where "s1 = set_send_task i (Sending sig actions) (s\<lparr>fo_sink := fo_sink s @ [gtx]\<rparr>)"
  have "hm_get (fo_send_set s1) i = Some (Sending sig actions)" "fo_sink_open s1" "fo_inflight s1 = fo_inflight s"
    "fo_sink s1 = fo_sink s @ [gtx]"
    using 2 by (simp_all add: s1_def set_send_task_def)
  moreover have "fanout_step (TaskAction i) s = Inr s1" using 2 by (simp add: s1_def)
  ultimately show ?case using 2(1) [of s1] by simp
next
  case (3 sg dest sl pol actions)
  define s1 where "s1 = set_send_task i (Sending sig actions)
    (if fo_lewis s then s\<lparr>fo_lewis_log := fo_lewis_log s @ [ReportSkip sg dest sl pol]\<rparr> else s)"
  have "hm_get (fo_send_set s1) i = Some (Sending sig actions)" "fo_sink_open s1" "fo_inflight s1 = fo_inflight s"
    "fo_sink s1 = fo_sink s"
    using 3 by (simp_all add: s1_def set_send_task_def)
  moreover have "fanout_step (TaskAction i) s = Inr s1" using 3 by (simp add: s1_def)
  ultimately show ?case using 3(1) [of s1] by simp
qed

text \<open>
  A send task that runs to its end on an open channel sends the transaction to the leaders of the lookahead
  that the policies allow, in order, then to the extra peers that are not among them, and to nobody else; every
  copy carries the transaction's signature and wire bytes. It ends with success, after one action for each leader
  and each extra peer, and does not touch the set of transactions in flight.
\<close>

theorem fanout_sends_to_allowed_leaders:
  assumes "hm_get (fo_send_set s) i = Some (Spawned tx)" and "fo_sink_open s"
    and "plan = send_plan (fo_config s) (fo_extra_fwd s) is_allowed sl (leader_lookahead inner) tx"
    and "to = filter (is_allowed (str_policies tx)) (leader_lookahead inner (fanout_count (fo_config s) sl))"
  shows "\<exists>s'. fanout_run (TaskStart i sl inner is_allowed # replicate (Suc (length plan)) (TaskAction i)) s = Inr s' \<and>
    fo_sink s' = fo_sink s @ map (\<lambda>dest. \<lparr>gt_tx_sig = str_signature tx, gt_wire = str_wire_transaction tx, gt_remote_peer = dest\<rparr>)
                               (to @ filter (\<lambda>extra. extra \<notin> set to) (fo_extra_fwd s)) \<and>
    hm_get (fo_send_set s') i = Some (Returned (Inr (str_signature tx))) \<and> fo_inflight s' = fo_inflight s"
proof -
  define s1 where "s1 = set_send_task i (Sending (str_signature tx) plan) s"
  have s1: "hm_get (fo_send_set s1) i = Some (Sending (str_signature tx) plan)" "fo_sink_open s1"
    "fo_sink s1 = fo_sink s" "fo_inflight s1 = fo_inflight s"
    using assms(2) by (simp_all add: s1_def set_send_task_def)
  have "fanout_step (TaskStart i sl inner is_allowed) s = Inr s1" using assms(1,3) by (simp add: s1_def)
  moreover have "sends plan = map (gateway_tx tx) (to @ filter (\<lambda>extra. extra \<notin> set to) (fo_extra_fwd s))"
    unfolding assms(3,4) sends_send_plan Let_def ..
  ultimately show ?thesis using perform_all [OF s1(1,2)] s1(3,4) by (simp add: gateway_tx_def [abs_def])
qed

section \<open>The loop never panics\<close>

fun task_sig :: "send_task \<Rightarrow> signature option" where
  "task_sig (Spawned tx) = Some (str_signature tx)"
| "task_sig (Sending sig _) = Some sig"
| "task_sig (Returned (Inr sig)) = Some sig"
| "task_sig (Returned (Inl _)) = None"

definition fanout_inv :: "fanout \<Rightarrow> bool" where
  "fanout_inv s \<longleftrightarrow> hm_wf (fo_send_set s) \<and> (\<forall>i \<ge> fo_next_task s. hm_get (fo_send_set s) i = None) \<and>
     (\<forall>i task. hm_get (fo_send_set s) i = Some task \<longrightarrow>
        (\<exists>sig. hm_get (fo_send_set_meta s) i = Some sig \<and> task_sig task \<in> {None, Some sig}))"

lemma fanout_invD:
  assumes "fanout_inv s"
  shows "hm_wf (fo_send_set s)" and "hm_get (fo_send_set s) (fo_next_task s) = None"
  using assms by (auto simp: fanout_inv_def)

lemma fanout_inv_meta:
  assumes "fanout_inv s" and "hm_get (fo_send_set s) i = Some task"
  shows "\<exists>sig. hm_get (fo_send_set_meta s) i = Some sig \<and> task_sig task \<in> {None, Some sig}"
  using assms by (auto simp: fanout_inv_def)

lemma fanout_inv_frame:
  assumes "fanout_inv s" and "fo_send_set s' = fo_send_set s" and "fo_send_set_meta s' = fo_send_set_meta s"
    and "fo_next_task s' = fo_next_task s"
  shows "fanout_inv s'"
  using assms by (simp add: fanout_inv_def)

lemma fanout_new_inv: "fanout_inv (fanout_new config extra lewis)"
  by (simp add: fanout_inv_def fanout_new_def)

lemma fwd_tx_inv: "fanout_inv s \<Longrightarrow> fanout_inv (fwd_tx tx s)"
  by (auto simp: fanout_inv_def fwd_tx_def)

lemma set_send_task_inv:
  assumes "fanout_inv s" and "hm_get (fo_send_set s) i = Some task" and "task_sig task' \<in> {None, task_sig task}"
  shows "fanout_inv (set_send_task i task' s)"
proof -
  obtain sig where "hm_get (fo_send_set_meta s) i = Some sig" "task_sig task' \<in> {None, Some sig}"
    using fanout_inv_meta [OF assms(1,2)] assms(3) by auto
  moreover have "\<not> fo_next_task s \<le> i" using assms(1,2) by (auto simp: fanout_inv_def)
  ultimately show ?thesis using assms(1) by (auto simp: fanout_inv_def set_send_task_def)
qed

lemma perform_inv:
  assumes "fanout_inv s" and "hm_get (fo_send_set s) i = Some task"
  shows "fanout_inv (perform i task s)"
  using assms
proof (induction i task s rule: perform.induct)
  case (2 i sig sg dest sl pol actions s)
  show ?case
    unfolding perform.simps using 2(2)
    by (intro set_send_task_inv [where task = "Sending sig (SkipLeader sg dest sl pol # actions)"]
        fanout_inv_frame [OF 2(1)]) simp_all
next
  case (3 i sig gtx actions s)
  have "fanout_inv (s\<lparr>fo_sink := fo_sink s @ [gtx]\<rparr>)" by (rule fanout_inv_frame [OF 3(1)]) simp_all
  then show ?case using 3 by (auto intro: set_send_task_inv [where task = "Sending sig (SendTo gtx # actions)"])
qed (auto intro: set_send_task_inv)

lemma joined_inv:
  assumes "fanout_inv s" and "hm_get (fo_send_set s) i = Some (Returned result)"
  shows "\<exists>s'. handle_transaction_sent_result i result (s\<lparr>fo_send_set := hm_remove i (fo_send_set s)\<rparr>) = Inr s' \<and>
    fanout_inv s' \<and> fo_send_set s' = hm_remove i (fo_send_set s) \<and> fo_sink s' = fo_sink s \<and>
    fo_inflight s' = fo_inflight s \<and> fo_config s' = fo_config s \<and> fo_extra_fwd s' = fo_extra_fwd s"
proof -
  obtain sig where sig: "hm_get (fo_send_set_meta s) i = Some sig" "task_sig (Returned result) \<in> {None, Some sig}"
    using fanout_inv_meta [OF assms] by auto
  define s' where "s' = s\<lparr>fo_send_set := hm_remove i (fo_send_set s), fo_send_set_meta := hm_remove i (fo_send_set_meta s)\<rparr>"
  have "handle_transaction_sent_result i result (s\<lparr>fo_send_set := hm_remove i (fo_send_set s)\<rparr>) = Inr s'"
    using sig by (cases result) (auto simp: handle_transaction_sent_result_def s'_def Let_def split: send_transaction_error.split)
  moreover have "fanout_inv s'" using assms(1) by (auto simp: fanout_inv_def s'_def)
  ultimately show ?thesis by (auto simp: s'_def)
qed

lemma handle_gateway_response_fields [simp]:
  "fo_send_set (handle_gateway_response r sl s) = fo_send_set s"
  "fo_send_set_meta (handle_gateway_response r sl s) = fo_send_set_meta s"
  "fo_next_task (handle_gateway_response r sl s) = fo_next_task s"
  "fo_sink (handle_gateway_response r sl s) = fo_sink s"
  "fo_config (handle_gateway_response r sl s) = fo_config s"
  "fo_extra_fwd (handle_gateway_response r sl s) = fo_extra_fwd s"
  by (simp_all add: handle_gateway_response_def Let_def)

lemma fanout_step_inv [inv_intros]:
  assumes "fanout_inv s"
  shows "\<exists>s'. fanout_step ev s = Inr s' \<and> fanout_inv s'"
proof (cases ev)
  case (Incoming tx)
  then show ?thesis using assms by (simp add: fwd_tx_inv)
next
  case (Response r sl)
  then show ?thesis using assms fanout_inv_frame [OF assms, of "handle_gateway_response r sl s"] by simp
next
  case (TaskStart i sl inner is_allowed)
  then show ?thesis using assms by (auto intro: set_send_task_inv split: option.split send_task.split)
next
  case (TaskAction i)
  then show ?thesis using assms by (auto intro: perform_inv split: option.split)
next
  case (TaskJoined i)
  then show ?thesis using assms joined_inv [OF assms, of i] by (auto split: option.split send_task.split)
qed (auto intro: fanout_inv_frame [OF assms])

lemma fanout_run_inv: "fanout_inv s \<Longrightarrow> \<exists>s'. fanout_run evs s = Inr s' \<and> fanout_inv s'"
proof (induction evs arbitrary: s)
  case (Cons ev evs)
  then show ?case using fanout_step_inv [OF Cons.prems, of ev] by fastforce
qed simp

text \<open>
  For every configuration and every order of messages and task steps the fanout never panics: the result of
  a joined task always belongs to a known task and carries its signature.
\<close>

theorem fanout_never_panics:
  "\<exists>s. fanout_run evs (fanout_new config extra_fwd lewis) = Inr s"
  using fanout_run_inv [OF fanout_new_inv] by blast

section \<open>How often a transaction is forwarded\<close>

definition copies :: "signature \<Rightarrow> gateway_transaction list \<Rightarrow> nat" where
  "copies sig gtxs = length (filter (\<lambda>gtx. gt_tx_sig gtx = sig) gtxs)"

definition max_copies :: "fanout_config \<Rightarrow> pubkey list \<Rightarrow> nat" where
  "max_copies config extra_fwd = (case config of Custom n \<Rightarrow> max n 1 | SmartFanout \<Rightarrow> 2) + 1 + length extra_fwd"

fun responses_for :: "signature \<Rightarrow> fanout_event list \<Rightarrow> nat" where
  "responses_for sig [] = 0"
| "responses_for sig (Response r sl # evs) = (if sig \<in> set (responded_sigs r) then 1 else 0) + responses_for sig evs"
| "responses_for sig (_ # evs) = responses_for sig evs"

fun incoming_for :: "signature \<Rightarrow> fanout_event list \<Rightarrow> nat" where
  "incoming_for sig [] = 0"
| "incoming_for sig (Incoming tx # evs) = (if str_signature tx = sig then 1 else 0) + incoming_for sig evs"
| "incoming_for sig (_ # evs) = incoming_for sig evs"

text \<open>The copies a task may still send, with \<open>b\<close> for a task that has no plan yet.\<close>

fun task_budget :: "nat \<Rightarrow> signature \<Rightarrow> send_task \<Rightarrow> nat" where
  "task_budget b sig (Spawned tx) = (if str_signature tx = sig then b else 0)"
| "task_budget b sig (Sending _ actions) = copies sig (sends actions)"
| "task_budget b sig (Returned _) = 0"

definition potential :: "nat \<Rightarrow> signature \<Rightarrow> fanout \<Rightarrow> nat" where
  "potential b sig s = copies sig (fo_sink s) + hm_sum (task_budget b sig) (fo_send_set s)"

definition flight_credit :: "nat \<Rightarrow> signature \<Rightarrow> fanout \<Rightarrow> nat" where
  "flight_credit b sig s = (if sig \<in> fo_inflight s then b else 0)"

lemma copies_simps [simp]:
  "copies sig [] = 0"
  "copies sig (gtx # gtxs) = (if gt_tx_sig gtx = sig then 1 else 0) + copies sig gtxs"
  "copies sig (xs @ ys) = copies sig xs + copies sig ys"
  by (simp_all add: copies_def)

lemma copies_gateway_tx [simp]: "copies sig (map (gateway_tx tx) ps) = (if str_signature tx = sig then length ps else 0)"
  by (induction ps) (simp_all add: gateway_tx_def)

lemma fanout_count_bound: "fanout_count config sl \<le> (case config of Custom n \<Rightarrow> max n 1 | SmartFanout \<Rightarrow> 2)"
  by (cases config) (simp_all add: Let_def)

lemma copies_send_plan:
  "copies sig (sends (send_plan config extra is_allowed sl (leader_lookahead inner) tx)) \<le>
     (if str_signature tx = sig then max_copies config extra else 0)"
proof -
  let ?to = "filter (is_allowed (str_policies tx)) (leader_lookahead inner (fanout_count config sl))"
  have "length ?to \<le> Suc (fanout_count config sl)" by (rule cluster_schedule.allowed_bounded)
  moreover have "length (filter (\<lambda>e. e \<notin> set ?to) extra) \<le> length extra" by (rule length_filter_le)
  ultimately have "length (?to @ filter (\<lambda>e. e \<notin> set ?to) extra) \<le> max_copies config extra"
    using fanout_count_bound [of config sl] unfolding max_copies_def length_append by linarith
  then show ?thesis unfolding sends_send_plan Let_def copies_gateway_tx by simp
qed

lemma potential_set_task:
  assumes "hm_wf (fo_send_set s)" and "hm_get (fo_send_set s) i = Some task"
  shows "potential b sig (set_send_task i task' s) + task_budget b sig task = potential b sig s + task_budget b sig task'"
  using hm_sum_insert [OF assms(1), of "task_budget b sig" i task'] assms(2)
  by (simp add: potential_def set_send_task_def)

lemma potential_sink:
  "potential b sig (s\<lparr>fo_sink := fo_sink s @ [gtx]\<rparr>) = potential b sig s + (if gt_tx_sig gtx = sig then 1 else 0)"
  by (simp add: potential_def)

lemma potential_log: "potential b sig (s\<lparr>fo_lewis_log := l\<rparr>) = potential b sig s"
  by (simp add: potential_def)

lemma perform_potential:
  assumes "hm_wf (fo_send_set s)" and "hm_get (fo_send_set s) i = Some task"
  shows "potential b sig (perform i task s) \<le> potential b sig s"
  using assms
proof (induction i task s rule: perform.induct)
  case (1 i sg s)
  then show ?case using potential_set_task [OF 1, of b sig "Returned (Inr sg)"] by simp
next
  case (2 i sg' sg dest sl pol actions s)
  then show ?case
    using potential_set_task [of "s\<lparr>fo_lewis_log := fo_lewis_log s @ [ReportSkip sg dest sl pol]\<rparr>" i _ b sig "Sending sg' actions"]
      potential_set_task [OF 2, of b sig "Sending sg' actions"]
    by (simp add: potential_log)
next
  case (3 i sg gtx actions s)
  then show ?case
    using potential_set_task [of "s\<lparr>fo_sink := fo_sink s @ [gtx]\<rparr>" i _ b sig "Sending sg actions"]
      potential_set_task [OF 3, of b sig "Returned (Inl GatewayClosed)"]
    by (simp add: potential_sink)
qed simp_all

lemma perform_fields [simp]:
  "fo_inflight (perform i task s) = fo_inflight s" "fo_config (perform i task s) = fo_config s"
  "fo_extra_fwd (perform i task s) = fo_extra_fwd s"
  by (induction i task s rule: perform.induct) (simp_all add: set_send_task_def)

lemma fold_remove_set: "fold (\<lambda>x A. A - {x}) xs A = A - set xs"
  by (induction xs arbitrary: A) auto

lemma handle_gateway_response_inflight [simp]:
  "fo_inflight (handle_gateway_response r sl s) = fo_inflight s - set (responded_sigs r)"
  by (simp add: handle_gateway_response_def Let_def fold_remove_set)

lemma fwd_tx_potential:
  assumes "fanout_inv s"
  shows "potential b sig (fwd_tx tx s) + flight_credit b sig s = potential b sig s + flight_credit b sig (fwd_tx tx s)"
    and "potential b sig (fwd_tx tx s) \<le> potential b sig s + (if str_signature tx = sig then b else 0)"
  using fanout_invD(2) [OF assms]
  by (auto simp: fwd_tx_def potential_def flight_credit_def hm_sum_insert_new)

text \<open>Every step keeps the copies sent and still to be sent within the credit of being in flight and of the responses.\<close>

lemma fanout_step_potential:
  assumes "fanout_inv s" and "fanout_step ev s = Inr s'" and "b = max_copies (fo_config s) (fo_extra_fwd s)"
  shows "potential b sig s' + flight_credit b sig s \<le> potential b sig s + flight_credit b sig s' + responses_for sig [ev] * b"
    and "potential b sig s' \<le> potential b sig s + incoming_for sig [ev] * b"
    and "max_copies (fo_config s') (fo_extra_fwd s') = b"
proof -
  note wf = fanout_invD(1) [OF assms(1)]
  have "potential b sig s' + flight_credit b sig s \<le> potential b sig s + flight_credit b sig s' + responses_for sig [ev] * b \<and>
      potential b sig s' \<le> potential b sig s + incoming_for sig [ev] * b \<and>
      fo_config s' = fo_config s \<and> fo_extra_fwd s' = fo_extra_fwd s"
  proof (cases ev)
    case (Incoming tx)
    then have "s' = s \<or> s' = fwd_tx tx s" using assms(2) by (auto split: if_splits)
    moreover have "fo_config (fwd_tx tx s) = fo_config s \<and> fo_extra_fwd (fwd_tx tx s) = fo_extra_fwd s"
      by (simp add: fwd_tx_def)
    ultimately show ?thesis using fwd_tx_potential [OF assms(1), of b sig tx] Incoming by (auto split: if_splits)
  next
    case (Response r sl)
    then show ?thesis using assms(2) by (auto simp: potential_def flight_credit_def split: if_splits)
  next
    case (TaskStart i sl inner is_allowed)
    show ?thesis
    proof (cases "\<exists>tx. hm_get (fo_send_set s) i = Some (Spawned tx)")
      case True
      then obtain tx where tx: "hm_get (fo_send_set s) i = Some (Spawned tx)" by blast
      let ?plan = "send_plan (fo_config s) (fo_extra_fwd s) is_allowed sl (leader_lookahead inner) tx"
      have "s' = set_send_task i (Sending (str_signature tx) ?plan) s" using TaskStart tx assms(2) by simp
      then show ?thesis
        using potential_set_task [OF wf tx, of b sig "Sending (str_signature tx) ?plan"] TaskStart
          copies_send_plan [of sig "fo_config s" "fo_extra_fwd s" is_allowed sl inner tx] assms(3)
        by (auto simp: set_send_task_def flight_credit_def split: if_splits)
    next
      case False
      then have "s' = s" using TaskStart assms(2) by (auto split: option.splits send_task.splits)
      then show ?thesis by simp
    qed
  next
    case (TaskAction i)
    then show ?thesis
      using assms(2) perform_potential [OF wf, of i _ b sig] by (auto simp: flight_credit_def split: option.splits)
  next
    case (TaskJoined i)
    show ?thesis
    proof (cases "fo_running s \<and> (\<exists>result. hm_get (fo_send_set s) i = Some (Returned result))")
      case True
      then obtain result where r: "hm_get (fo_send_set s) i = Some (Returned result)" by blast
      then show ?thesis
        using joined_inv [OF assms(1) r] True TaskJoined assms(2) hm_sum_remove [OF wf, of "task_budget b sig" i]
        by (auto simp: potential_def flight_credit_def)
    next
      case False
      then have "s' = s" using TaskJoined assms(2) by (auto split: option.splits send_task.splits)
      then show ?thesis by simp
    qed
  qed (use assms(2) in \<open>auto simp: potential_def flight_credit_def\<close>)
  then show "potential b sig s' + flight_credit b sig s \<le> potential b sig s + flight_credit b sig s' + responses_for sig [ev] * b"
    and "potential b sig s' \<le> potential b sig s + incoming_for sig [ev] * b"
    and "max_copies (fo_config s') (fo_extra_fwd s') = b" using assms(3) by simp_all
qed

lemma fanout_step_config:
  assumes "fanout_inv s" and "fanout_step ev s = Inr s'"
  shows "fo_config s' = fo_config s \<and> fo_extra_fwd s' = fo_extra_fwd s"
proof (cases ev)
  case (TaskJoined i)
  then show ?thesis
    using assms(2) joined_inv [OF assms(1), of i] by (auto split: option.splits send_task.splits if_splits)
qed (use assms(2) in \<open>auto simp: fwd_tx_def set_send_task_def split: option.splits send_task.splits\<close>)

lemma responses_for_Cons: "responses_for sig (ev # evs) = responses_for sig [ev] + responses_for sig evs"
  by (cases ev) simp_all

lemma fanout_run_potential:
  assumes "fanout_inv s" and "fanout_run evs s = Inr s'" and "b = max_copies (fo_config s) (fo_extra_fwd s)"
  shows "potential b sig s' + flight_credit b sig s \<le> potential b sig s + flight_credit b sig s' + responses_for sig evs * b"
  using assms
proof (induction evs arbitrary: s)
  case (Cons ev evs)
  obtain s1 where s1: "fanout_step ev s = Inr s1" "fanout_run evs s1 = Inr s'" using Cons.prems(2) by auto
  have inv: "fanout_inv s1" using fanout_step_inv [OF Cons.prems(1), of ev] s1(1) by simp
  note step = fanout_step_potential [OF Cons.prems(1) s1(1) Cons.prems(3)]
  show ?case
    using Cons.IH [OF inv s1(2) step(3) [symmetric]] step(1) [of sig]
    by (simp add: responses_for_Cons [of sig ev evs] distrib_right del: responses_for.simps)
qed simp

lemma potential_new [simp]: "potential b sig (fanout_new config extra lewis) = 0"
  "flight_credit b sig (fanout_new config extra lewis) = 0"
  "fo_config (fanout_new config extra lewis) = config" "fo_extra_fwd (fanout_new config extra lewis) = extra"
  by (simp_all add: potential_def flight_credit_def fanout_new_def)


text \<open>A run against a schedule in which \<open>Pubkey 1\<close> leads now and \<open>Pubkey 2\<close> next, with a repeated request.\<close>

definition ex_request :: send_transaction_request where
  "ex_request = \<lparr>str_signature = Signature 7, str_transaction = \<lparr>vt_signatures = [Signature 7], vt_recent_blockhash = Hash 1\<rparr>, str_wire_transaction = [1],
     str_max_retries = None, str_policies = []\<rparr>"

definition ex_leaders :: cluster_inner where
  "ex_leaders = ex_inner\<lparr>cl_cluster_nodes := [(Pubkey 1, ex_info ''A''), (Pubkey 2, ex_info ''B'')]\<rparr>"

definition ex_sent :: "pubkey \<Rightarrow> gateway_response" where
  "ex_sent peer = TxSent \<lparr>ts_remote_peer_identity = peer, ts_remote_peer_addr = SocketAddr 10 8009, ts_tx_sig = Signature 7\<rparr>"

lemma ex_lookahead: "leader_lookahead ex_leaders (Suc 0) = [Pubkey 1, Pubkey 2]"
  by (simp add: leader_lookahead_def get_leader_tpus_def get_tpu_info_def ex_leaders_def ex_inner_def ex_epochs_def
      consecutive_leader_slots_def List.map_filter_simps)

lemma ex_plan:
  "send_plan SmartFanout [] always_allow 0 (leader_lookahead ex_leaders) ex_request =
     [SendTo (gateway_tx ex_request (Pubkey 1)), SendTo (gateway_tx ex_request (Pubkey 2))]"
  by (simp add: send_plan_def Let_def ex_lookahead always_allow_def already_sent_def)

lemmas fanout_eval = fanout_new_def fwd_tx_def set_send_task_def ex_plan handle_gateway_response_def
  handle_transaction_sent_result_def Let_def ex_sent_def

definition ex_fanout_events :: "fanout_event list" where
  "ex_fanout_events = [Incoming ex_request, Incoming ex_request, TaskStart 0 0 ex_leaders always_allow,
     TaskAction 0, TaskAction 0, TaskAction 0, TaskJoined 0, Incoming ex_request]"


definition ex_spawned :: fanout where
  "ex_spawned = fwd_tx ex_request (fanout_new SmartFanout [Pubkey 2, Pubkey 3] False)"

theorem fanout_sends_to_allowed_leaders_witness:
  "hm_get (fo_send_set ex_spawned) 0 = Some (Spawned ex_request) \<and> fo_sink_open ex_spawned \<and>
   (\<exists>s' k. fanout_run (TaskStart 0 0 ex_leaders (\<lambda>_ leader. leader \<noteq> Pubkey 1) # replicate k (TaskAction 0)) ex_spawned = Inr s' \<and>
      map gt_remote_peer (fo_sink s') = [Pubkey 2, Pubkey 3])"
proof -
  have s: "hm_get (fo_send_set ex_spawned) 0 = Some (Spawned ex_request)" "fo_sink_open ex_spawned"
    "fo_extra_fwd ex_spawned = [Pubkey 2, Pubkey 3]" "fo_config ex_spawned = SmartFanout" "fo_sink ex_spawned = []"
    by (simp_all add: ex_spawned_def fwd_tx_def fanout_new_def)
  define k where "k = Suc (length (send_plan (fo_config ex_spawned) (fo_extra_fwd ex_spawned)
    (\<lambda>_ leader. leader \<noteq> Pubkey 1) 0 (leader_lookahead ex_leaders) ex_request))"
  from fanout_sends_to_allowed_leaders [OF s(1,2) refl refl, of 0 ex_leaders "\<lambda>_ leader. leader \<noteq> Pubkey 1", folded k_def]
  obtain s' where "fanout_run (TaskStart 0 0 ex_leaders (\<lambda>_ leader. leader \<noteq> Pubkey 1) # replicate k (TaskAction 0)) ex_spawned = Inr s'"
    and "map gt_remote_peer (fo_sink s') = [Pubkey 2, Pubkey 3]"
    by (auto simp: s(3-5) ex_lookahead comp_def simp del: fanout_run.simps)
  then show ?thesis using s(1,2) by (intro conjI exI [of _ s'] exI [of _ k])
qed

section \<open>Shortcomings\<close>

text \<open>Responses are honest if they concern transactions that were handed to the gateway.\<close>

fun honest :: "fanout_event list \<Rightarrow> fanout \<Rightarrow> bool" where
  "honest [] s = True"
| "honest (ev # evs) s =
     ((case ev of Response r _ \<Rightarrow> set (responded_sigs r) \<subseteq> gt_tx_sig ` set (fo_sink s) | _ \<Rightarrow> True) \<and>
      (case fanout_step ev s of Inl _ \<Rightarrow> True | Inr s' \<Rightarrow> honest evs s'))"

lemma copies_0_iff: "copies sig gtxs = 0 \<longleftrightarrow> sig \<notin> gt_tx_sig ` set gtxs"
  by (induction gtxs) auto

lemma fanout_step_inflight:
  assumes "fanout_inv s" and "fanout_step ev s = Inr s'" and "sig \<in> fo_inflight s" and "responses_for sig [ev] = 0"
  shows "sig \<in> fo_inflight s'"
proof (cases ev)
  case (TaskJoined i)
  then show ?thesis
    using assms(2,3) joined_inv [OF assms(1), of i] by (auto split: option.splits send_task.splits if_splits)
qed (use assms in \<open>auto simp: fwd_tx_def set_send_task_def split: option.splits send_task.splits if_splits\<close>)

lemma stuck_in_flight:
  assumes "fanout_inv s" and "potential (max_copies (fo_config s) (fo_extra_fwd s)) sig s = 0" and "sig \<in> fo_inflight s"
    and "honest evs s" and "fanout_run evs s = Inr s'"
  shows "sig \<in> fo_inflight s' \<and> sig \<notin> gt_tx_sig ` set (fo_sink s')"
  using assms
proof (induction evs arbitrary: s)
  case Nil
  then show ?case by (simp add: potential_def copies_0_iff)
next
  case (Cons ev evs)
  let ?b = "max_copies (fo_config s) (fo_extra_fwd s)"
  obtain s1 where s1: "fanout_step ev s = Inr s1" "fanout_run evs s1 = Inr s'" using Cons.prems(5) by auto
  have inv: "fanout_inv s1" using fanout_step_inv [OF Cons.prems(1), of ev] s1(1) by simp
  have none: "responses_for sig [ev] = 0"
    using Cons.prems(2,4) by (cases ev) (auto simp: potential_def copies_0_iff)
  have flight: "sig \<in> fo_inflight s1" by (rule fanout_step_inflight [OF Cons.prems(1) s1(1) Cons.prems(3) none])
  note step = fanout_step_potential [OF Cons.prems(1) s1(1) refl]
  have "potential ?b sig s1 = 0"
    using step(1) [of sig] Cons.prems(2,3) flight none by (simp add: flight_credit_def)
  then show ?case using Cons.IH [OF inv _ flight _ s1(2)] step(3) Cons.prems(4) s1(1) by simp
qed

text \<open>
  A transaction that is in flight but was handed to nobody, because no upcoming leader was known or the policies
  allowed none of them and there is no extra peer, stays in flight for ever: in every continuation in which the
  gateway answers only for what it was given, it is never forwarded, however often the scheduler repeats
  it, also when leaders are known again.
\<close>

theorem undelivered_transaction_never_forwarded:
  assumes "fanout_run evs (fanout_new config extra_fwd lewis) = Inr s" and "fo_send_set s = []"
    and "sig \<in> fo_inflight s" and "sig \<notin> gt_tx_sig ` set (fo_sink s)"
    and "honest evs' s" and "fanout_run evs' s = Inr s'"
  shows "sig \<in> fo_inflight s' \<and> sig \<notin> gt_tx_sig ` set (fo_sink s')"
proof (rule stuck_in_flight [OF _ _ assms(3,5,6)])
  show "fanout_inv s" using fanout_run_inv [OF fanout_new_inv] assms(1) by (metis sum.inject(2))
  show "potential (max_copies (fo_config s) (fo_extra_fwd s)) sig s = 0"
    using assms(2,4) by (simp add: potential_def copies_0_iff)
qed

text \<open>The run of the witness: no leader is known at first; later the transaction is repeated with two known leaders.\<close>

definition ex_nobody :: cluster_inner where
  "ex_nobody = ex_inner\<lparr>cl_leader_schedule := []\<rparr>"

lemma ex_plan_nobody: "send_plan SmartFanout [] always_allow 0 (leader_lookahead ex_nobody) ex_request = []"
  by (simp add: send_plan_def Let_def leader_lookahead_def get_leader_tpus_def get_tpu_info_def ex_nobody_def List.map_filter_simps)

theorem undelivered_transaction_never_forwarded_witness:
  "\<exists>s s'. fanout_run [Incoming ex_request, TaskStart 0 0 ex_nobody always_allow, TaskAction 0, TaskJoined 0]
       (fanout_new SmartFanout [] False) = Inr s \<and> fo_send_set s = [] \<and>
     fanout_run [Incoming ex_request, TaskStart 1 0 ex_leaders always_allow, TaskAction 1] s = Inr s' \<and>
     Signature 7 \<in> fo_inflight s' \<and> Signature 7 \<notin> gt_tx_sig ` set (fo_sink s')"
proof -
  let ?evs = "[Incoming ex_request, TaskStart 0 0 ex_nobody always_allow, TaskAction 0, TaskJoined 0]"
  let ?evs' = "[Incoming ex_request, TaskStart 1 0 ex_leaders always_allow, TaskAction 1]"
  have sig: "str_signature ex_request = Signature 7" by (simp add: ex_request_def)
  obtain s where s: "fanout_run ?evs (fanout_new SmartFanout [] False) = Inr s" "fo_send_set s = []"
    "Signature 7 \<in> fo_inflight s" "Signature 7 \<notin> gt_tx_sig ` set (fo_sink s)"
    by (simp add: fanout_eval ex_plan_nobody sig)
  obtain s' where s': "fanout_run ?evs' s = Inr s'" by (auto split: option.split)
  have "honest ?evs' s" by simp
  from undelivered_transaction_never_forwarded [OF s this s'] s(1,2) s' show ?thesis by blast
qed

text \<open>
  The check against duplicates looks only at the first response: with two leaders, once one has been sent the
  transaction it is no longer in flight, although the copy for the other leader has not been sent; a
  repeated request is then forwarded and the second leader gets the transaction twice without any response of
  the gateway for it.
\<close>

theorem duplicate_copies_in_flight:
  "\<exists>s. fanout_run [Incoming ex_request, TaskStart 0 0 ex_leaders always_allow, TaskAction 0, Response (ex_sent (Pubkey 1)) 0,
         Incoming ex_request, TaskStart 1 0 ex_leaders always_allow, TaskAction 1, TaskAction 1, TaskAction 0]
       (fanout_new SmartFanout [] False) = Inr s \<and>
     map gt_remote_peer (fo_sink s) = [Pubkey 1, Pubkey 1, Pubkey 2, Pubkey 2] \<and>
     map gt_tx_sig (fo_sink s) = [Signature 7, Signature 7, Signature 7, Signature 7]"
proof -
  have sig: "str_signature ex_request = Signature 7" by (simp add: ex_request_def)
  show ?thesis by (simp add: fanout_eval gateway_tx_def sig)
qed

end
