(* ===== verification/Jet_Eviction.thy ===== *)
theory Jet_Eviction
  imports Jet_Prelude
begin

text \<open>
  \<open>apps/jet/src/quic_client/core.rs\<close>: \<open>StakeSortedPeerSet\<close>, the set of connected peers ordered by stake,
  and \<open>StakeBasedEvictionStrategy\<close>, which decides which connections to close when no local port is left.

  The set is two maps kept in step, the stake of each peer and the peers of each stake; it refines one
  map from peers to stakes. The strategy is modelled with the laziness of the source's iterator chain:
  the \<open>expect\<close> on the last activity is evaluated for the peers the iterator reaches and no others, so
  a missing activity panics only then. The trait \<open>ConnectionEvictionStrategy\<close> is the locale
  \<open>eviction_strategy\<close>, interpreted on the stake based strategy.
\<close>

section \<open>The set of peers\<close>

text \<open>
  The client library has the same set with the type of its members as a parameter, for peers and for addresses; so has
  the model.
\<close>

record 'v staked_sorted_set =
  peer_stake_map :: "('v, u64) hmap"
  sorted_map :: "(u64 \<times> 'v list) list"

type_synonym stake_sorted_peer_set = "pubkey staked_sorted_set"

definition peers_default :: "'v staked_sorted_set" where
  "peers_default = \<lparr>peer_stake_map = [], sorted_map = []\<rparr>"

definition peers_remove :: "'v \<Rightarrow> 'v staked_sorted_set \<Rightarrow> bool \<times> 'v staked_sorted_set" where
  "peers_remove peer s =
     (case hm_get (peer_stake_map s) peer of
        Some old_stake \<Rightarrow>
          (let (sm, is_entry_empty) =
             (case map_of (sorted_map s) old_stake of
                Some peers \<Rightarrow> (bt_insert old_stake (removeAll peer peers) (sorted_map s), removeAll peer peers = [])
              | None \<Rightarrow> (sorted_map s, False))
           in (True, \<lparr>peer_stake_map = hm_remove peer (peer_stake_map s),
                      sorted_map = (if is_entry_empty then hm_remove old_stake sm else sm)\<rparr>))
      | None \<Rightarrow> (False, s))"

definition peers_insert :: "'v \<Rightarrow> u64 \<Rightarrow> 'v staked_sorted_set \<Rightarrow> bool \<times> 'v staked_sorted_set" where
  "peers_insert peer stake s =
     (let (already_present, s1) = peers_remove peer s;
          entry = (case map_of (sorted_map s1) stake of None \<Rightarrow> [] | Some peers \<Rightarrow> peers)
      in (already_present,
          \<lparr>peer_stake_map = hm_insert peer stake (peer_stake_map s1),
           sorted_map = bt_insert stake (List.insert peer entry) (sorted_map s1)\<rparr>))"

definition peers_iter :: "'v staked_sorted_set \<Rightarrow> (u64 \<times> 'v) list" where
  "peers_iter s = concat (map (\<lambda>(stake, peers). map (\<lambda>p. (stake, p)) peers) (sorted_map s))"

definition peers_is_empty :: "'v staked_sorted_set \<Rightarrow> bool" where
  "peers_is_empty s \<longleftrightarrow> peer_stake_map s = []"

section \<open>The stake based strategy\<close>

text \<open>
  The lazy chain \<open>filter, filter, take\<close>: \<open>take\<close> stops pulling once it has yielded its count, so the
  activity of the peers behind that point is never looked up.
\<close>

fun plan_idle ::
  "duration \<Rightarrow> instant \<Rightarrow> (pubkey, instant) hmap \<Rightarrow> pubkey set \<Rightarrow> (u64 \<times> pubkey) list \<Rightarrow> nat \<Rightarrow> pubkey list res" where
  "plan_idle grace now usage evicting xs 0 = Inr []"
| "plan_idle grace now usage evicting [] (Suc n) = Inr []"
| "plan_idle grace now usage evicting ((_, peer) # xs) (Suc n) =
     (if peer \<in> evicting then plan_idle grace now usage evicting xs (Suc n)
      else res_bind (expect ''missing last activity'' (hm_get usage peer)) (\<lambda>last_usage.
        if now - last_usage \<ge> grace
        then res_bind (plan_idle grace now usage evicting xs n) (\<lambda>ps. Inr (peer # ps))
        else plan_idle grace now usage evicting xs (Suc n)))"

definition plan_eviction ::
  "duration \<Rightarrow> instant \<Rightarrow> stake_sorted_peer_set \<Rightarrow> (pubkey, instant) hmap \<Rightarrow> pubkey set \<Rightarrow> nat \<Rightarrow> pubkey list res" where
  "plan_eviction grace now ss usage already_evicting plan_ahead_size =
     (if peers_is_empty ss then Inr []
      else res_bind (plan_idle grace now usage already_evicting (peers_iter ss) plan_ahead_size) (\<lambda>plan.
        Inr (if plan = []
             then take plan_ahead_size (map snd (filter (\<lambda>(_, peer). peer \<notin> already_evicting) (peers_iter ss)))
             else plan)))"

section \<open>The two maps agree\<close>

definition peers_inv :: "'v staked_sorted_set \<Rightarrow> bool" where
  "peers_inv s \<longleftrightarrow>
     hm_wf (peer_stake_map s) \<and> bt_wf (sorted_map s) \<and>
     (\<forall>stake peers. map_of (sorted_map s) stake = Some peers \<longrightarrow> distinct peers \<and> peers \<noteq> []) \<and>
     (\<forall>stake peer. (\<exists>peers. map_of (sorted_map s) stake = Some peers \<and> peer \<in> set peers) \<longleftrightarrow>
        hm_get (peer_stake_map s) peer = Some stake)"

lemma peers_invI:
  assumes "hm_wf (peer_stake_map s)" and "bt_wf (sorted_map s)"
    and "\<And>stake peers. map_of (sorted_map s) stake = Some peers \<Longrightarrow> distinct peers \<and> peers \<noteq> []"
    and "\<And>stake peer. (\<exists>peers. map_of (sorted_map s) stake = Some peers \<and> peer \<in> set peers) \<longleftrightarrow>
        hm_get (peer_stake_map s) peer = Some stake"
  shows "peers_inv s"
  using assms by (auto simp: peers_inv_def)

lemma peers_invD:
  assumes "peers_inv s"
  shows "hm_wf (peer_stake_map s)" and "bt_wf (sorted_map s)"
    and "map_of (sorted_map s) stake = Some peers \<Longrightarrow> distinct peers"
    and "map_of (sorted_map s) stake = Some peers \<Longrightarrow> peers \<noteq> []"
    and "(\<exists>peers. map_of (sorted_map s) stake = Some peers \<and> peer \<in> set peers) \<longleftrightarrow>
        hm_get (peer_stake_map s) peer = Some stake"
  using assms unfolding peers_inv_def by blast+

lemma bt_wf_remove [simp]: "bt_wf m \<Longrightarrow> bt_wf (hm_remove k m)"
  by (simp add: AList.delete_eq bt_wf_filter)

lemma peers_inv_default [simp]: "peers_inv peers_default"
  by (simp add: peers_inv_def peers_default_def)

lemma peers_remove_lookup:
  assumes "peers_inv s"
  shows "hm_get (peer_stake_map (snd (peers_remove peer s))) = (hm_get (peer_stake_map s))(peer := None)"
    and "map_of (sorted_map (snd (peers_remove peer s))) stake =
      (case map_of (sorted_map s) stake of
         None \<Rightarrow> None | Some peers \<Rightarrow> if removeAll peer peers = [] then None else Some (removeAll peer peers))"
proof -
  note inv = peers_invD [OF assms]
  have entry: "\<exists>peers. map_of (sorted_map s) old = Some peers \<and> peer \<in> set peers"
    if "hm_get (peer_stake_map s) peer = Some old" for old
    using that by (simp only: inv(5))
  have absent: "removeAll peer peers = peers"
    if "map_of (sorted_map s) st = Some peers" and "hm_get (peer_stake_map s) peer \<noteq> Some st" for st peers
    using that inv(5) [of st peer] by (auto intro: removeAll_id)
  show "hm_get (peer_stake_map (snd (peers_remove peer s))) = (hm_get (peer_stake_map s))(peer := None)"
    by (auto simp: peers_remove_def fun_eq_iff split: option.split prod.split)
  show "map_of (sorted_map (snd (peers_remove peer s))) stake =
      (case map_of (sorted_map s) stake of
         None \<Rightarrow> None | Some peers \<Rightarrow> if removeAll peer peers = [] then None else Some (removeAll peer peers))"
  proof (cases "hm_get (peer_stake_map s) peer")
    case None
    then show ?thesis
      using absent [of stake] inv(4) [of stake] by (auto simp: peers_remove_def split: option.split)
  next
    case (Some old)
    then obtain peers where "map_of (sorted_map s) old = Some peers" using entry by blast
    then show ?thesis
      using Some absent [of stake] inv(4) [of stake]
      by (auto simp: peers_remove_def split: option.split)
  qed
qed

lemma peers_remove_wf:
  assumes "peers_inv s"
  shows "hm_wf (peer_stake_map (snd (peers_remove peer s)))" and "bt_wf (sorted_map (snd (peers_remove peer s)))"
  using peers_invD(1,2) [OF assms]
  by (auto simp: peers_remove_def split: option.split prod.split)

lemma peers_remove_inv [inv_intros]:
  assumes "peers_inv s"
  shows "peers_inv (snd (peers_remove peer s))"
proof (rule peers_invI)
  fix stake p
  show "(\<exists>peers. map_of (sorted_map (snd (peers_remove peer s))) stake = Some peers \<and> p \<in> set peers) \<longleftrightarrow>
      hm_get (peer_stake_map (snd (peers_remove peer s))) p = Some stake"
    using peers_invD(5) [OF assms, of stake p]
    by (auto simp: peers_remove_lookup [OF assms] removeAll_filter_not_eq filter_empty_conv split: option.split)
next
  fix stake peers assume "map_of (sorted_map (snd (peers_remove peer s))) stake = Some peers"
  then show "distinct peers \<and> peers \<noteq> []"
    using peers_invD(3) [OF assms]
    by (auto simp: peers_remove_lookup [OF assms] distinct_removeAll split: option.splits if_splits)
qed (simp_all add: peers_remove_wf [OF assms])

lemma peers_insert_fields:
  "peer_stake_map (snd (peers_insert peer stake s)) = hm_insert peer stake (peer_stake_map (snd (peers_remove peer s)))"
  "sorted_map (snd (peers_insert peer stake s)) =
     bt_insert stake (List.insert peer (case map_of (sorted_map (snd (peers_remove peer s))) stake of
       None \<Rightarrow> [] | Some peers \<Rightarrow> peers)) (sorted_map (snd (peers_remove peer s)))"
  by (simp_all add: peers_insert_def Let_def case_prod_beta)

lemma peers_insert_inv [inv_intros]:
  assumes "peers_inv s"
  shows "peers_inv (snd (peers_insert peer stake s))"
proof -
  define s1 where "s1 = snd (peers_remove peer s)"
  have inv1: "peers_inv s1" unfolding s1_def by (rule peers_remove_inv [OF assms])
  note inv = peers_invD [OF inv1]
  have gone: "hm_get (peer_stake_map s1) peer = None"
    by (simp add: s1_def peers_remove_lookup [OF assms])
  show ?thesis
  proof (rule peers_invI, unfold peers_insert_fields, fold s1_def)
    show "hm_wf (hm_insert peer stake (peer_stake_map s1))" using inv(1) by simp
    show "bt_wf (bt_insert stake (List.insert peer (case map_of (sorted_map s1) stake of
        None \<Rightarrow> [] | Some peers \<Rightarrow> peers)) (sorted_map s1))" using inv(2) by (rule bt_wf_insert)
  next
    fix st ps
    assume "map_of (bt_insert stake (List.insert peer (case map_of (sorted_map s1) stake of
        None \<Rightarrow> [] | Some peers \<Rightarrow> peers)) (sorted_map s1)) st = Some ps"
    then show "distinct ps \<and> ps \<noteq> []"
      using inv(3,4) by (auto split: if_splits option.splits simp: List.insert_def)
  next
    fix st p
    show "(\<exists>ps. map_of (bt_insert stake (List.insert peer (case map_of (sorted_map s1) stake of
          None \<Rightarrow> [] | Some peers \<Rightarrow> peers)) (sorted_map s1)) st = Some ps \<and> p \<in> set ps) \<longleftrightarrow>
        hm_get (hm_insert peer stake (peer_stake_map s1)) p = Some st"
      using inv(5) [of st p] gone by (auto split: option.split)
  qed
qed

lemma peers_insert_lookup:
  assumes "peers_inv s"
  shows "hm_get (peer_stake_map (snd (peers_insert peer stake s))) = (hm_get (peer_stake_map s))(peer \<mapsto> stake)"
  by (auto simp: peers_insert_fields peers_remove_lookup [OF assms] fun_eq_iff)

section \<open>Iteration\<close>

lemma peers_iter_set:
  assumes "peers_inv s"
  shows "(stake, peer) \<in> set (peers_iter s) \<longleftrightarrow> hm_get (peer_stake_map s) peer = Some stake"
proof -
  have "(stake, peer) \<in> set (peers_iter s) \<longleftrightarrow> (\<exists>peers. (stake, peers) \<in> set (sorted_map s) \<and> peer \<in> set peers)"
    by (auto simp: peers_iter_def)
  then show ?thesis
    using peers_invD(5) [OF assms] hm_get_in_set [OF bt_wf_hm_wf [OF peers_invD(2) [OF assms]]] by simp
qed

lemma sorted_concat_entries:
  "bt_wf m \<Longrightarrow> sorted (map fst (concat (map (\<lambda>(k, vs). map (\<lambda>v. (k, v)) vs) m)))"
  by (induction m) (auto simp: sorted_append less_imp_le comp_def map_replicate_const)

lemma peers_iter_sorted: "peers_inv s \<Longrightarrow> sorted (map fst (peers_iter s))"
  unfolding peers_iter_def by (rule sorted_concat_entries) (rule peers_invD(2))

lemma distinct_concat_entries:
  assumes "hm_wf m" and "\<And>k vs. (k, vs) \<in> set m \<Longrightarrow> distinct vs"
    and "\<And>k vs k' vs' v. (k, vs) \<in> set m \<Longrightarrow> (k', vs') \<in> set m \<Longrightarrow> v \<in> set vs \<Longrightarrow> v \<in> set vs' \<Longrightarrow> k = k'"
  shows "distinct (map snd (concat (map (\<lambda>(k, vs). map (\<lambda>v. (k, v)) vs) m)))"
  using assms
proof (induction m)
  case (Cons e m)
  obtain k vs where e: "e = (k, vs)" by fastforce
  have "distinct vs" using Cons.prems(2) [of k vs] e by simp
  moreover have "set vs \<inter> set vs' = {}" if "(k', vs') \<in> set m" for k' vs'
  proof -
    have "k \<noteq> k'" using Cons.prems(1) that e by force
    then show ?thesis using Cons.prems(3) [of k vs k' vs'] that e by auto
  qed
  moreover have "distinct (map snd (concat (map (\<lambda>(k, vs). map (\<lambda>v. (k, v)) vs) m)))"
    using Cons.prems by (intro Cons.IH) (auto, blast)
  ultimately show ?case by (fastforce simp: e comp_def)
qed simp

lemma peers_iter_distinct:
  assumes "peers_inv s"
  shows "distinct (map snd (peers_iter s))"
proof -
  have wf: "hm_wf (sorted_map s)" by (rule bt_wf_hm_wf [OF peers_invD(2) [OF assms]])
  have same: "hm_get (peer_stake_map s) v = Some k" if "(k, vs) \<in> set (sorted_map s)" "v \<in> set vs" for k vs v
    using that hm_get_in_set [OF wf] peers_invD(5) [OF assms, of k v] by auto
  show ?thesis
    unfolding peers_iter_def
  proof (rule distinct_concat_entries [OF wf])
    fix k vs assume "(k, vs) \<in> set (sorted_map s)"
    then show "distinct vs" using hm_get_in_set [OF wf] peers_invD(3) [OF assms] by blast
  next
    fix k vs k' vs' v
    assume "(k, vs) \<in> set (sorted_map s)" "(k', vs') \<in> set (sorted_map s)" "v \<in> set vs" "v \<in> set vs'"
    then show "k = k'" using same [of k vs v] same [of k' vs' v] by simp
  qed
qed

text \<open>The abstract set: one map from peers to stakes.\<close>

datatype peer_op = InsertPeer pubkey u64 | RemovePeer pubkey

fun peer_op_set :: "peer_op \<Rightarrow> stake_sorted_peer_set \<Rightarrow> stake_sorted_peer_set" where
  "peer_op_set (InsertPeer p stake) s = snd (peers_insert p stake s)"
| "peer_op_set (RemovePeer p) s = snd (peers_remove p s)"

fun peer_op_map :: "peer_op \<Rightarrow> (pubkey \<Rightarrow> u64 option) \<Rightarrow> (pubkey \<Rightarrow> u64 option)" where
  "peer_op_map (InsertPeer p stake) m = m(p \<mapsto> stake)"
| "peer_op_map (RemovePeer p) m = m(p := None)"

lemma peer_ops_simulate:
  assumes "peers_inv s"
  shows "peers_inv (fold peer_op_set ops s) \<and>
    hm_get (peer_stake_map (fold peer_op_set ops s)) = fold peer_op_map ops (hm_get (peer_stake_map s))"
  using assms
proof (induction ops arbitrary: s)
  case (Cons e ops)
  have "peers_inv (peer_op_set e s) \<and>
      hm_get (peer_stake_map (peer_op_set e s)) = peer_op_map e (hm_get (peer_stake_map s))"
    using Cons.prems by (cases e)
      (simp_all add: peers_insert_inv peers_remove_inv peers_insert_lookup peers_remove_lookup(1))
  then show ?case using Cons.IH [of "peer_op_set e s"] by simp
qed simp

text \<open>
  C11. \<open>StakeSortedPeerSet\<close> implements a map from peers to stakes. After any sequence of insertions and
  removals its iterator yields exactly the entries of that map, each peer once, in ascending order of
  stake, and \<open>is_empty\<close> answers whether the map is empty.
\<close>

theorem stake_sorted_peer_set_refines_map:
  "let s = fold peer_op_set ops peers_default; m = fold peer_op_map ops Map.empty
   in set (peers_iter s) = {(stake, peer). m peer = Some stake} \<and> distinct (map snd (peers_iter s)) \<and>
      sorted (map fst (peers_iter s)) \<and> (peers_is_empty s \<longleftrightarrow> m = Map.empty)"
proof -
  let ?s = "fold peer_op_set ops peers_default"
  have inv: "peers_inv ?s" and m: "hm_get (peer_stake_map ?s) = fold peer_op_map ops Map.empty"
    using peer_ops_simulate [OF peers_inv_default, of ops] by (simp_all add: peers_default_def)
  have "set (peers_iter ?s) = {(stake, peer). fold peer_op_map ops Map.empty peer = Some stake}"
    unfolding m [symmetric] using peers_iter_set [OF inv] by auto
  moreover have "peers_is_empty ?s \<longleftrightarrow> fold peer_op_map ops Map.empty = Map.empty"
    unfolding m [symmetric] by (simp add: peers_is_empty_def)
  ultimately show ?thesis
    unfolding Let_def using peers_iter_distinct [OF inv] peers_iter_sorted [OF inv] by blast
qed

section \<open>The eviction plan\<close>

text \<open>The peers the strategy may choose from, and those of them that have been idle long enough.\<close>

definition candidates :: "stake_sorted_peer_set \<Rightarrow> pubkey set \<Rightarrow> pubkey list" where
  "candidates ss evicting = filter (\<lambda>p. p \<notin> evicting) (map snd (peers_iter ss))"

definition idle_for :: "duration \<Rightarrow> instant \<Rightarrow> (pubkey, instant) hmap \<Rightarrow> pubkey \<Rightarrow> bool" where
  "idle_for grace now usage p \<longleftrightarrow> (\<exists>t. hm_get usage p = Some t \<and> grace \<le> now - t)"

lemma candidates_filter: "map snd (filter (\<lambda>(_, p). p \<notin> ev) xs) = filter (\<lambda>p. p \<notin> ev) (map snd xs)"
  by (induction xs) auto

lemma plan_idle_nil [simp]: "plan_idle grace now usage ev [] n = Inr []"
  by (cases n) simp_all

lemma plan_idle_eq:
  assumes "\<And>p. p \<in> snd ` set xs \<Longrightarrow> p \<notin> ev \<Longrightarrow> hm_get usage p \<noteq> None"
  shows "plan_idle grace now usage ev xs n =
    Inr (take n (filter (idle_for grace now usage) (filter (\<lambda>p. p \<notin> ev) (map snd xs))))"
  using assms
proof (induction xs arbitrary: n)
  case (Cons x xs)
  obtain st peer where x: "x = (st, peer)" by fastforce
  have IH: "plan_idle grace now usage ev xs k =
      Inr (take k (filter (idle_for grace now usage) (filter (\<lambda>p. p \<notin> ev) (map snd xs))))" for k
    using Cons.prems by (intro Cons.IH) auto
  show ?case
  proof (cases "n = 0 \<or> peer \<in> ev")
    case False
    then obtain t m where "hm_get usage peer = Some t" "n = Suc m" using Cons.prems [of peer] x by (cases n) auto
    then show ?thesis using IH False x by (simp add: idle_for_def)
  qed (use IH x in \<open>cases n; auto\<close>)
qed simp

lemma plan_idle_sound:
  "plan_idle grace now usage ev xs n = Inr ps \<Longrightarrow> length ps \<le> n \<and> subseq ps (filter (\<lambda>p. p \<notin> ev) (map snd xs))"
proof (induction xs arbitrary: n ps)
  case (Cons x xs)
  obtain st peer where x: "x = (st, peer)" by fastforce
  consider "n = 0" | m where "n = Suc m" "peer \<in> ev" | m where "n = Suc m" "peer \<notin> ev" by (cases n) auto
  then show ?case
  proof cases
    case 2
    then show ?thesis using Cons.IH [of n ps] Cons.prems x by simp
  next
    case 3
    then obtain t where t: "hm_get usage peer = Some t" using Cons.prems x by auto
    show ?thesis
    proof (cases "grace \<le> now - t")
      case True
      then obtain ps' where "ps = peer # ps'" "plan_idle grace now usage ev xs m = Inr ps'"
        using Cons.prems x 3 t by auto
      then show ?thesis using Cons.IH [of m ps'] 3 x by simp
    next
      case False
      then have "length ps \<le> n \<and> subseq ps (filter (\<lambda>p. p \<notin> ev) (map snd xs))"
        using Cons.prems x 3 t by (intro Cons.IH) simp
      then show ?thesis using 3 x by (simp add: list_emb_Cons)
    qed
  qed (use Cons.prems x in simp)
qed simp

lemma plan_eviction_sound:
  assumes "plan_eviction grace now ss usage ev n = Inr ps"
  shows "length ps \<le> n \<and> subseq ps (candidates ss ev)"
proof -
  have cand: "map snd (filter (\<lambda>(_, p). p \<notin> ev) (peers_iter ss)) = candidates ss ev"
    by (simp add: candidates_def candidates_filter)
  show ?thesis
  proof (cases "plan_idle grace now usage ev (peers_iter ss) n")
    case (Inr plan)
    have "subseq (take n (candidates ss ev)) (candidates ss ev)" by (rule prefix_imp_subseq) (rule take_is_prefix)
    moreover have "length plan \<le> n \<and> subseq plan (candidates ss ev)"
      using plan_idle_sound [OF Inr] by (simp add: candidates_def)
    moreover have "ps = (if peers_is_empty ss then [] else if plan = [] then take n (candidates ss ev) else plan)"
      using assms unfolding plan_eviction_def cand Inr by (cases "peers_is_empty ss") simp_all
    ultimately show ?thesis by simp
  qed (use assms in \<open>simp add: plan_eviction_def split: if_splits\<close>)
qed

lemma subseq_set_distinct:
  assumes "subseq xs ys"
  shows "set xs \<subseteq> set ys" and "distinct ys \<Longrightarrow> distinct xs"
proof -
  obtain N where xs: "xs = nths ys N" using assms unfolding subseq_conv_nths by blast
  show "set xs \<subseteq> set ys" unfolding xs by (rule set_nths_subset)
  show "distinct ys \<Longrightarrow> distinct xs" unfolding xs by (rule distinct_nthsI)
qed

text \<open>
  With the activity of every connected peer on record, the plan never panics and is determined: the
  candidates are the connected peers not being evicted already, lowest stake first; if any of them has been
  idle for the grace period the plan is the first \<open>n\<close> idle ones, otherwise the first \<open>n\<close> candidates, so it is
  empty only when \<open>n = 0\<close> or there is no candidate at all.
\<close>

theorem plan_eviction_lowest_staked_idle_first:
  assumes "peers_inv ss" and "\<And>p. p \<in> set (candidates ss ev) \<Longrightarrow> hm_get usage p \<noteq> None"
  shows "plan_eviction grace now ss usage ev n = Inr (take n
     (if \<exists>p \<in> set (candidates ss ev). idle_for grace now usage p
      then filter (idle_for grace now usage) (candidates ss ev) else candidates ss ev))"
proof -
  have idle: "plan_idle grace now usage ev (peers_iter ss) n = Inr (take n (filter (idle_for grace now usage) (candidates ss ev)))"
    unfolding candidates_def using assms(2) by (intro plan_idle_eq) (auto simp: candidates_def)
  have "candidates ss ev = []" if "peers_is_empty ss"
  proof -
    have "e \<notin> set (peers_iter ss)" for e
      using that peers_iter_set [OF assms(1)] by (cases e) (simp add: peers_is_empty_def)
    then show ?thesis by (cases "peers_iter ss") (auto simp: candidates_def)
  qed
  then show ?thesis
    by (auto simp: plan_eviction_def idle candidates_filter candidates_def [symmetric] filter_empty_conv)
qed

abbreviation ex_peers :: stake_sorted_peer_set where
  "ex_peers \<equiv> fold peer_op_set [InsertPeer (Pubkey 1) 50, InsertPeer (Pubkey 2) 10, InsertPeer (Pubkey 3) 20] peers_default"

lemma ex_peers_iter: "peers_iter ex_peers = [(10, Pubkey 2), (20, Pubkey 3), (50, Pubkey 1)]"
  by (simp add: peers_iter_def peers_insert_def peers_remove_def peers_default_def)

theorem plan_eviction_lowest_staked_idle_first_witness:
  "plan_eviction 5 100 ex_peers [(Pubkey 1, 10), (Pubkey 2, 99), (Pubkey 3, 20)] {} 2 = Inr [Pubkey 3, Pubkey 1]"
proof -
  let ?usage = "[(Pubkey 1, 10), (Pubkey 2, 99), (Pubkey 3, 20)]"
  have c: "candidates ex_peers {} = [Pubkey 2, Pubkey 3, Pubkey 1]" unfolding candidates_def ex_peers_iter by simp
  have "plan_eviction 5 100 ex_peers ?usage {} 2 = Inr (take 2
     (if \<exists>p \<in> set (candidates ex_peers {}). idle_for 5 100 ?usage p
      then filter (idle_for 5 100 ?usage) (candidates ex_peers {}) else candidates ex_peers {}))"
    by (rule plan_eviction_lowest_staked_idle_first)
       (use peer_ops_simulate [OF peers_inv_default] in blast, unfold c, auto)
  then show ?thesis unfolding c by (simp add: idle_for_def)
qed

section \<open>The strategy interface\<close>

text \<open>
  The trait's contract: at most \<open>plan_ahead_size\<close> peers, all connected, none of them already being
  evicted, none twice.
\<close>

locale eviction_strategy =
  fixes plan :: "instant \<Rightarrow> stake_sorted_peer_set \<Rightarrow> (pubkey, instant) hmap \<Rightarrow> pubkey set \<Rightarrow> nat \<Rightarrow> pubkey list res"
  assumes plan_length: "plan now ss usage ev n = Inr ps \<Longrightarrow> length ps \<le> n"
    and plan_subset: "peers_inv ss \<Longrightarrow> plan now ss usage ev n = Inr ps \<Longrightarrow> p \<in> set ps \<Longrightarrow>
          hm_get (peer_stake_map ss) p \<noteq> None \<and> p \<notin> ev"
    and plan_distinct: "peers_inv ss \<Longrightarrow> plan now ss usage ev n = Inr ps \<Longrightarrow> distinct ps"
begin

text \<open>A plan of up to one peer evicts a peer that was not being evicted yet.\<close>

lemma plan_grows_evicting:
  assumes "peers_inv ss" and "plan now ss usage ev n = Inr ps" and "finite ev"
  shows "card (ev \<union> set ps) = card ev + length ps"
proof -
  have "ev \<inter> set ps = {}" using plan_subset [OF assms(1,2)] by blast
  then show ?thesis
    using assms(3) by (simp add: card_Un_disjoint distinct_card [OF plan_distinct [OF assms(1,2)]])
qed

end

interpretation stake_based: eviction_strategy "plan_eviction grace" for grace
proof
  fix now ss usage ev n ps
  assume plan: "plan_eviction grace now ss usage ev n = Inr ps"
  then show "length ps \<le> n" by (simp add: plan_eviction_sound)
  assume inv: "peers_inv ss"
  have sub: "subseq ps (candidates ss ev)" using plan_eviction_sound [OF plan] by blast
  then show "distinct ps"
    using peers_iter_distinct [OF inv] by (auto simp: candidates_def intro: subseq_set_distinct(2))
  fix p assume "p \<in> set ps"
  then have "p \<in> set (candidates ss ev)" using subseq_set_distinct(1) [OF sub] by blast
  then show "hm_get (peer_stake_map ss) p \<noteq> None \<and> p \<notin> ev"
    using peers_iter_set [OF inv] by (auto simp: candidates_def)
qed

text \<open>A strategy that answers whenever the last activity of every connected peer is known.\<close>

locale answering_strategy = eviction_strategy +
  assumes plan_answers: "peers_inv ss \<Longrightarrow> (\<And>p. hm_get (peer_stake_map ss) p \<noteq> None \<Longrightarrow> hm_get usage p \<noteq> None) \<Longrightarrow>
    \<exists>ps. plan now ss usage ev n = Inr ps"

interpretation stake_strategy: answering_strategy "plan_eviction grace" for grace
proof
  fix ss and usage :: "(pubkey, instant) hmap" and now ev n
  assume inv: "peers_inv ss" and known: "\<And>p. hm_get (peer_stake_map ss) p \<noteq> None \<Longrightarrow> hm_get usage p \<noteq> None"
  have "plan_idle grace now usage ev (peers_iter ss) n =
      Inr (take n (filter (idle_for grace now usage) (filter (\<lambda>p. p \<notin> ev) (map snd (peers_iter ss)))))"
    using known peers_iter_set [OF inv] by (intro plan_idle_eq) fastforce
  then show "\<exists>ps. plan_eviction grace now ss usage ev n = Inr ps" by (simp add: plan_eviction_def)
qed

end
