(* ===== verification/Jet_Gateway.thy ===== *)
theory Jet_Gateway
  imports Jet_Eviction Jet_Worker Jet_Watcher
begin

text \<open>
  \<open>apps/jet/src/quic_client/core.rs\<close>: \<open>TokioQuicGatewayRuntime\<close>, the task that owns the connections to the
  leaders. It connects lazily, hands transactions to one worker per peer, queues them while a connection is
  being made, evicts connections when there are too many, and reconnects under a new identity.

  State: the record \<open>gateway\<close> has the fields of the runtime. A \<open>JoinSet\<close> is the map or list of its running tasks;
  task ids are drawn from \<open>next_task_id\<close>, so they are unique as tokio's are. A worker task is a value of
  \<open>worker_task\<close> inside \<open>tx_worker_set\<close>, and the sender of its handle is the id of that task. \<open>Notify\<close> handles of
  blocked connections are the ids of the tasks that wait on them. What the runtime sends to the response outlet and
  to the address watcher is logged. Time, stakes, predicted leaders and addresses come with each event as the record
  \<open>gw_env\<close>; the eviction strategy is the argument \<open>plan\<close>. Certificates and the QUIC handshake are outside: a
  connecting task ends with an address or an error.
\<close>

section \<open>State\<close>

type_synonym task_id = nat

datatype connect_error = EndpointStopping | OtherConnectError string

datatype connecting_error =
    ConnectError connect_error
  | ConnectionError connection_error
  | PeerNotInLeaderSchedule

text \<open>
  \<open>QuicGatewayConfig\<close>; the last two fields are the constants of \<open>solana_clock\<close> that set the pace of the leader
  prediction. Its default takes the constants of other crates as arguments: the validator port range,
  \<open>QUIC_MAX_TIMEOUT\<close>, and those two.
\<close>

record gw_config =
  port_range :: "nat \<times> nat"
  max_idle_timeout :: duration
  max_connection_attempts :: nat
  transaction_sender_worker_channel_capacity :: nat
  connecting_timeout :: duration
  tpu_port_kind :: config_quic_tpu_port
  max_concurrent_connections :: nat
  max_local_port_binding_attempts :: nat
  num_endpoints :: nat
  max_send_attempt :: nat
  remote_peer_addr_watch_interval :: duration
  send_timeout :: duration
  leader_prediction_lookahead :: "nat option"
  tpu_info_override :: "tpu_override_info list"
  default_ms_per_slot :: nat
  num_consecutive_leader_slots :: nat

definition gw_config_default :: "nat \<times> nat \<Rightarrow> duration \<Rightarrow> nat \<Rightarrow> nat \<Rightarrow> gw_config" where
  "gw_config_default validator_port_range quic_max_timeout ms_per_slot leader_slots =
     \<lparr>port_range = validator_port_range, max_idle_timeout = quic_max_timeout, max_connection_attempts = 3,
      transaction_sender_worker_channel_capacity = 10000, connecting_timeout = 2 * 1000000000,
      tpu_port_kind = Forwards, max_concurrent_connections = 1024, max_local_port_binding_attempts = 3,
      num_endpoints = 5, max_send_attempt = 3, remote_peer_addr_watch_interval = 5 * 1000000000,
      send_timeout = 2 * 1000000000, leader_prediction_lookahead = Some 4, tpu_info_override = [],
      default_ms_per_slot = ms_per_slot, num_consecutive_leader_slots = leader_slots\<rparr>"

record connecting_meta =
  cm_current_client_identity :: pubkey
  cm_remote_peer_identity :: pubkey
  cm_connection_attempt :: nat
  cm_endpoint_idx :: nat

record tx_worker_sender_handle =
  wh_remote_peer_identity :: pubkey
  wh_remote_peer_addr :: socket_addr
  wh_task :: task_id

datatype gateway_command = UpdateIdentity pubkey | MultiStepIdentitySynchronization pubkey

record gateway =
  config :: gw_config
  tx_worker_handle_map :: "(pubkey, tx_worker_sender_handle) hmap"
  active_staked_sorted_remote_peer :: stake_sorted_peer_set
  tx_worker_task_meta_map :: "(task_id, pubkey) hmap"
  tx_worker_set :: "(task_id, worker_task) hmap"
  tx_queues :: "(pubkey, tx_queue) hmap"
  endpoints_usage :: "pubkey list list"
  connecting_tasks :: "task_id list"
  connecting_meta :: "(task_id, connecting_meta) hmap"
  connecting_remote_peers :: "(pubkey, task_id) hmap"
  identity :: pubkey
  response_outlet :: "gateway_response list"
  tasklet :: "(task_id, (task_id, worker_task) hmap) hmap"
  tasklet_meta :: "task_id list"
  last_peer_activity :: "(pubkey, instant) hmap"
  being_evicted_peers :: "pubkey set"
  connecting_blocked_by_eviction_list :: "(pubkey \<times> task_id) list"
  notified_tasks :: "task_id list"
  watcher_out :: "watcher_command list"
  next_leader_prediction_deadline :: instant
  next_task_id :: task_id
  discarded :: "tx_sender_worker_completed list"

definition gateway_new :: "gw_config \<Rightarrow> pubkey \<Rightarrow> instant \<Rightarrow> gateway" where
  "gateway_new c me now =
     \<lparr>config = c, tx_worker_handle_map = [], active_staked_sorted_remote_peer = peers_default,
      tx_worker_task_meta_map = [], tx_worker_set = [], tx_queues = [],
      endpoints_usage = replicate (num_endpoints c) [], connecting_tasks = [], connecting_meta = [],
      connecting_remote_peers = [], identity = me, response_outlet = [], tasklet = [], tasklet_meta = [],
      last_peer_activity = [], being_evicted_peers = {}, connecting_blocked_by_eviction_list = [],
      notified_tasks = [], watcher_out = [], next_leader_prediction_deadline = now, next_task_id = 0,
      discarded = []\<rparr>"

record gw_env =
  env_now :: instant
  env_stake :: "pubkey \<Rightarrow> u64 option"
  env_predict :: "nat \<Rightarrow> pubkey list"
  env_service :: tpu_info_service

type_synonym eviction_plan =
  "instant \<Rightarrow> stake_sorted_peer_set \<Rightarrow> (pubkey, instant) hmap \<Rightarrow> pubkey set \<Rightarrow> nat \<Rightarrow> pubkey list res"

section \<open>Connecting\<close>

definition drop_peer_queued_tx :: "pubkey \<Rightarrow> tx_drop_reason \<Rightarrow> gateway \<Rightarrow> gateway" where
  "drop_peer_queued_tx peer reason s =
     (case hm_get (tx_queues s) peer of
        Some q \<Rightarrow> s\<lparr>tx_queues := hm_remove peer (tx_queues s),
                    response_outlet := response_outlet s @
                      [TxDrop \<lparr>td_remote_peer_identity = peer, td_drop_reason = reason,
                               td_dropped_gateway_tx_vec = q\<rparr>]\<rparr>
      | None \<Rightarrow> s)"

definition unreachable_peer :: "pubkey \<Rightarrow> gateway \<Rightarrow> gateway" where
  "unreachable_peer peer s = drop_peer_queued_tx peer RemotePeerUnreachable s"

definition has_connection_capacity :: "gateway \<Rightarrow> bool" where
  "has_connection_capacity s \<longleftrightarrow> length (tx_worker_handle_map s) < max_concurrent_connections (config s)"

text \<open>\<open>min_by_key\<close> returns the first of the least used endpoints.\<close>

definition get_least_used_endpoint :: "pubkey list list \<Rightarrow> nat res" where
  "get_least_used_endpoint usage =
     expect ''At least one endpoint should be available''
       (find (\<lambda>i. \<forall>u \<in> set usage. length (usage ! i) \<le> length u) [0..<length usage])"

text \<open>\<open>endpoints_usage[idx]\<close> panics out of range.\<close>

definition update_usage :: "nat \<Rightarrow> (pubkey list \<Rightarrow> pubkey list) \<Rightarrow> gateway \<Rightarrow> gateway res" where
  "update_usage idx f s =
     (if idx < length (endpoints_usage s)
      then Inr (s\<lparr>endpoints_usage := (endpoints_usage s)[idx := f (endpoints_usage s ! idx)]\<rparr>)
      else Inl (Panic ''index out of bounds''))"

definition spawn_connecting :: "pubkey \<Rightarrow> nat \<Rightarrow> gateway \<Rightarrow> gateway res" where
  "spawn_connecting peer attempt s =
     (if hm_contains (connecting_remote_peers s) peer then Inr s
      else if peer \<in> being_evicted_peers s then Inr (drop_peer_queued_tx peer RemotePeerBeingEvicted s)
      else if hm_contains (tx_worker_handle_map s) peer then Inr s
      else
        (let tid = next_task_id s;
             s1 = (if has_connection_capacity s then s
                   else s\<lparr>connecting_blocked_by_eviction_list := connecting_blocked_by_eviction_list s @ [(peer, tid)]\<rparr>)
         in res_bind (get_least_used_endpoint (endpoints_usage s1)) (\<lambda>endpoint_idx.
            res_bind (update_usage endpoint_idx (List.insert peer) s1) (\<lambda>s2.
              Inr (s2\<lparr>connecting_tasks := connecting_tasks s2 @ [tid],
                      connecting_remote_peers := hm_insert peer tid (connecting_remote_peers s2),
                      connecting_meta := hm_insert tid
                        \<lparr>cm_current_client_identity = identity s2, cm_remote_peer_identity = peer,
                         cm_connection_attempt = attempt, cm_endpoint_idx = endpoint_idx\<rparr> (connecting_meta s2),
                      next_task_id := Suc tid\<rparr>)))))"

section \<open>Eviction\<close>

fun cancel_task :: "worker_task \<Rightarrow> worker_task" where
  "cancel_task (Running w) = Running (w\<lparr>w_cancel := True\<rparr>)"
| "cancel_task (Finished c) = Finished c"

definition cancel_worker :: "task_id \<Rightarrow> gateway \<Rightarrow> gateway" where
  "cancel_worker tid s =
     (case hm_get (tx_worker_set s) tid of
        None \<Rightarrow> s
      | Some t \<Rightarrow> s\<lparr>tx_worker_set := hm_insert tid (cancel_task t) (tx_worker_set s)\<rparr>)"

definition evict_peer :: "pubkey \<Rightarrow> gateway \<Rightarrow> gateway" where
  "evict_peer peer s =
     (case hm_get (tx_worker_handle_map s) peer of
        None \<Rightarrow> s
      | Some handle \<Rightarrow>
          (cancel_worker (wh_task handle) s)
            \<lparr>being_evicted_peers := insert (wh_remote_peer_identity handle) (being_evicted_peers s)\<rparr>)"

definition do_eviction_if_required :: "eviction_plan \<Rightarrow> instant \<Rightarrow> gateway \<Rightarrow> gateway res" where
  "do_eviction_if_required plan now s =
     (let eviction_count_required =
            length (connecting_blocked_by_eviction_list s) - card (being_evicted_peers s)
      in if eviction_count_required = 0 then Inr s
         else res_bind (plan now (active_staked_sorted_remote_peer s) (last_peer_activity s)
                (being_evicted_peers s) eviction_count_required)
              (\<lambda>peers. Inr (fold evict_peer peers s)))"

section \<open>Workers\<close>

definition install_worker :: "pubkey \<Rightarrow> socket_addr \<Rightarrow> gateway \<Rightarrow> gateway res" where
  "install_worker peer addr s =
     (if transaction_sender_worker_channel_capacity (config s) = 0
      then Inl (Panic ''mpsc bounded channel requires buffer > 0'')
      else
        (let tid = next_task_id s;
             w = \<lparr>w_remote_peer = peer, w_remote_addr = addr, w_incoming = [], w_senders_open = True,
                  w_tx_queue = (case hm_get (tx_queues s) peer of None \<Rightarrow> [] | Some q \<Rightarrow> q),
                  w_cancel = False, w_max_tx_attempt = max_send_attempt (config s)\<rparr>
         in if hm_contains (tx_worker_handle_map s) peer
            then Inl (Panic ''assertion failed: tx_worker_handle_map.insert is_none'')
            else Inr (s\<lparr>tx_queues := hm_remove peer (tx_queues s),
                        tx_worker_set := hm_insert tid (Running w) (tx_worker_set s),
                        tx_worker_handle_map := hm_insert peer
                          \<lparr>wh_remote_peer_identity = peer, wh_remote_peer_addr = addr, wh_task = tid\<rparr>
                          (tx_worker_handle_map s),
                        tx_worker_task_meta_map := hm_insert tid peer (tx_worker_task_meta_map s),
                        next_task_id := Suc tid\<rparr>)))"

text \<open>The bookkeeping at the end of a connecting task, common to success, failure and join errors.\<close>

definition connecting_finished :: "task_id \<Rightarrow> gateway \<Rightarrow> (connecting_meta \<times> gateway) res" where
  "connecting_finished tid s =
     res_bind (expect ''connecting_meta'' (hm_get (connecting_meta s) tid)) (\<lambda>meta.
     res_bind (update_usage (cm_endpoint_idx meta) (removeAll (cm_remote_peer_identity meta))
        (s\<lparr>connecting_meta := hm_remove tid (connecting_meta s)\<rparr>)) (\<lambda>s1.
       Inr (meta, s1\<lparr>connecting_remote_peers := hm_remove (cm_remote_peer_identity meta) (connecting_remote_peers s1)\<rparr>)))"

definition handle_connecting_ok :: "gw_env \<Rightarrow> task_id \<Rightarrow> connecting_error + socket_addr \<Rightarrow> gateway \<Rightarrow> gateway res" where
  "handle_connecting_ok env tid result s =
     res_bind (connecting_finished tid s) (\<lambda>(meta, s1).
       (let peer = cm_remote_peer_identity meta; attempt = cm_connection_attempt meta
        in if identity s1 \<noteq> cm_current_client_identity meta then spawn_connecting peer attempt s1
           else (case result of
             Inr addr \<Rightarrow>
               (let stake = (case env_stake env peer of None \<Rightarrow> 0 | Some x \<Rightarrow> x)
                in install_worker peer addr
                     (s1\<lparr>active_staked_sorted_remote_peer :=
                           snd (peers_insert peer stake (active_staked_sorted_remote_peer s1)),
                         watcher_out := watcher_out s1 @ [RegisterWatch peer addr]\<rparr>))
           | Inl (ConnectError EndpointStopping) \<Rightarrow> Inl (Panic ''Endpoint is stopping'')
           | Inl (ConnectionError e) \<Rightarrow>
               (if attempt < max_connection_attempts (config s1)
                then spawn_connecting peer (attempt + 1) s1
                else Inr (unreachable_peer peer s1))
           | Inl _ \<Rightarrow> Inr (unreachable_peer peer s1))))"

text \<open>A join error: the attempt is forgotten, nothing else happens.\<close>

definition handle_connecting_join_err :: "task_id \<Rightarrow> gateway \<Rightarrow> gateway res" where
  "handle_connecting_join_err tid s = res_bind (connecting_finished tid s) (\<lambda>(meta, s1). Inr s1)"

section \<open>Transactions\<close>

text \<open>
  \<open>try_send\<close> into the bounded channel of a task: it is full at its capacity and closed when the receiver is gone. A
  finished worker's receiver is still alive inside its completion.
\<close>

datatype try_send = SendOk worker_task | SendFull | SendClosed

fun try_send_to :: "nat \<Rightarrow> gateway_transaction \<Rightarrow> worker_task option \<Rightarrow> try_send" where
  "try_send_to capacity tx None = SendClosed"
| "try_send_to capacity tx (Some (Running w)) =
     (if length (w_incoming w) < capacity then SendOk (Running (w\<lparr>w_incoming := w_incoming w @ [tx]\<rparr>)) else SendFull)"
| "try_send_to capacity tx (Some (Finished c)) =
     (if length (wc_rx c) < capacity then SendOk (Finished (c\<lparr>wc_rx := wc_rx c @ [tx]\<rparr>)) else SendFull)"

definition queue_tx :: "pubkey \<Rightarrow> tx_queue \<Rightarrow> gateway \<Rightarrow> gateway" where
  "queue_tx peer q s =
     s\<lparr>tx_queues := hm_insert peer ((case hm_get (tx_queues s) peer of None \<Rightarrow> [] | Some q \<Rightarrow> q) @ q) (tx_queues s)\<rparr>"

definition accept_tx :: "instant \<Rightarrow> gateway_transaction \<Rightarrow> gateway \<Rightarrow> gateway res" where
  "accept_tx now tx s =
     (let peer = gt_remote_peer tx;
          s1 = s\<lparr>last_peer_activity := hm_insert peer now (last_peer_activity s)\<rparr>
      in case hm_get (tx_worker_handle_map s1) peer of
           Some handle \<Rightarrow>
             (case try_send_to (transaction_sender_worker_channel_capacity (config s1)) tx
                     (hm_get (tx_worker_set s1) (wh_task handle)) of
                SendOk t \<Rightarrow> Inr (s1\<lparr>tx_worker_set := hm_insert (wh_task handle) t (tx_worker_set s1)\<rparr>)
              | SendFull \<Rightarrow>
                  Inr (s1\<lparr>response_outlet := response_outlet s1 @
                         [TxDrop \<lparr>td_remote_peer_identity = peer, td_drop_reason = RateLimited,
                                  td_dropped_gateway_tx_vec = [(tx, 1)]\<rparr>]\<rparr>)
              | SendClosed \<Rightarrow> Inr (queue_tx peer [(tx, 1)] s1))
         | None \<Rightarrow>
             (let s2 = queue_tx peer [(tx, 1)] s1
              in if hm_contains (connecting_remote_peers s2) peer then Inr s2
                 else spawn_connecting peer 1 s2))"

text \<open>
  \<open>unblock_eviction_waiting_connection\<close>: the waiting connections are notified one by one until one of them is
  still wanted.
\<close>

fun unblock :: "(pubkey, task_id) hmap \<Rightarrow> (pubkey \<times> task_id) list \<Rightarrow> task_id list \<times> (pubkey \<times> task_id) list" where
  "unblock connecting [] = ([], [])"
| "unblock connecting ((peer, tid) # rest) =
     (if hm_contains connecting peer then ([tid], rest)
      else (let (ids, rest') = unblock connecting rest in (tid # ids, rest')))"

definition unblock_eviction_waiting_connection :: "gateway \<Rightarrow> gateway" where
  "unblock_eviction_waiting_connection s =
     (let (ids, rest) = unblock (connecting_remote_peers s) (connecting_blocked_by_eviction_list s)
      in s\<lparr>notified_tasks := notified_tasks s @ ids, connecting_blocked_by_eviction_list := rest\<rparr>)"

definition handle_worker_completed :: "gw_env \<Rightarrow> task_id \<Rightarrow> tx_sender_worker_completed \<Rightarrow> gateway \<Rightarrow> gateway res" where
  "handle_worker_completed env tid c s =
     res_bind (expect ''tx worker meta'' (hm_get (tx_worker_task_meta_map s) tid)) (\<lambda>peer.
       (let s1 = s\<lparr>tx_worker_task_meta_map := hm_remove tid (tx_worker_task_meta_map s),
                   active_staked_sorted_remote_peer := snd (peers_remove peer (active_staked_sorted_remote_peer s)),
                   watcher_out := watcher_out s @ [DeregisterWatch peer]\<rparr>;
            s2 = unblock_eviction_waiting_connection s1;
            is_evicted_conn = (peer \<in> being_evicted_peers s2);
            s3 = s2\<lparr>being_evicted_peers := being_evicted_peers s2 - {peer}\<rparr>
        in res_bind (expect ''tx worker sender'' (hm_get (tx_worker_handle_map s3) peer)) (\<lambda>handle.
             (let s4 = queue_tx peer (map (\<lambda>tx. (tx, 1)) (wc_rx c) @ wc_pending_tx c)
                         (s3\<lparr>tx_worker_handle_map := hm_remove peer (tx_worker_handle_map s3),
                             last_peer_activity := hm_remove peer (last_peer_activity s3)\<rparr>)
              in if wc_err c = Some (ConnectionLost VersionMismatch) then Inr (unreachable_peer peer s4)
                 else if is_evicted_conn then Inr (drop_peer_queued_tx peer DropByGateway s4)
                 else if hm_get (tx_queues s4) peer \<noteq> Some []
                 then spawn_connecting peer 1
                        (s4\<lparr>last_peer_activity := hm_insert peer (env_now env) (last_peer_activity s4)\<rparr>)
                 else Inr s4))))"

section \<open>Identity\<close>

fun drop_sender :: "worker_task \<Rightarrow> worker_task" where
  "drop_sender (Running w) = Running (w\<lparr>w_senders_open := False\<rparr>)"
| "drop_sender (Finished c) = Finished c"

definition schedule_graceful_drop_all_worker :: "gateway \<Rightarrow> gateway" where
  "schedule_graceful_drop_all_worker s =
     s\<lparr>tx_worker_task_meta_map := [], tx_worker_handle_map := [], tx_worker_set := [],
       tasklet := hm_insert (next_task_id s) (map (\<lambda>(tid, t). (tid, drop_sender t)) (tx_worker_set s)) (tasklet s),
       tasklet_meta := List.insert (next_task_id s) (tasklet_meta s),
       next_task_id := Suc (next_task_id s)\<rparr>"

fun spawn_all :: "connecting_meta list \<Rightarrow> gateway \<Rightarrow> gateway res" where
  "spawn_all [] s = Inr s"
| "spawn_all (m # ms) s =
     res_bind (spawn_connecting (cm_remote_peer_identity m) (cm_connection_attempt m) s) (spawn_all ms)"

text \<open>The two commands differ in what they wait for and wake; their effect on the runtime is the same.\<close>

definition update_identity :: "pubkey \<Rightarrow> gateway \<Rightarrow> gateway res" where
  "update_identity new_identity s =
     (let s1 = schedule_graceful_drop_all_worker s;
          s2 = s1\<lparr>connecting_tasks := [], connecting_remote_peers := [], connecting_meta := [],
                  identity := new_identity\<rparr>
      in spawn_all (hm_values (connecting_meta s1)) s2)"

fun handle_cnc :: "gateway_command \<Rightarrow> gateway \<Rightarrow> gateway res" where
  "handle_cnc (UpdateIdentity new_identity) s = update_identity new_identity s"
| "handle_cnc (MultiStepIdentitySynchronization new_identity) s = update_identity new_identity s"

text \<open>The drop task ends when all its workers have; their completions are thrown away.\<close>

fun finished_completion :: "worker_task \<Rightarrow> tx_sender_worker_completed option" where
  "finished_completion (Running w) = None"
| "finished_completion (Finished c) = Some c"

definition handle_tasklet_result :: "task_id \<Rightarrow> (task_id, worker_task) hmap \<Rightarrow> gateway \<Rightarrow> gateway res" where
  "handle_tasklet_result tid workers s =
     (if tid \<in> set (tasklet_meta s)
      then Inr (s\<lparr>tasklet_meta := removeAll tid (tasklet_meta s),
                  discarded := discarded s @ List.map_filter finished_completion (hm_values workers)\<rparr>)
      else Inl (Panic ''tasklet meta''))"

section \<open>Address changes and predictions\<close>

definition peer_addr_changed :: "gw_env \<Rightarrow> pubkey \<Rightarrow> gateway \<Rightarrow> gateway" where
  "peer_addr_changed env peer s =
     (case hm_get (tx_worker_handle_map s) peer of
        Some handle \<Rightarrow>
          (case get_quic_dest_addr (env_service env) peer (tpu_port_kind (config s)) of
             Some new_addr \<Rightarrow> if new_addr \<noteq> wh_remote_peer_addr handle then cancel_worker (wh_task handle) s else s
           | None \<Rightarrow> cancel_worker (wh_task handle) s)
      | None \<Rightarrow> s)"

definition handle_remote_peer_addr_change :: "gw_env \<Rightarrow> pubkey list \<Rightarrow> gateway \<Rightarrow> gateway" where
  "handle_remote_peer_addr_change env peers s = fold (peer_addr_changed env) peers s"

fun spawn_predicted :: "pubkey list \<Rightarrow> gateway \<Rightarrow> gateway res" where
  "spawn_predicted [] s = Inr s"
| "spawn_predicted (leader # leaders) s =
     res_bind (if hm_contains (tx_worker_handle_map s) leader \<or> hm_contains (connecting_remote_peers s) leader
               then Inr s else spawn_connecting leader (max_connection_attempts (config s)) s)
       (spawn_predicted leaders)"

definition forever :: duration where
  "forever = 31536000 * 1000000000"

definition try_predict_upcoming_leaders_if_necessary :: "gw_env \<Rightarrow> gateway \<Rightarrow> gateway res" where
  "try_predict_upcoming_leaders_if_necessary env s =
     (if env_now env - next_leader_prediction_deadline s = 0 then Inr s
      else (case leader_prediction_lookahead (config s) of
              Some lh \<Rightarrow>
                (let ms = default_ms_per_slot (config s);
                     wait_dur = max (ms * (num_consecutive_leader_slots (config s) - 1)) ms * 1000000
                 in spawn_predicted (env_predict env lh)
                      (s\<lparr>next_leader_prediction_deadline := env_now env + wait_dur\<rparr>))
            | None \<Rightarrow> Inr (s\<lparr>next_leader_prediction_deadline := env_now env + forever\<rparr>)))"

section \<open>The loop\<close>

text \<open>
  One event of \<open>run\<close>. \<open>WorkerTask\<close> and \<open>DetachedTask\<close> are not events of the runtime: they are the workers' own
  iterations, which happen between them. An event about a task that is not running does not occur and changes nothing.
\<close>

datatype gw_event =
    TxInlet gateway_transaction
  | Cnc gateway_command
  | WorkerJoined task_id
  | WorkerJoinErr
  | ConnectingJoined task_id "connecting_error + socket_addr"
  | ConnectingJoinErr task_id
  | TaskletJoined task_id
  | AddrChanges "pubkey list"
  | WorkerTask task_id "nat \<Rightarrow> uni_outcome" worker_select
  | DetachedTask task_id task_id "nat \<Rightarrow> uni_outcome" worker_select

fun iterate_task :: "(nat \<Rightarrow> uni_outcome) \<Rightarrow> worker_select \<Rightarrow> worker_task \<Rightarrow> worker_task \<times> gateway_response list" where
  "iterate_task answers sel (Running w) = worker_iteration answers sel w"
| "iterate_task answers sel (Finished c) = (Finished c, [])"

fun gw_handle :: "gw_env \<Rightarrow> gw_event \<Rightarrow> gateway \<Rightarrow> gateway res" where
  "gw_handle env (TxInlet tx) s = accept_tx (env_now env) tx s"
| "gw_handle env (Cnc command) s = handle_cnc command s"
| "gw_handle env (WorkerJoined tid) s =
     (case hm_get (tx_worker_set s) tid of
        Some (Finished c) \<Rightarrow> handle_worker_completed env tid c (s\<lparr>tx_worker_set := hm_remove tid (tx_worker_set s)\<rparr>)
      | _ \<Rightarrow> Inr s)"
| "gw_handle env WorkerJoinErr s = Inl (Panic ''Join error during tx sender worker ended'')"
| "gw_handle env (ConnectingJoined tid result) s =
     (if tid \<in> set (connecting_tasks s)
      then handle_connecting_ok env tid result (s\<lparr>connecting_tasks := removeAll tid (connecting_tasks s)\<rparr>)
      else Inr s)"
| "gw_handle env (ConnectingJoinErr tid) s =
     (if tid \<in> set (connecting_tasks s)
      then handle_connecting_join_err tid (s\<lparr>connecting_tasks := removeAll tid (connecting_tasks s)\<rparr>)
      else Inr s)"
| "gw_handle env (TaskletJoined tid) s =
     (case hm_get (tasklet s) tid of
        Some workers \<Rightarrow>
          (if \<forall>t \<in> set (hm_values workers). finished_completion t \<noteq> None
           then handle_tasklet_result tid workers (s\<lparr>tasklet := hm_remove tid (tasklet s)\<rparr>)
           else Inr s)
      | None \<Rightarrow> Inr s)"
| "gw_handle env (AddrChanges peers) s = Inr (handle_remote_peer_addr_change env peers s)"
| "gw_handle env (WorkerTask tid answers sel) s =
     (case hm_get (tx_worker_set s) tid of
        Some t \<Rightarrow> (let (t', out) = iterate_task answers sel t
                   in Inr (s\<lparr>tx_worker_set := hm_insert tid t' (tx_worker_set s),
                             response_outlet := response_outlet s @ out\<rparr>))
      | None \<Rightarrow> Inr s)"
| "gw_handle env (DetachedTask tk tid answers sel) s =
     (case hm_get (tasklet s) tk of
        Some workers \<Rightarrow>
          (case hm_get workers tid of
             Some t \<Rightarrow> (let (t', out) = iterate_task answers sel t
                        in Inr (s\<lparr>tasklet := hm_insert tk (hm_insert tid t' workers) (tasklet s),
                                  response_outlet := response_outlet s @ out\<rparr>))
           | None \<Rightarrow> Inr s)
      | None \<Rightarrow> Inr s)"

fun is_own_event :: "gw_event \<Rightarrow> bool" where
  "is_own_event (WorkerTask _ _ _) = False"
| "is_own_event (DetachedTask _ _ _ _) = False"
| "is_own_event _ = True"

definition gw_loop_top :: "eviction_plan \<Rightarrow> gw_env \<Rightarrow> gateway \<Rightarrow> gateway res" where
  "gw_loop_top plan env s =
     res_bind (do_eviction_if_required plan (env_now env) s) (try_predict_upcoming_leaders_if_necessary env)"

text \<open>Handling an event of the runtime is followed at once by the top of the next iteration.\<close>

definition gw_step :: "eviction_plan \<Rightarrow> gw_env \<times> gw_event \<Rightarrow> gateway \<Rightarrow> gateway res" where
  "gw_step plan ev s =
     (let (env, e) = ev
      in if is_own_event e then res_bind (gw_handle env e s) (gw_loop_top plan env)
         else gw_handle env e s)"

fun gw_steps :: "eviction_plan \<Rightarrow> (gw_env \<times> gw_event) list \<Rightarrow> gateway \<Rightarrow> gateway res" where
  "gw_steps plan [] s = Inr s"
| "gw_steps plan (e # es) s = res_bind (gw_step plan e s) (gw_steps plan es)"

definition gw_run :: "eviction_plan \<Rightarrow> gw_env \<Rightarrow> (gw_env \<times> gw_event) list \<Rightarrow> gateway \<Rightarrow> gateway res" where
  "gw_run plan env es s = res_bind (gw_loop_top plan env s) (gw_steps plan es)"

text \<open>When the inlet closes, the runtime leaves the loop and detaches its workers.\<close>

definition gw_inlet_closed :: "gateway \<Rightarrow> gateway" where
  "gw_inlet_closed s = schedule_graceful_drop_all_worker s"

end
