(* ===== verification/Jet_Gateway_Safety.thy ===== *)
theory Jet_Gateway_Safety
  imports Jet_Gateway
begin

text \<open>
  The invariant of the gateway and the absence of panics. \<open>conn_inv\<close>: the maps of connecting tasks are inverse to each
  other and list exactly the running tasks. \<open>work_inv\<close>: handles, metadata and worker tasks agree, and a peer with a
  worker is not being connected to. \<open>aux_inv\<close>: the set of peers and the drop tasks are well formed. Every handler keeps
  them. \<open>activity_inv\<close>: every peer that may be evicted has a last activity; it holds without leader prediction and
  is what the eviction strategy needs, so the panic lemmas are proved in the strategy's locale.
\<close>

section \<open>The invariant\<close>

text \<open>Connecting tasks: the two maps are inverse to each other and list exactly the tasks of the \<open>JoinSet\<close>.\<close>

definition conn_inv :: "gateway \<Rightarrow> bool" where
  "conn_inv s \<longleftrightarrow>
     (\<forall>p tid. hm_get (connecting_remote_peers s) p = Some tid \<longleftrightarrow>
        (\<exists>m. hm_get (connecting_meta s) tid = Some m \<and> cm_remote_peer_identity m = p)) \<and>
     (\<forall>tid. tid \<in> set (connecting_tasks s) \<longleftrightarrow> hm_get (connecting_meta s) tid \<noteq> None) \<and>
     (\<forall>tid m. hm_get (connecting_meta s) tid = Some m \<longrightarrow>
        cm_endpoint_idx m < length (endpoints_usage s) \<and> tid < next_task_id s) \<and>
     endpoints_usage s \<noteq> [] \<and> hm_wf (connecting_meta s)"

text \<open>Workers: handles, metadata and tasks agree, and a peer with a worker is not being connected to.\<close>

definition work_inv :: "gateway \<Rightarrow> bool" where
  "work_inv s \<longleftrightarrow>
     (\<forall>p tid. hm_get (tx_worker_task_meta_map s) tid = Some p \<longleftrightarrow>
        (\<exists>h. hm_get (tx_worker_handle_map s) p = Some h \<and> wh_task h = tid)) \<and>
     (\<forall>tid. hm_get (tx_worker_set s) tid = None \<longleftrightarrow> hm_get (tx_worker_task_meta_map s) tid = None) \<and>
     (\<forall>tid p. hm_get (tx_worker_task_meta_map s) tid = Some p \<longrightarrow> tid < next_task_id s) \<and>
     (\<forall>p h. hm_get (tx_worker_handle_map s) p = Some h \<longrightarrow>
        wh_remote_peer_identity h = p \<and> hm_get (connecting_remote_peers s) p = None \<and>
        hm_get (peer_stake_map (active_staked_sorted_remote_peer s)) p \<noteq> None) \<and>
     transaction_sender_worker_channel_capacity (config s) > 0"

definition aux_inv :: "gateway \<Rightarrow> bool" where
  "aux_inv s \<longleftrightarrow>
     peers_inv (active_staked_sorted_remote_peer s) \<and> hm_wf (tx_queues s) \<and> hm_wf (tx_worker_set s) \<and>
     hm_wf (tasklet s) \<and> (\<forall>tid ws. hm_get (tasklet s) tid = Some ws \<longrightarrow> hm_wf ws) \<and>
     (\<forall>tid. tid \<in> set (tasklet_meta s) \<longleftrightarrow> hm_get (tasklet s) tid \<noteq> None) \<and>
     (\<forall>tid. hm_get (tasklet s) tid \<noteq> None \<longrightarrow> tid < next_task_id s) \<and> finite (being_evicted_peers s)"

definition gw_inv :: "gateway \<Rightarrow> bool" where
  "gw_inv s \<longleftrightarrow> conn_inv s \<and> work_inv s \<and> aux_inv s"

lemma conn_invD:
  assumes "conn_inv s"
  shows "hm_get (connecting_remote_peers s) p = Some tid \<longleftrightarrow>
      (\<exists>m. hm_get (connecting_meta s) tid = Some m \<and> cm_remote_peer_identity m = p)"
    and "tid \<in> set (connecting_tasks s) \<longleftrightarrow> hm_get (connecting_meta s) tid \<noteq> None"
    and "hm_get (connecting_meta s) tid = Some m \<Longrightarrow> cm_endpoint_idx m < length (endpoints_usage s)"
    and "hm_get (connecting_meta s) tid = Some m \<Longrightarrow> tid < next_task_id s"
    and "endpoints_usage s \<noteq> []" and "hm_wf (connecting_meta s)"
  using assms unfolding conn_inv_def by blast+

lemma work_invD:
  assumes "work_inv s"
  shows "hm_get (tx_worker_task_meta_map s) tid = Some p \<longleftrightarrow>
      (\<exists>h. hm_get (tx_worker_handle_map s) p = Some h \<and> wh_task h = tid)"
    and "hm_get (tx_worker_set s) tid = None \<longleftrightarrow> hm_get (tx_worker_task_meta_map s) tid = None"
    and "hm_get (tx_worker_task_meta_map s) tid = Some p \<Longrightarrow> tid < next_task_id s"
    and "hm_get (tx_worker_handle_map s) p = Some h \<Longrightarrow> wh_remote_peer_identity h = p"
    and "hm_get (tx_worker_handle_map s) p = Some h \<Longrightarrow> hm_get (connecting_remote_peers s) p = None"
    and "hm_get (tx_worker_handle_map s) p = Some h \<Longrightarrow>
      hm_get (peer_stake_map (active_staked_sorted_remote_peer s)) p \<noteq> None"
    and "transaction_sender_worker_channel_capacity (config s) > 0"
  using assms unfolding work_inv_def by blast+

lemma work_invI:
  assumes "\<And>p tid. hm_get (tx_worker_task_meta_map s) tid = Some p \<longleftrightarrow>
      (\<exists>h. hm_get (tx_worker_handle_map s) p = Some h \<and> wh_task h = tid)"
    and "\<And>tid. hm_get (tx_worker_set s) tid = None \<longleftrightarrow> hm_get (tx_worker_task_meta_map s) tid = None"
    and "\<And>tid p. hm_get (tx_worker_task_meta_map s) tid = Some p \<Longrightarrow> tid < next_task_id s"
    and "\<And>p h. hm_get (tx_worker_handle_map s) p = Some h \<Longrightarrow> wh_remote_peer_identity h = p"
    and "\<And>p h. hm_get (tx_worker_handle_map s) p = Some h \<Longrightarrow> hm_get (connecting_remote_peers s) p = None"
    and "\<And>p h. hm_get (tx_worker_handle_map s) p = Some h \<Longrightarrow>
      hm_get (peer_stake_map (active_staked_sorted_remote_peer s)) p \<noteq> None"
    and "transaction_sender_worker_channel_capacity (config s) > 0"
  shows "work_inv s"
  using assms unfolding work_inv_def by blast

lemma conn_invI:
  assumes "\<And>p tid. hm_get (connecting_remote_peers s) p = Some tid \<longleftrightarrow>
      (\<exists>m. hm_get (connecting_meta s) tid = Some m \<and> cm_remote_peer_identity m = p)"
    and "\<And>tid. tid \<in> set (connecting_tasks s) \<longleftrightarrow> hm_get (connecting_meta s) tid \<noteq> None"
    and "\<And>tid m. hm_get (connecting_meta s) tid = Some m \<Longrightarrow> cm_endpoint_idx m < length (endpoints_usage s)"
    and "\<And>tid m. hm_get (connecting_meta s) tid = Some m \<Longrightarrow> tid < next_task_id s"
    and "endpoints_usage s \<noteq> []" and "hm_wf (connecting_meta s)"
  shows "conn_inv s"
  using assms unfolding conn_inv_def by blast

lemma get_least_used_endpoint_Inr:
  assumes "usage \<noteq> []"
  shows "\<exists>i < length usage. get_least_used_endpoint usage = Inr i"
proof -
  obtain u where u: "u \<in> set usage" "\<And>v. v \<in> set usage \<Longrightarrow> length u \<le> length v"
    using assms by (metis (no_types, lifting) arg_min_list_in f_arg_min_list_f Min_le finite_imageI finite_set imageI set_map)
  then obtain j where "j < length usage" "usage ! j = u" by (meson in_set_conv_nth)
  then have "find (\<lambda>i. \<forall>u \<in> set usage. length (usage ! i) \<le> length u) [0..<length usage] \<noteq> None"
    using u(2) by (auto simp: find_None_iff)
  then obtain i where i: "find (\<lambda>i. \<forall>u \<in> set usage. length (usage ! i) \<le> length u) [0..<length usage] = Some i"
    by blast
  then have "i \<in> set [0..<length usage]" unfolding find_Some_iff by (metis nth_mem)
  then show ?thesis using i by (simp add: get_least_used_endpoint_def)
qed

text \<open>The three outcomes of \<open>spawn_connecting\<close>.\<close>

lemma spawn_connecting_cases:
  assumes "endpoints_usage s \<noteq> []"
  obtains (same) "spawn_connecting peer attempt s = Inr s"
      "hm_contains (connecting_remote_peers s) peer \<or> hm_contains (tx_worker_handle_map s) peer"
  | (evicting) "spawn_connecting peer attempt s = Inr (drop_peer_queued_tx peer RemotePeerBeingEvicted s)"
      "peer \<in> being_evicted_peers s"
  | (spawned) idx usage blocked where "idx < length (endpoints_usage s)" "length usage = length (endpoints_usage s)"
      "peer \<notin> being_evicted_peers s"
      "hm_get (connecting_remote_peers s) peer = None" "hm_get (tx_worker_handle_map s) peer = None"
      "spawn_connecting peer attempt s =
         Inr (s\<lparr>connecting_blocked_by_eviction_list := blocked, endpoints_usage := usage,
                connecting_tasks := connecting_tasks s @ [next_task_id s],
                connecting_remote_peers := hm_insert peer (next_task_id s) (connecting_remote_peers s),
                connecting_meta := hm_insert (next_task_id s)
                  \<lparr>cm_current_client_identity = identity s, cm_remote_peer_identity = peer,
                   cm_connection_attempt = attempt, cm_endpoint_idx = idx\<rparr> (connecting_meta s),
                next_task_id := Suc (next_task_id s)\<rparr>)"
proof -
  consider (a) "hm_contains (connecting_remote_peers s) peer"
    | (b) "\<not> hm_contains (connecting_remote_peers s) peer" "peer \<in> being_evicted_peers s"
    | (c) "\<not> hm_contains (connecting_remote_peers s) peer" "peer \<notin> being_evicted_peers s"
          "hm_contains (tx_worker_handle_map s) peer"
    | (d) "\<not> hm_contains (connecting_remote_peers s) peer" "peer \<notin> being_evicted_peers s"
          "\<not> hm_contains (tx_worker_handle_map s) peer"
    by blast
  then show ?thesis
  proof cases
    case a
    then show ?thesis using same by (simp add: spawn_connecting_def)
  next
    case b
    then show ?thesis using evicting by (simp add: spawn_connecting_def)
  next
    case c
    then show ?thesis using same by (simp add: spawn_connecting_def)
  next
    case d
    obtain i where i: "i < length (endpoints_usage s)" "get_least_used_endpoint (endpoints_usage s) = Inr i"
      using get_least_used_endpoint_Inr [OF assms] by blast
    show ?thesis
    proof (rule spawned [where usage = "(endpoints_usage s)[i := List.insert peer (endpoints_usage s ! i)]"
          and blocked = "connecting_blocked_by_eviction_list s @
            (if has_connection_capacity s then [] else [(peer, next_task_id s)])", OF i(1)])
      show "hm_get (connecting_remote_peers s) peer = None" "hm_get (tx_worker_handle_map s) peer = None"
        using d by (simp_all add: hm_contains_iff)
    qed (use d i in \<open>auto simp: spawn_connecting_def Let_def update_usage_def\<close>)
  qed
qed

lemma drop_peer_queued_tx_frame [simp]:
  "config (drop_peer_queued_tx p r s) = config s"
  "tx_worker_handle_map (drop_peer_queued_tx p r s) = tx_worker_handle_map s"
  "active_staked_sorted_remote_peer (drop_peer_queued_tx p r s) = active_staked_sorted_remote_peer s"
  "tx_worker_task_meta_map (drop_peer_queued_tx p r s) = tx_worker_task_meta_map s"
  "tx_worker_set (drop_peer_queued_tx p r s) = tx_worker_set s"
  "endpoints_usage (drop_peer_queued_tx p r s) = endpoints_usage s"
  "connecting_tasks (drop_peer_queued_tx p r s) = connecting_tasks s"
  "connecting_meta (drop_peer_queued_tx p r s) = connecting_meta s"
  "connecting_remote_peers (drop_peer_queued_tx p r s) = connecting_remote_peers s"
  "tasklet (drop_peer_queued_tx p r s) = tasklet s"
  "tasklet_meta (drop_peer_queued_tx p r s) = tasklet_meta s"
  "last_peer_activity (drop_peer_queued_tx p r s) = last_peer_activity s"
  "being_evicted_peers (drop_peer_queued_tx p r s) = being_evicted_peers s"
  "next_task_id (drop_peer_queued_tx p r s) = next_task_id s"
  "discarded (drop_peer_queued_tx p r s) = discarded s"
  "identity (drop_peer_queued_tx p r s) = identity s"
  by (simp_all add: drop_peer_queued_tx_def split: option.split)

lemma drop_peer_queued_tx_inv [inv_intros]:
  "gw_inv s \<Longrightarrow> gw_inv (drop_peer_queued_tx p r s)"
proof -
  have "hm_wf (tx_queues s) \<Longrightarrow> hm_wf (tx_queues (drop_peer_queued_tx p r s))"
    by (simp add: drop_peer_queued_tx_def split: option.split)
  then show "gw_inv s \<Longrightarrow> gw_inv (drop_peer_queued_tx p r s)"
    by (simp add: gw_inv_def conn_inv_def work_inv_def aux_inv_def)
qed

lemma conn_inv_fresh:
  assumes "conn_inv s"
  shows "hm_get (connecting_meta s) (next_task_id s) = None"
    and "hm_get (connecting_remote_peers s) p \<noteq> Some (next_task_id s)"
proof -
  show "hm_get (connecting_meta s) (next_task_id s) = None"
    using assms unfolding conn_inv_def by (cases "hm_get (connecting_meta s) (next_task_id s)") auto
  then show "hm_get (connecting_remote_peers s) p \<noteq> Some (next_task_id s)"
    using assms unfolding conn_inv_def by simp
qed

lemma spawn_connecting_inv [inv_intros]:
  assumes "gw_inv s"
  shows "\<exists>s'. spawn_connecting peer attempt s = Inr s' \<and> gw_inv s'"
proof -
  have conn: "conn_inv s" and work: "work_inv s" and aux: "aux_inv s" using assms by (simp_all add: gw_inv_def)
  have "endpoints_usage s \<noteq> []" using conn by (simp add: conn_inv_def)
  then show ?thesis
  proof (cases rule: spawn_connecting_cases [where peer = peer and attempt = attempt])
    case same
    then show ?thesis using assms by blast
  next
    case evicting
    then show ?thesis using drop_peer_queued_tx_inv [OF assms] by blast
  next
    case (spawned idx usage blocked)
    define s' where "s' = s\<lparr>connecting_blocked_by_eviction_list := blocked, endpoints_usage := usage,
        connecting_tasks := connecting_tasks s @ [next_task_id s],
        connecting_remote_peers := hm_insert peer (next_task_id s) (connecting_remote_peers s),
        connecting_meta := hm_insert (next_task_id s)
          \<lparr>cm_current_client_identity = identity s, cm_remote_peer_identity = peer,
           cm_connection_attempt = attempt, cm_endpoint_idx = idx\<rparr> (connecting_meta s),
        next_task_id := Suc (next_task_id s)\<rparr>"
    note fresh = conn_inv_fresh [OF conn]
    have other: "cm_remote_peer_identity m \<noteq> peer" if "hm_get (connecting_meta s) tid = Some m" for tid m
      using conn spawned(4) that unfolding conn_inv_def by (metis option.distinct(1))
    have "conn_inv s'"
      unfolding conn_inv_def
    proof (intro conjI allI)
      fix p tid
      show "hm_get (connecting_remote_peers s') p = Some tid \<longleftrightarrow>
          (\<exists>m. hm_get (connecting_meta s') tid = Some m \<and> cm_remote_peer_identity m = p)"
        using conn fresh spawned(4) by (auto simp: s'_def conn_inv_def dest: other)
    qed (use conn spawned(1,2) in \<open>auto simp: s'_def conn_inv_def less_SucI\<close>)
    moreover have "work_inv s'"
      using work spawned(5) by (auto simp: s'_def work_inv_def less_SucI)
    moreover have "aux_inv s'"
      using aux by (auto simp: s'_def aux_inv_def less_SucI)
    ultimately show ?thesis using spawned(6) by (simp add: s'_def gw_inv_def)
  qed
qed

lemma spawn_connecting_keeps: "gw_inv s \<Longrightarrow> spawn_connecting peer attempt s = Inr s' \<Longrightarrow> gw_inv s'"
  using spawn_connecting_inv [of s peer attempt] by auto

lemma cancel_worker_frame [simp]:
  "config (cancel_worker tid s) = config s"
  "tx_worker_handle_map (cancel_worker tid s) = tx_worker_handle_map s"
  "active_staked_sorted_remote_peer (cancel_worker tid s) = active_staked_sorted_remote_peer s"
  "tx_worker_task_meta_map (cancel_worker tid s) = tx_worker_task_meta_map s"
  "tx_queues (cancel_worker tid s) = tx_queues s"
  "endpoints_usage (cancel_worker tid s) = endpoints_usage s"
  "connecting_tasks (cancel_worker tid s) = connecting_tasks s"
  "connecting_meta (cancel_worker tid s) = connecting_meta s"
  "connecting_remote_peers (cancel_worker tid s) = connecting_remote_peers s"
  "response_outlet (cancel_worker tid s) = response_outlet s"
  "tasklet (cancel_worker tid s) = tasklet s"
  "tasklet_meta (cancel_worker tid s) = tasklet_meta s"
  "last_peer_activity (cancel_worker tid s) = last_peer_activity s"
  "being_evicted_peers (cancel_worker tid s) = being_evicted_peers s"
  "next_task_id (cancel_worker tid s) = next_task_id s"
  "discarded (cancel_worker tid s) = discarded s"
  "next_leader_prediction_deadline (cancel_worker tid s) = next_leader_prediction_deadline s"
  by (simp_all add: cancel_worker_def split: option.split)

lemma cancel_worker_tasks:
  "hm_get (tx_worker_set (cancel_worker tid s)) i =
     (if i = tid then map_option cancel_task (hm_get (tx_worker_set s) tid) else hm_get (tx_worker_set s) i)"
  "hm_wf (tx_worker_set s) \<Longrightarrow> hm_wf (tx_worker_set (cancel_worker tid s))"
  by (simp_all add: cancel_worker_def split: option.split)

lemma cancel_worker_inv [inv_intros]: "gw_inv s \<Longrightarrow> gw_inv (cancel_worker tid s)"
  by (auto simp: gw_inv_def conn_inv_def work_inv_def aux_inv_def cancel_worker_tasks)

lemma evict_peer_inv [inv_intros]:
  assumes "gw_inv s"
  shows "gw_inv (evict_peer p s)"
proof (cases "hm_get (tx_worker_handle_map s) p")
  case (Some h)
  then show ?thesis
    using cancel_worker_inv [OF assms, of "wh_task h"]
    by (simp add: evict_peer_def gw_inv_def conn_inv_def work_inv_def aux_inv_def)
qed (simp add: evict_peer_def assms)

lemma fold_evict_inv: "gw_inv s \<Longrightarrow> gw_inv (fold evict_peer ps s)"
  by (induction ps arbitrary: s) (simp_all add: evict_peer_inv)

lemma addr_change_inv [inv_intros]:
  "gw_inv s \<Longrightarrow> gw_inv (handle_remote_peer_addr_change env ps s)"
  unfolding handle_remote_peer_addr_change_def
  by (induction ps arbitrary: s)
     (simp_all add: peer_addr_changed_def cancel_worker_inv split: option.split)

lemma connecting_finished_eq:
  assumes "gw_inv s" and "tid \<in> set (connecting_tasks s)"
  obtains meta usage s1 where "hm_get (connecting_meta s) tid = Some meta"
    and "s1 = s\<lparr>connecting_tasks := removeAll tid (connecting_tasks s), connecting_meta := hm_remove tid (connecting_meta s),
        endpoints_usage := usage,
        connecting_remote_peers := hm_remove (cm_remote_peer_identity meta) (connecting_remote_peers s)\<rparr>"
    and "connecting_finished tid (s\<lparr>connecting_tasks := removeAll tid (connecting_tasks s)\<rparr>) = Inr (meta, s1)"
    and "gw_inv s1" and "hm_get (tx_worker_handle_map s) (cm_remote_peer_identity meta) = None"
proof -
  have conn: "conn_inv s" and work: "work_inv s" and aux: "aux_inv s" using assms(1) by (simp_all add: gw_inv_def)
  obtain meta where meta: "hm_get (connecting_meta s) tid = Some meta"
    using conn assms(2) by (auto simp: conn_inv_def)
  let ?p = "cm_remote_peer_identity meta"
  have idx: "cm_endpoint_idx meta < length (endpoints_usage s)" using conn meta by (simp add: conn_inv_def)
  have crp: "hm_get (connecting_remote_peers s) ?p = Some tid" using conn meta by (simp add: conn_inv_def)
  have only: "i = tid" if "hm_get (connecting_meta s) i = Some m" "cm_remote_peer_identity m = ?p" for i m
  proof -
    have "hm_get (connecting_remote_peers s) ?p = Some i" using conn that unfolding conn_inv_def by blast
    then show ?thesis using crp by simp
  qed
  define usage where "usage = (endpoints_usage s)[cm_endpoint_idx meta := removeAll ?p (endpoints_usage s ! cm_endpoint_idx meta)]"
  define s1 where "s1 = s\<lparr>connecting_tasks := removeAll tid (connecting_tasks s), connecting_meta := hm_remove tid (connecting_meta s),
      endpoints_usage := usage, connecting_remote_peers := hm_remove ?p (connecting_remote_peers s)\<rparr>"
  note c = conn_invD [OF conn]
  have "conn_inv s1"
  proof (rule conn_invI)
    fix p i
    show "hm_get (connecting_remote_peers s1) p = Some i \<longleftrightarrow>
        (\<exists>m. hm_get (connecting_meta s1) i = Some m \<and> cm_remote_peer_identity m = p)"
    proof (cases "p = ?p")
      case True
      have "i = tid \<or> (\<nexists>m. hm_get (connecting_meta s) i = Some m \<and> cm_remote_peer_identity m = ?p)"
        using only by blast
      then show ?thesis unfolding True by (auto simp: s1_def)
    next
      case False
      have "hm_get (connecting_remote_peers s) p \<noteq> Some tid"
        using False meta unfolding c(1) by simp
      then show ?thesis using False c(1) [of p i] by (auto simp: s1_def)
    qed
  qed (use c in \<open>auto simp: s1_def usage_def split: if_splits\<close>)
  moreover have "work_inv s1" "aux_inv s1"
    using work aux by (auto simp: s1_def work_inv_def aux_inv_def)
  moreover have "hm_get (tx_worker_handle_map s) ?p = None"
    using work crp unfolding work_inv_def by (cases "hm_get (tx_worker_handle_map s) ?p") auto
  moreover have "connecting_finished tid (s\<lparr>connecting_tasks := removeAll tid (connecting_tasks s)\<rparr>) = Inr (meta, s1)"
    using meta idx by (simp add: connecting_finished_def update_usage_def s1_def usage_def)
  ultimately show ?thesis using that [OF meta s1_def] by (simp add: gw_inv_def)
qed

lemma work_inv_fresh:
  assumes "work_inv s"
  shows "hm_get (tx_worker_task_meta_map s) (next_task_id s) = None"
  using work_invD(3) [OF assms, of "next_task_id s"]
  by (cases "hm_get (tx_worker_task_meta_map s) (next_task_id s)") blast+

lemma install_worker_inv:
  assumes "gw_inv s" and "hm_get (connecting_remote_peers s) p = None" and "hm_get (tx_worker_handle_map s) p = None"
    and "hm_get (peer_stake_map (active_staked_sorted_remote_peer s)) p \<noteq> None"
  shows "\<exists>s'. install_worker p addr s = Inr s' \<and> gw_inv s'"
proof -
  have conn: "conn_inv s" and work: "work_inv s" and aux: "aux_inv s" using assms(1) by (simp_all add: gw_inv_def)
  define w where "w = \<lparr>w_remote_peer = p, w_remote_addr = addr, w_incoming = [], w_senders_open = True,
      w_tx_queue = (case hm_get (tx_queues s) p of None \<Rightarrow> [] | Some q \<Rightarrow> q),
      w_cancel = False, w_max_tx_attempt = max_send_attempt (config s)\<rparr>"
  define s' where "s' = s\<lparr>tx_queues := hm_remove p (tx_queues s),
      tx_worker_set := hm_insert (next_task_id s) (Running w) (tx_worker_set s),
      tx_worker_handle_map := hm_insert p
        \<lparr>wh_remote_peer_identity = p, wh_remote_peer_addr = addr, wh_task = next_task_id s\<rparr> (tx_worker_handle_map s),
      tx_worker_task_meta_map := hm_insert (next_task_id s) p (tx_worker_task_meta_map s),
      next_task_id := Suc (next_task_id s)\<rparr>"
  have "install_worker p addr s = Inr s'"
    using work assms(3) by (simp add: install_worker_def Let_def s'_def w_def work_inv_def hm_contains_iff)
  moreover have "conn_inv s'" using conn by (auto simp: s'_def conn_inv_def less_SucI)
  moreover have "aux_inv s'" using aux by (auto simp: s'_def aux_inv_def less_SucI)
  moreover have "work_inv s'"
  proof (rule work_invI)
    note w = work_invD [OF work] and fresh = work_inv_fresh [OF work]
    fix q tid
    have no: "wh_task h \<noteq> next_task_id s" if "hm_get (tx_worker_handle_map s) q = Some h" for h
      using w(1) [of "next_task_id s" q] fresh that by auto
    show "hm_get (tx_worker_task_meta_map s') tid = Some q \<longleftrightarrow>
        (\<exists>h. hm_get (tx_worker_handle_map s') q = Some h \<and> wh_task h = tid)"
      using w(1) [of tid q] assms(3) no by (auto simp: s'_def)
    show "hm_get (tx_worker_set s') tid = None \<longleftrightarrow> hm_get (tx_worker_task_meta_map s') tid = None"
      using w(2) [of tid] by (simp add: s'_def)
    show "hm_get (tx_worker_task_meta_map s') tid = Some q \<Longrightarrow> tid < next_task_id s'"
      using w(3) [of tid q] by (auto simp: s'_def split: if_splits)
  qed (use work_invD(4-7) [OF work] assms(2,4) in \<open>auto simp: s'_def split: if_splits\<close>)
  ultimately show ?thesis by (simp add: gw_inv_def)
qed

lemma queue_tx_inv [inv_intros]: "gw_inv s \<Longrightarrow> gw_inv (queue_tx p q s)"
  by (simp add: queue_tx_def gw_inv_def conn_inv_def work_inv_def aux_inv_def)

text \<open>An environment in which no local endpoint is shutting down.\<close>

fun benign :: "gw_event \<Rightarrow> bool" where
  "benign WorkerJoinErr = False"
| "benign (ConnectingJoined _ (Inl (ConnectError EndpointStopping))) = False"
| "benign _ = True"

lemma handle_connecting_ok_inv:
  assumes "gw_inv s" and "tid \<in> set (connecting_tasks s)" and "result \<noteq> Inl (ConnectError EndpointStopping)"
  shows "\<exists>s'. handle_connecting_ok env tid result (s\<lparr>connecting_tasks := removeAll tid (connecting_tasks s)\<rparr>) = Inr s' \<and> gw_inv s'"
proof -
  obtain meta usage s1 where meta: "hm_get (connecting_meta s) tid = Some meta"
    and s1: "s1 = s\<lparr>connecting_tasks := removeAll tid (connecting_tasks s), connecting_meta := hm_remove tid (connecting_meta s),
        endpoints_usage := usage,
        connecting_remote_peers := hm_remove (cm_remote_peer_identity meta) (connecting_remote_peers s)\<rparr>"
    and eq: "connecting_finished tid (s\<lparr>connecting_tasks := removeAll tid (connecting_tasks s)\<rparr>) = Inr (meta, s1)"
    and inv: "gw_inv s1" and none: "hm_get (tx_worker_handle_map s) (cm_remote_peer_identity meta) = None"
    using connecting_finished_eq [OF assms(1,2)] .
  let ?p = "cm_remote_peer_identity meta"
  show ?thesis
  proof (cases "identity s1 = cm_current_client_identity meta \<and> (\<exists>addr. result = Inr addr)")
    case True
    then obtain addr where addr: "result = Inr addr" by blast
    let ?s2 = "s1\<lparr>active_staked_sorted_remote_peer :=
        snd (peers_insert ?p (case env_stake env ?p of None \<Rightarrow> 0 | Some x \<Rightarrow> x) (active_staked_sorted_remote_peer s1)),
        watcher_out := watcher_out s1 @ [RegisterWatch ?p addr]\<rparr>"
    have "peers_inv (active_staked_sorted_remote_peer s1)" using inv by (simp add: gw_inv_def aux_inv_def)
    then have "gw_inv ?s2"
      using inv by (auto simp: gw_inv_def conn_inv_def work_inv_def aux_inv_def peers_insert_inv peers_insert_lookup)
    moreover have "hm_get (peer_stake_map (active_staked_sorted_remote_peer ?s2)) ?p \<noteq> None"
      by (simp add: peers_insert_fields)
    ultimately have "\<exists>s'. install_worker ?p addr ?s2 = Inr s' \<and> gw_inv s'"
      using none s1 by (intro install_worker_inv) simp_all
    then show ?thesis using True addr by (simp add: handle_connecting_ok_def eq Let_def)
  next
    case False
    then consider "identity s1 \<noteq> cm_current_client_identity meta" | e where "identity s1 = cm_current_client_identity meta" "result = Inl e"
      by (cases result) auto
    then show ?thesis
    proof cases
      case 1
      then show ?thesis using spawn_connecting_inv [OF inv] by (simp add: handle_connecting_ok_def eq Let_def)
    next
      case 2
      have "gw_inv (unreachable_peer ?p s1)" by (simp add: unreachable_peer_def drop_peer_queued_tx_inv inv)
      then show ?thesis
        using 2 spawn_connecting_inv [OF inv] assms(3)
        by (auto simp: handle_connecting_ok_def eq Let_def split: connecting_error.split connect_error.split)
    qed
  qed
qed

lemma set_task_inv:
  assumes "gw_inv s" and "hm_get (tx_worker_set s) tid \<noteq> None"
  shows "gw_inv (s\<lparr>tx_worker_set := hm_insert tid t (tx_worker_set s)\<rparr>)"
    and "gw_inv (s\<lparr>tx_worker_set := hm_insert tid t (tx_worker_set s), response_outlet := out\<rparr>)"
  using assms by (auto simp: gw_inv_def conn_inv_def work_inv_def aux_inv_def)

lemma gw_inv_log [simp]:
  "gw_inv (s\<lparr>last_peer_activity := a\<rparr>) = gw_inv s"
  "gw_inv (s\<lparr>response_outlet := out\<rparr>) = gw_inv s"
  "gw_inv (s\<lparr>next_leader_prediction_deadline := d\<rparr>) = gw_inv s"
  "gw_inv (s\<lparr>identity := me\<rparr>) = gw_inv s"
  by (simp_all add: gw_inv_def conn_inv_def work_inv_def aux_inv_def)

lemma queue_tx_frame [simp]:
  "tx_worker_handle_map (queue_tx p q s) = tx_worker_handle_map s"
  "connecting_remote_peers (queue_tx p q s) = connecting_remote_peers s"
  "being_evicted_peers (queue_tx p q s) = being_evicted_peers s"
  "last_peer_activity (queue_tx p q s) = last_peer_activity s"
  "active_staked_sorted_remote_peer (queue_tx p q s) = active_staked_sorted_remote_peer s"
  "config (queue_tx p q s) = config s"
  "tx_worker_set (queue_tx p q s) = tx_worker_set s" "tasklet (queue_tx p q s) = tasklet s"
  "response_outlet (queue_tx p q s) = response_outlet s" "discarded (queue_tx p q s) = discarded s"
  by (simp_all add: queue_tx_def)

lemma accept_tx_inv:
  assumes "gw_inv s"
  shows "\<exists>s'. accept_tx now tx s = Inr s' \<and> gw_inv s'"
proof -
  let ?p = "gt_remote_peer tx"
  let ?s1 = "s\<lparr>last_peer_activity := hm_insert ?p now (last_peer_activity s)\<rparr>"
  have inv: "gw_inv ?s1" using assms by simp
  show ?thesis
  proof (cases "hm_get (tx_worker_handle_map s) ?p")
    case None
    then show ?thesis
      using spawn_connecting_inv [OF queue_tx_inv [OF inv]] queue_tx_inv [OF inv]
      by (simp add: accept_tx_def Let_def)
  next
    case (Some h)
    have "hm_get (tx_worker_set ?s1) (wh_task h) \<noteq> None"
      using assms Some work_invD(1,2) [of s] by (auto simp: gw_inv_def)
    from set_task_inv(1) [OF inv this] show ?thesis
      using Some queue_tx_inv [OF inv] inv by (simp add: accept_tx_def Let_def split: try_send.split)
  qed
qed

lemma worker_removed_inv:
  assumes "gw_inv s" and "hm_get (tx_worker_task_meta_map s) tid = Some p"
    and "tx_worker_set s' = hm_remove tid (tx_worker_set s)"
    and "tx_worker_task_meta_map s' = hm_remove tid (tx_worker_task_meta_map s)"
    and "tx_worker_handle_map s' = hm_remove p (tx_worker_handle_map s)"
    and "active_staked_sorted_remote_peer s' = snd (peers_remove p (active_staked_sorted_remote_peer s))"
    and "finite (being_evicted_peers s')"
    and "connecting_remote_peers s' = connecting_remote_peers s" "connecting_meta s' = connecting_meta s"
    and "connecting_tasks s' = connecting_tasks s" "endpoints_usage s' = endpoints_usage s"
    and "next_task_id s' = next_task_id s" "config s' = config s" "tx_queues s' = tx_queues s"
    and "tasklet s' = tasklet s" "tasklet_meta s' = tasklet_meta s"
  shows "gw_inv s'"
proof -
  have conn: "conn_inv s" and work: "work_inv s" and aux: "aux_inv s" using assms(1) by (simp_all add: gw_inv_def)
  note w = work_invD [OF work]
  have act: "peers_inv (active_staked_sorted_remote_peer s)" using aux by (simp add: aux_inv_def)
  have "conn_inv s'" using conn assms(8-12) by (simp add: conn_inv_def)
  moreover have "aux_inv s'"
    using aux assms(3,6,7,12-16) peers_remove_inv [OF act] by (simp add: aux_inv_def)
  moreover have "work_inv s'"
  proof (rule work_invI)
    fix q i
    obtain h where h: "hm_get (tx_worker_handle_map s) p = Some h" "wh_task h = tid" using w(1) assms(2) by blast
    have "i = tid \<longleftrightarrow> q = p" if "hm_get (tx_worker_task_meta_map s) i = Some q"
      using that assms(2) w(1) [of i p] h by auto
    then show "hm_get (tx_worker_task_meta_map s') i = Some q \<longleftrightarrow>
        (\<exists>h. hm_get (tx_worker_handle_map s') q = Some h \<and> wh_task h = i)"
      using w(1) [of i q] h assms(4,5) by (auto split: if_splits)
    show "hm_get (tx_worker_set s') i = None \<longleftrightarrow> hm_get (tx_worker_task_meta_map s') i = None"
      using w(2) [of i] assms(3,4) by simp
    show "hm_get (tx_worker_task_meta_map s') i = Some q \<Longrightarrow> i < next_task_id s'"
      using w(3) [of i q] assms(4,12) by (auto split: if_splits)
  qed (use w(4-7) assms(5,6,8,13) in \<open>auto simp: peers_remove_lookup(1) [OF act] split: if_splits\<close>)
  ultimately show ?thesis by (simp add: gw_inv_def)
qed

lemma unblock_frame [simp]:
  "config (unblock_eviction_waiting_connection s) = config s"
  "tx_worker_handle_map (unblock_eviction_waiting_connection s) = tx_worker_handle_map s"
  "active_staked_sorted_remote_peer (unblock_eviction_waiting_connection s) = active_staked_sorted_remote_peer s"
  "tx_worker_task_meta_map (unblock_eviction_waiting_connection s) = tx_worker_task_meta_map s"
  "tx_worker_set (unblock_eviction_waiting_connection s) = tx_worker_set s"
  "tx_queues (unblock_eviction_waiting_connection s) = tx_queues s"
  "endpoints_usage (unblock_eviction_waiting_connection s) = endpoints_usage s"
  "connecting_tasks (unblock_eviction_waiting_connection s) = connecting_tasks s"
  "connecting_meta (unblock_eviction_waiting_connection s) = connecting_meta s"
  "connecting_remote_peers (unblock_eviction_waiting_connection s) = connecting_remote_peers s"
  "response_outlet (unblock_eviction_waiting_connection s) = response_outlet s"
  "tasklet (unblock_eviction_waiting_connection s) = tasklet s"
  "tasklet_meta (unblock_eviction_waiting_connection s) = tasklet_meta s"
  "last_peer_activity (unblock_eviction_waiting_connection s) = last_peer_activity s"
  "being_evicted_peers (unblock_eviction_waiting_connection s) = being_evicted_peers s"
  "next_task_id (unblock_eviction_waiting_connection s) = next_task_id s"
  "discarded (unblock_eviction_waiting_connection s) = discarded s"
  by (simp_all add: unblock_eviction_waiting_connection_def case_prod_beta Let_def)

text \<open>The state of the runtime after the bookkeeping for a completed worker, before its transactions are rescued.\<close>

definition worker_gone :: "task_id \<Rightarrow> pubkey \<Rightarrow> gateway \<Rightarrow> gateway" where
  "worker_gone tid p s =
     (let s1 = s\<lparr>tx_worker_set := hm_remove tid (tx_worker_set s),
                 tx_worker_task_meta_map := hm_remove tid (tx_worker_task_meta_map s),
                 active_staked_sorted_remote_peer := snd (peers_remove p (active_staked_sorted_remote_peer s)),
                 watcher_out := watcher_out s @ [DeregisterWatch p]\<rparr>;
          s2 = unblock_eviction_waiting_connection s1
      in s2\<lparr>being_evicted_peers := being_evicted_peers s - {p},
            tx_worker_handle_map := hm_remove p (tx_worker_handle_map s),
            last_peer_activity := hm_remove p (last_peer_activity s)\<rparr>)"

lemma worker_gone_inv:
  assumes "gw_inv s" and "hm_get (tx_worker_task_meta_map s) tid = Some p"
  shows "gw_inv (worker_gone tid p s)"
proof -
  have "finite (being_evicted_peers s)" using assms(1) by (simp add: gw_inv_def aux_inv_def)
  then show ?thesis
    by (intro worker_removed_inv [OF assms]) (simp_all add: worker_gone_def Let_def)
qed

lemma worker_gone_frame [simp]:
  "config (worker_gone tid p s) = config s"
  "tx_queues (worker_gone tid p s) = tx_queues s"
  "tx_worker_set (worker_gone tid p s) = hm_remove tid (tx_worker_set s)"
  "tx_worker_handle_map (worker_gone tid p s) = hm_remove p (tx_worker_handle_map s)"
  "connecting_remote_peers (worker_gone tid p s) = connecting_remote_peers s"
  "active_staked_sorted_remote_peer (worker_gone tid p s) = snd (peers_remove p (active_staked_sorted_remote_peer s))"
  "response_outlet (worker_gone tid p s) = response_outlet s"
  "tasklet (worker_gone tid p s) = tasklet s"
  "discarded (worker_gone tid p s) = discarded s"
  "last_peer_activity (worker_gone tid p s) = hm_remove p (last_peer_activity s)"
  "being_evicted_peers (worker_gone tid p s) = being_evicted_peers s - {p}"
  by (simp_all add: worker_gone_def Let_def)

lemma handle_worker_completed_eq:
  assumes "gw_inv s" and "hm_get (tx_worker_task_meta_map s) tid = Some p"
  shows "handle_worker_completed env tid c (s\<lparr>tx_worker_set := hm_remove tid (tx_worker_set s)\<rparr>) =
    (let s4 = queue_tx p (map (\<lambda>tx. (tx, 1)) (wc_rx c) @ wc_pending_tx c) (worker_gone tid p s)
     in if wc_err c = Some (ConnectionLost VersionMismatch) then Inr (unreachable_peer p s4)
        else if p \<in> being_evicted_peers s then Inr (drop_peer_queued_tx p DropByGateway s4)
        else if hm_get (tx_queues s4) p \<noteq> Some []
        then spawn_connecting p 1 (s4\<lparr>last_peer_activity := hm_insert p (env_now env) (last_peer_activity s4)\<rparr>)
        else Inr s4)"
proof -
  obtain h where "hm_get (tx_worker_handle_map s) p = Some h"
    using assms work_invD(1) [of s] by (auto simp: gw_inv_def)
  then show ?thesis
    using assms(2) by (simp add: handle_worker_completed_def worker_gone_def Let_def)
qed

lemma handle_worker_completed_inv:
  assumes "gw_inv s" and "hm_get (tx_worker_set s) tid \<noteq> None"
  shows "\<exists>s'. handle_worker_completed env tid c (s\<lparr>tx_worker_set := hm_remove tid (tx_worker_set s)\<rparr>) = Inr s' \<and> gw_inv s'"
proof -
  have "hm_get (tx_worker_task_meta_map s) tid \<noteq> None"
    using assms work_invD(2) [of s] by (simp add: gw_inv_def)
  then obtain p where p: "hm_get (tx_worker_task_meta_map s) tid = Some p" by blast
  let ?s4 = "queue_tx p (map (\<lambda>tx. (tx, 1)) (wc_rx c) @ wc_pending_tx c) (worker_gone tid p s)"
  have inv: "gw_inv ?s4" by (rule queue_tx_inv [OF worker_gone_inv [OF assms(1) p]])
  then have "gw_inv (?s4\<lparr>last_peer_activity := a\<rparr>)" for a by simp
  from spawn_connecting_inv [OF this] inv show ?thesis
    unfolding handle_worker_completed_eq [OF assms(1) p]
    by (simp add: Let_def unreachable_peer_def drop_peer_queued_tx_inv)
qed

lemma graceful_drop_inv:
  assumes "gw_inv s"
  shows "gw_inv (schedule_graceful_drop_all_worker s)"
proof -
  have conn: "conn_inv s" and work: "work_inv s" and aux: "aux_inv s" using assms by (simp_all add: gw_inv_def)
  have keys: "map fst (map (\<lambda>(tid, t). (tid, drop_sender t)) m) = map fst m" for m :: "(task_id, worker_task) hmap"
    by (simp add: comp_def case_prod_beta)
  have "conn_inv (schedule_graceful_drop_all_worker s)"
    using conn by (auto simp: schedule_graceful_drop_all_worker_def conn_inv_def less_SucI)
  moreover have "work_inv (schedule_graceful_drop_all_worker s)"
    using work by (simp add: schedule_graceful_drop_all_worker_def work_inv_def)
  moreover have "aux_inv (schedule_graceful_drop_all_worker s)"
    using aux unfolding aux_inv_def schedule_graceful_drop_all_worker_def
    by (simp add: keys less_SucI del: map_map)
  ultimately show ?thesis by (simp add: gw_inv_def)
qed

lemma spawn_all_inv: "gw_inv s \<Longrightarrow> \<exists>s'. spawn_all ms s = Inr s' \<and> gw_inv s'"
proof (induction ms arbitrary: s)
  case (Cons m ms)
  obtain s1 where "spawn_connecting (cm_remote_peer_identity m) (cm_connection_attempt m) s = Inr s1" "gw_inv s1"
    using spawn_connecting_inv [OF Cons.prems] by blast
  then show ?case using Cons.IH [of s1] by simp
qed simp

lemma spawn_predicted_inv: "gw_inv s \<Longrightarrow> \<exists>s'. spawn_predicted ps s = Inr s' \<and> gw_inv s'"
proof (induction ps arbitrary: s)
  case (Cons p ps)
  obtain s1 where "spawn_connecting p (max_connection_attempts (config s)) s = Inr s1" "gw_inv s1"
    using spawn_connecting_inv [OF Cons.prems] by blast
  then show ?case using Cons.IH [of s1] Cons.IH [of s] Cons.prems by simp
qed simp

lemma update_identity_inv:
  assumes "gw_inv s"
  shows "\<exists>s'. update_identity me s = Inr s' \<and> gw_inv s'"
proof -
  let ?s1 = "schedule_graceful_drop_all_worker s"
  let ?s2 = "?s1\<lparr>connecting_tasks := [], connecting_remote_peers := [], connecting_meta := [], identity := me\<rparr>"
  have "gw_inv ?s2"
    using graceful_drop_inv [OF assms] by (auto simp: gw_inv_def conn_inv_def work_inv_def aux_inv_def)
  then show ?thesis unfolding update_identity_def Let_def by (rule spawn_all_inv)
qed

lemma handle_cnc_inv: "gw_inv s \<Longrightarrow> \<exists>s'. handle_cnc c s = Inr s' \<and> gw_inv s'"
  by (cases c) (simp_all add: update_identity_inv)

lemma tasklet_joined_inv:
  assumes "gw_inv s" and "hm_get (tasklet s) tid = Some ws"
  shows "\<exists>s'. handle_tasklet_result tid ws (s\<lparr>tasklet := hm_remove tid (tasklet s)\<rparr>) = Inr s' \<and> gw_inv s'"
proof -
  have "tid \<in> set (tasklet_meta s)" using assms by (simp add: gw_inv_def aux_inv_def)
  moreover have "gw_inv (s\<lparr>tasklet := hm_remove tid (tasklet s), tasklet_meta := removeAll tid (tasklet_meta s), discarded := d\<rparr>)" for d
    using assms(1) by (auto simp: gw_inv_def conn_inv_def work_inv_def aux_inv_def)
  ultimately show ?thesis by (simp add: handle_tasklet_result_def)
qed

lemma predict_inv:
  "gw_inv s \<Longrightarrow> \<exists>s'. try_predict_upcoming_leaders_if_necessary env s = Inr s' \<and> gw_inv s'"
  by (simp add: try_predict_upcoming_leaders_if_necessary_def Let_def spawn_predicted_inv split: option.split)

lemma gw_handle_inv:
  assumes "gw_inv s" and "benign e"
  shows "\<exists>s'. gw_handle env e s = Inr s' \<and> gw_inv s'"
proof (cases e)
  case (WorkerJoined tid)
  show ?thesis
  proof (cases "\<exists>c. hm_get (tx_worker_set s) tid = Some (Finished c)")
    case True
    then show ?thesis using handle_worker_completed_inv [OF assms(1), of tid] by (auto simp: WorkerJoined)
  next
    case False
    then show ?thesis using assms(1) by (auto simp: WorkerJoined split: option.split worker_task.split)
  qed
next
  case (ConnectingJoined tid result)
  then have "result \<noteq> Inl (ConnectError EndpointStopping)" using assms(2) by auto
  then show ?thesis using assms(1) handle_connecting_ok_inv [OF assms(1)] by (simp add: ConnectingJoined)
next
  case (ConnectingJoinErr tid)
  show ?thesis
  proof (cases "tid \<in> set (connecting_tasks s)")
    case True
    then show ?thesis
      by (rule connecting_finished_eq [OF assms(1)]) (simp add: ConnectingJoinErr handle_connecting_join_err_def assms(1))
  qed (simp add: ConnectingJoinErr assms(1))
next
  case (TaskletJoined tid)
  then show ?thesis using assms(1) tasklet_joined_inv [OF assms(1), of tid] by (simp split: option.split)
next
  case (WorkerTask tid answers sel)
  then show ?thesis
    using assms(1) set_task_inv(2) [OF assms(1), of tid] by (simp add: case_prod_beta Let_def split: option.split)
next
  case (DetachedTask tk tid answers sel)
  have "gw_inv (s\<lparr>tasklet := hm_insert tk (hm_insert tid t ws) (tasklet s), response_outlet := out\<rparr>)"
    if "hm_get (tasklet s) tk = Some ws" for t ws out
    using assms(1) that by (auto simp: gw_inv_def conn_inv_def work_inv_def aux_inv_def)
  then show ?thesis using assms(1) by (simp add: DetachedTask case_prod_beta Let_def split: option.split)
qed (use assms in \<open>auto simp: accept_tx_inv handle_cnc_inv addr_change_inv\<close>)

section \<open>No panic\<close>

text \<open>The peers the runtime knows as connected, connecting or evictable all have a last activity.\<close>

definition tracked :: "gateway \<Rightarrow> pubkey set" where
  "tracked s =
     {p. hm_get (tx_worker_handle_map s) p \<noteq> None} \<union> {p. hm_get (connecting_remote_peers s) p \<noteq> None} \<union>
     {p. hm_get (peer_stake_map (active_staked_sorted_remote_peer s)) p \<noteq> None} \<union>
     cm_remote_peer_identity ` set (hm_values (connecting_meta s))"

definition activity_inv :: "gateway \<Rightarrow> bool" where
  "activity_inv s \<longleftrightarrow> (\<forall>p \<in> tracked s. hm_get (last_peer_activity s) p \<noteq> None)"

lemma activity_invI:
  assumes "activity_inv s" and "tracked s' \<subseteq> tracked s" and "last_peer_activity s' = last_peer_activity s"
  shows "activity_inv s'"
  using assms by (auto simp: activity_inv_def)

lemma activity_inv_insert:
  assumes "activity_inv s"
  shows "activity_inv (s\<lparr>last_peer_activity := hm_insert p now (last_peer_activity s)\<rparr>)"
proof -
  have "tracked (s\<lparr>last_peer_activity := hm_insert p now (last_peer_activity s)\<rparr>) = tracked s"
    by (simp add: tracked_def)
  then show ?thesis using assms by (simp add: activity_inv_def)
qed

lemma hm_values_insert_subset: "set (hm_values (hm_insert k v m)) \<subseteq> insert v (set (hm_values m))"
  by (induction m) auto

lemma hm_values_remove_subset: "set (hm_values (hm_remove k m)) \<subseteq> set (hm_values m)"
  by (auto simp: AList.delete_eq)

lemma spawn_connecting_activity:
  assumes "endpoints_usage s \<noteq> []" and "activity_inv s" and "hm_get (last_peer_activity s) peer \<noteq> None"
    and "spawn_connecting peer attempt s = Inr s'"
  shows "activity_inv s' \<and> last_peer_activity s' = last_peer_activity s \<and> config s' = config s"
  using assms(1)
proof (cases rule: spawn_connecting_cases [where peer = peer and attempt = attempt])
  case same
  then show ?thesis using assms(2,4) by simp
next
  case evicting
  then have "s' = drop_peer_queued_tx peer RemotePeerBeingEvicted s" using assms(4) by simp
  then show ?thesis using assms(2) by (simp add: activity_inv_def tracked_def)
next
  case (spawned idx usage blocked)
  let ?m = "\<lparr>cm_current_client_identity = identity s, cm_remote_peer_identity = peer,
      cm_connection_attempt = attempt, cm_endpoint_idx = idx\<rparr>"
  have s': "connecting_remote_peers s' = hm_insert peer (next_task_id s) (connecting_remote_peers s)"
    "connecting_meta s' = hm_insert (next_task_id s) ?m (connecting_meta s)"
    "tx_worker_handle_map s' = tx_worker_handle_map s" "config s' = config s"
    "active_staked_sorted_remote_peer s' = active_staked_sorted_remote_peer s"
    "last_peer_activity s' = last_peer_activity s"
    by (simp_all add: Inr_inject [OF trans [OF assms(4) [symmetric] spawned(6)]])
  have "cm_remote_peer_identity ` set (hm_values (connecting_meta s')) \<subseteq>
      cm_remote_peer_identity ` insert ?m (set (hm_values (connecting_meta s)))"
    unfolding s'(2) by (rule image_mono) (rule hm_values_insert_subset)
  then have "cm_remote_peer_identity ` set (hm_values (connecting_meta s')) \<subseteq>
      insert peer (cm_remote_peer_identity ` set (hm_values (connecting_meta s)))"
    by (simp only: image_insert connecting_meta.simps)
  moreover have "{p. hm_get (connecting_remote_peers s') p \<noteq> None} =
      insert peer {p. hm_get (connecting_remote_peers s) p \<noteq> None}"
    by (auto simp: s'(1))
  ultimately have "tracked s' \<subseteq> insert peer (tracked s)"
    unfolding tracked_def s'(3,5) by blast
  then show ?thesis using assms(2,3) s' by (auto simp: activity_inv_def)
qed

lemma cancel_worker_activity: "activity_inv s \<Longrightarrow> activity_inv (cancel_worker tid s)"
  by (simp add: activity_inv_def tracked_def)

lemma evict_peer_activity: "activity_inv s \<Longrightarrow> activity_inv (evict_peer p s) \<and> config (evict_peer p s) = config s"
  by (auto simp: evict_peer_def activity_inv_def tracked_def split: option.split)

lemma fold_evict_activity: "activity_inv s \<Longrightarrow> activity_inv (fold evict_peer ps s) \<and> config (fold evict_peer ps s) = config s"
proof (induction ps arbitrary: s)
  case (Cons p ps)
  then show ?case using evict_peer_activity [OF Cons.prems, of p] Cons.IH [of "evict_peer p s"] by simp
qed simp

lemma addr_change_activity:
  "activity_inv s \<Longrightarrow> activity_inv (handle_remote_peer_addr_change env ps s) \<and>
     config (handle_remote_peer_addr_change env ps s) = config s"
  unfolding handle_remote_peer_addr_change_def
proof (induction ps arbitrary: s)
  case (Cons p ps)
  have "activity_inv (peer_addr_changed env p s) \<and> config (peer_addr_changed env p s) = config s"
    using Cons.prems by (auto simp: peer_addr_changed_def cancel_worker_activity split: option.split)
  then show ?case using Cons.IH [of "peer_addr_changed env p s"] by simp
qed simp

lemma gw_inv_endpoints: "gw_inv s \<Longrightarrow> endpoints_usage s \<noteq> []"
  by (simp add: gw_inv_def conn_invD(5))

lemma spawn_activity:
  assumes "gw_inv s" and "activity_inv s" and "hm_get (last_peer_activity s) peer \<noteq> None"
    and "spawn_connecting peer attempt s = Inr s'"
  shows "activity_inv s'" and "config s' = config s" and "last_peer_activity s' = last_peer_activity s"
  using spawn_connecting_activity [OF gw_inv_endpoints [OF assms(1)] assms(2-4)] by simp_all

lemma spawn_all_activity:
  assumes "gw_inv s" and "activity_inv s" and "spawn_all ms s = Inr s'"
    and "\<And>m. m \<in> set ms \<Longrightarrow> hm_get (last_peer_activity s) (cm_remote_peer_identity m) \<noteq> None"
  shows "activity_inv s' \<and> config s' = config s"
  using assms
proof (induction ms arbitrary: s)
  case (Cons m ms)
  obtain s1 where s1: "spawn_connecting (cm_remote_peer_identity m) (cm_connection_attempt m) s = Inr s1" "spawn_all ms s1 = Inr s'"
    using Cons.prems(3) by auto
  have "hm_get (last_peer_activity s) (cm_remote_peer_identity m) \<noteq> None" using Cons.prems(4) by simp
  note act = spawn_activity [OF Cons.prems(1,2) this s1(1)]
  have "gw_inv s1" by (rule spawn_connecting_keeps [OF Cons.prems(1) s1(1)])
  then have "activity_inv s' \<and> config s' = config s1"
    using act Cons.prems(4) by (intro Cons.IH s1(2)) simp_all
  then show ?case using act by simp
qed simp

lemma update_identity_activity:
  assumes "gw_inv s" and "activity_inv s" and "update_identity me s = Inr s'"
  shows "activity_inv s' \<and> config s' = config s"
proof -
  let ?s2 = "(schedule_graceful_drop_all_worker s)
      \<lparr>connecting_tasks := [], connecting_remote_peers := [], connecting_meta := [], identity := me\<rparr>"
  have inv: "gw_inv ?s2"
    using graceful_drop_inv [OF assms(1)] by (auto simp: gw_inv_def conn_inv_def work_inv_def aux_inv_def)
  have "activity_inv ?s2"
    by (rule activity_invI [OF assms(2)]) (auto simp: tracked_def schedule_graceful_drop_all_worker_def)
  moreover have "hm_get (last_peer_activity ?s2) (cm_remote_peer_identity m) \<noteq> None"
    if "m \<in> set (hm_values (connecting_meta (schedule_graceful_drop_all_worker s)))" for m
    using that assms(2) by (auto simp: activity_inv_def tracked_def schedule_graceful_drop_all_worker_def)
  moreover have "spawn_all (hm_values (connecting_meta (schedule_graceful_drop_all_worker s))) ?s2 = Inr s'"
    using assms(3) by (simp add: update_identity_def Let_def)
  ultimately have "activity_inv s' \<and> config s' = config ?s2"
    by (intro spawn_all_activity [OF inv])
  then show ?thesis by (simp add: schedule_graceful_drop_all_worker_def)
qed

lemma accept_tx_activity:
  assumes "gw_inv s" and "activity_inv s" and "accept_tx now tx s = Inr s'"
  shows "activity_inv s' \<and> config s' = config s"
proof -
  let ?p = "gt_remote_peer tx"
  let ?s1 = "s\<lparr>last_peer_activity := hm_insert ?p now (last_peer_activity s)\<rparr>"
  have act: "activity_inv ?s1" by (rule activity_inv_insert [OF assms(2)])
  then have queued: "activity_inv (queue_tx ?p q ?s1)" for q
    by (rule activity_invI) (simp_all add: tracked_def queue_tx_def)
  have inv: "gw_inv (queue_tx ?p q ?s1)" for q using queue_tx_inv assms(1) by simp
  have known: "hm_get (last_peer_activity (queue_tx ?p q ?s1)) ?p \<noteq> None" for q by simp
  show ?thesis
  proof (cases "hm_get (tx_worker_handle_map s) ?p")
    case None
    show ?thesis
    proof (cases "hm_contains (connecting_remote_peers s) ?p")
      case True
      then have "s' = queue_tx ?p [(tx, 1)] ?s1" using assms(3) None by (simp add: accept_tx_def Let_def)
      then show ?thesis using queued by simp
    next
      case False
      then have "spawn_connecting ?p 1 (queue_tx ?p [(tx, 1)] ?s1) = Inr s'"
        using assms(3) None by (simp add: accept_tx_def Let_def)
      from spawn_activity(1,2) [OF inv queued known this] show ?thesis by simp
    qed
  next
    case (Some h)
    have same: "activity_inv (?s1\<lparr>tx_worker_set := ws\<rparr>)" "activity_inv (?s1\<lparr>response_outlet := out\<rparr>)" for ws out
      using act by (simp_all add: activity_inv_def tracked_def)
    show ?thesis
      using assms(3) Some queued same by (auto simp: accept_tx_def Let_def split: try_send.splits)
  qed
qed

lemma connecting_finished_activity:
  assumes "activity_inv s" and "hm_get (connecting_meta s) tid = Some meta"
    and "s1 = s\<lparr>connecting_tasks := ts, connecting_meta := hm_remove tid (connecting_meta s),
        endpoints_usage := usage,
        connecting_remote_peers := hm_remove (cm_remote_peer_identity meta) (connecting_remote_peers s)\<rparr>"
  shows "activity_inv s1" and "hm_get (last_peer_activity s1) (cm_remote_peer_identity meta) \<noteq> None"
proof -
  have "cm_remote_peer_identity ` set (hm_values (hm_remove tid (connecting_meta s))) \<subseteq>
      cm_remote_peer_identity ` set (hm_values (connecting_meta s))"
    by (rule image_mono) (rule hm_values_remove_subset)
  then have "tracked s1 \<subseteq> tracked s"
    unfolding tracked_def assms(3) by (auto split: if_splits)
  then show "activity_inv s1" by (rule activity_invI [OF assms(1)]) (simp add: assms(3))
  have "cm_remote_peer_identity meta \<in> tracked s"
    using map_of_SomeD [OF assms(2)] by (force simp: tracked_def)
  then show "hm_get (last_peer_activity s1) (cm_remote_peer_identity meta) \<noteq> None"
    using assms(1) by (simp add: activity_inv_def assms(3))
qed

lemma drop_activity: "activity_inv s \<Longrightarrow> activity_inv (drop_peer_queued_tx p r s)"
  by (simp add: activity_inv_def tracked_def)

lemma handle_connecting_ok_activity:
  assumes "gw_inv s" and "activity_inv s" and "tid \<in> set (connecting_tasks s)"
    and "handle_connecting_ok env tid result (s\<lparr>connecting_tasks := removeAll tid (connecting_tasks s)\<rparr>) = Inr s'"
  shows "activity_inv s' \<and> config s' = config s"
proof (rule connecting_finished_eq [OF assms(1,3)])
  fix meta usage s1
  assume meta: "hm_get (connecting_meta s) tid = Some meta"
    and s1: "s1 = s\<lparr>connecting_tasks := removeAll tid (connecting_tasks s), connecting_meta := hm_remove tid (connecting_meta s),
        endpoints_usage := usage,
        connecting_remote_peers := hm_remove (cm_remote_peer_identity meta) (connecting_remote_peers s)\<rparr>"
    and eq: "connecting_finished tid (s\<lparr>connecting_tasks := removeAll tid (connecting_tasks s)\<rparr>) = Inr (meta, s1)"
    and inv: "gw_inv s1"
  let ?p = "cm_remote_peer_identity meta"
  note act = connecting_finished_activity [OF assms(2) meta s1]
  note run = assms(4) [unfolded handle_connecting_ok_def eq Let_def res_bind_simps case_prod_conv]
  have cfg: "config s1 = config s" by (simp add: s1)
  show ?thesis
  proof (cases "\<exists>n. spawn_connecting ?p n s1 = Inr s'")
    case True
    then show ?thesis using spawn_activity(1,2) [OF inv act] cfg by auto
  next
    case False
    show ?thesis
    proof (cases result)
      case (Inl e)
      then have "s' = unreachable_peer ?p s1"
        using run False by (auto split: if_splits connecting_error.splits connect_error.splits)
      then show ?thesis using act(1) cfg by (simp add: unreachable_peer_def drop_activity)
    next
      case (Inr addr)
      let ?s2 = "s1\<lparr>active_staked_sorted_remote_peer :=
          snd (peers_insert ?p (case env_stake env ?p of None \<Rightarrow> 0 | Some x \<Rightarrow> x) (active_staked_sorted_remote_peer s1)),
          watcher_out := watcher_out s1 @ [RegisterWatch ?p addr]\<rparr>"
      have "install_worker ?p addr ?s2 = Inr s'"
        using run False Inr by (simp split: if_splits)
      then have s': "connecting_remote_peers s' = connecting_remote_peers s1" "connecting_meta s' = connecting_meta s1"
        "hm_get (tx_worker_handle_map s') q = None \<longleftrightarrow> q \<noteq> ?p \<and> hm_get (tx_worker_handle_map s1) q = None"
        "active_staked_sorted_remote_peer s' = active_staked_sorted_remote_peer ?s2"
        "last_peer_activity s' = last_peer_activity s1" "config s' = config s1" for q
        by (auto simp: install_worker_def Let_def split: if_splits)
      have "peers_inv (active_staked_sorted_remote_peer s1)" using inv by (simp add: gw_inv_def aux_inv_def)
      then have "tracked s' \<subseteq> insert ?p (tracked s1)"
        unfolding tracked_def s'(1,2,4) by (auto simp: s'(3) peers_insert_lookup split: if_splits)
      then show ?thesis using act s'(5,6) cfg by (auto simp: activity_inv_def)
    qed
  qed
qed

lemma handle_worker_completed_activity:
  assumes "gw_inv s" and "activity_inv s" and "hm_get (tx_worker_set s) tid \<noteq> None"
    and "handle_worker_completed env tid c (s\<lparr>tx_worker_set := hm_remove tid (tx_worker_set s)\<rparr>) = Inr s'"
  shows "activity_inv s' \<and> config s' = config s"
proof -
  have work: "work_inv s" and aux: "aux_inv s" using assms(1) by (simp_all add: gw_inv_def)
  obtain p where p: "hm_get (tx_worker_task_meta_map s) tid = Some p"
    using assms(3) work_invD(2) [OF work, of tid] by auto
  obtain h where h: "hm_get (tx_worker_handle_map s) p = Some h" using work_invD(1) [OF work] p by blast
  let ?s4 = "queue_tx p (map (\<lambda>tx. (tx, 1)) (wc_rx c) @ wc_pending_tx c) (worker_gone tid p s)"
  have inv: "gw_inv ?s4" by (rule queue_tx_inv [OF worker_gone_inv [OF assms(1) p]])
  have act: "peers_inv (active_staked_sorted_remote_peer s)" using aux by (simp add: aux_inv_def)
  have none: "hm_get (connecting_remote_peers s) p = None" by (rule work_invD(5) [OF work h])
  have conn: "conn_inv s" using assms(1) by (simp add: gw_inv_def)
  have "cm_remote_peer_identity m \<noteq> p" if "(i, m) \<in> set (connecting_meta s)" for i m
    using that none conn_invD(1) [OF conn, of p i] hm_get_in_set [OF conn_invD(6) [OF conn], of i m] by auto
  then have "p \<notin> cm_remote_peer_identity ` set (hm_values (connecting_meta s))" by fastforce
  then have sub: "tracked ?s4 \<subseteq> tracked s - {p}"
    using none by (auto simp: tracked_def queue_tx_def worker_gone_def Let_def peers_remove_lookup(1) [OF act] split: if_splits)
  have act4: "activity_inv ?s4" using assms(2) sub by (auto simp: activity_inv_def)
  then have act5: "activity_inv (?s4\<lparr>last_peer_activity := hm_insert p now (last_peer_activity ?s4)\<rparr>)" for now
    by (rule activity_inv_insert)
  have inv5: "gw_inv (?s4\<lparr>last_peer_activity := a\<rparr>)" for a using inv by simp
  have cfg: "config ?s4 = config s" by simp
  have again: "activity_inv s' \<and> config s' = config s"
    if "spawn_connecting p 1 (?s4\<lparr>last_peer_activity := hm_insert p now (last_peer_activity ?s4)\<rparr>) = Inr s'" for now
    using spawn_activity(1,2) [OF inv5 act5 _ that] cfg by simp
  consider "s' = unreachable_peer p ?s4" | "s' = drop_peer_queued_tx p DropByGateway ?s4" | "s' = ?s4"
    | "spawn_connecting p 1 (?s4\<lparr>last_peer_activity := hm_insert p (env_now env) (last_peer_activity ?s4)\<rparr>) = Inr s'"
    using assms(4) unfolding handle_worker_completed_eq [OF assms(1) p] Let_def by (metis sum.inject(2))
  then show ?thesis
    by cases (use act4 cfg drop_activity in \<open>simp_all add: unreachable_peer_def again del: One_nat_def\<close>)
qed

lemma activity_inv_log [simp]:
  "activity_inv (s\<lparr>tx_worker_set := ws, response_outlet := out\<rparr>) = activity_inv s"
  "activity_inv (s\<lparr>tasklet := tk, response_outlet := out\<rparr>) = activity_inv s"
  "activity_inv (s\<lparr>tasklet := tk, tasklet_meta := tm, discarded := d\<rparr>) = activity_inv s"
  "activity_inv (s\<lparr>next_leader_prediction_deadline := dl\<rparr>) = activity_inv s"
  by (simp_all add: activity_inv_def tracked_def)

lemma gw_handle_activity:
  assumes "gw_inv s" and "activity_inv s" and "gw_handle env e s = Inr s'"
  shows "activity_inv s' \<and> config s' = config s"
proof (cases e)
  case (TxInlet tx)
  then show ?thesis using assms accept_tx_activity by simp
next
  case (Cnc c)
  then show ?thesis using assms update_identity_activity by (cases c) simp_all
next
  case (WorkerJoined tid)
  show ?thesis
  proof (cases "\<exists>c. hm_get (tx_worker_set s) tid = Some (Finished c)")
    case True
    then obtain c where "hm_get (tx_worker_set s) tid = Some (Finished c)" by blast
    then show ?thesis
      using assms(3) handle_worker_completed_activity [OF assms(1,2), of tid] by (simp add: WorkerJoined)
  next
    case False
    then show ?thesis using assms by (auto simp: WorkerJoined split: option.splits worker_task.splits)
  qed
next
  case (ConnectingJoined tid result)
  show ?thesis
  proof (cases "tid \<in> set (connecting_tasks s)")
    case True
    then show ?thesis
      using handle_connecting_ok_activity [OF assms(1,2) True] assms(3) by (simp add: ConnectingJoined)
  qed (use assms ConnectingJoined in simp)
next
  case (ConnectingJoinErr tid)
  show ?thesis
  proof (cases "tid \<in> set (connecting_tasks s)")
    case True
    show ?thesis
    proof (rule connecting_finished_eq [OF assms(1) True])
      fix meta usage s1
      assume meta: "hm_get (connecting_meta s) tid = Some meta"
        and s1: "s1 = s\<lparr>connecting_tasks := removeAll tid (connecting_tasks s),
            connecting_meta := hm_remove tid (connecting_meta s), endpoints_usage := usage,
            connecting_remote_peers := hm_remove (cm_remote_peer_identity meta) (connecting_remote_peers s)\<rparr>"
        and eq: "connecting_finished tid (s\<lparr>connecting_tasks := removeAll tid (connecting_tasks s)\<rparr>) = Inr (meta, s1)"
      have "s' = s1" using assms(3) True eq by (simp add: ConnectingJoinErr handle_connecting_join_err_def)
      then show ?thesis using connecting_finished_activity(1) [OF assms(2) meta s1] by (simp add: s1)
    qed
  qed (use assms ConnectingJoinErr in simp)
next
  case (TaskletJoined tid)
  then show ?thesis
    using assms by (auto simp: handle_tasklet_result_def split: option.splits if_splits)
next
  case (AddrChanges ps)
  then show ?thesis using assms addr_change_activity by auto
next
  case (WorkerTask tid answers sel)
  then show ?thesis using assms by (auto simp: case_prod_beta Let_def split: option.splits)
next
  case (DetachedTask tk tid answers sel)
  then show ?thesis using assms by (auto simp: case_prod_beta Let_def split: option.splits)
qed (use assms in simp)

definition live :: "gateway \<Rightarrow> bool" where
  "live s \<longleftrightarrow> gw_inv s \<and> activity_inv s \<and> leader_prediction_lookahead (config s) = None"

text \<open>Behind any strategy that answers when the activities are known, the loop runs on.\<close>

context answering_strategy
begin

lemma eviction_live:
  assumes "live s"
  shows "\<exists>s'. do_eviction_if_required plan now s = Inr s' \<and> live s'"
proof -
  have inv: "gw_inv s" and act: "activity_inv s" using assms by (simp_all add: live_def)
  have "\<exists>ps. plan now (active_staked_sorted_remote_peer s) (last_peer_activity s) (being_evicted_peers s) n = Inr ps" for n
  proof (rule plan_answers)
    show "peers_inv (active_staked_sorted_remote_peer s)" using inv by (simp add: gw_inv_def aux_inv_def)
    fix p assume "hm_get (peer_stake_map (active_staked_sorted_remote_peer s)) p \<noteq> None"
    then show "hm_get (last_peer_activity s) p \<noteq> None" using act by (simp add: activity_inv_def tracked_def)
  qed
  then obtain ps where "do_eviction_if_required plan now s = Inr s \<or>
      do_eviction_if_required plan now s = Inr (fold evict_peer ps s)"
    unfolding do_eviction_if_required_def Let_def by (metis res_bind_simps(2))
  then show ?thesis
    using assms fold_evict_inv [OF inv, of ps] fold_evict_activity [OF act, of ps] by (auto simp: live_def)
qed

lemma loop_top_live:
  assumes "live s"
  shows "\<exists>s'. gw_loop_top plan env s = Inr s' \<and> live s'"
proof -
  obtain s1 where s1: "do_eviction_if_required plan (env_now env) s = Inr s1" "live s1"
    using eviction_live [OF assms] by blast
  then have "\<exists>s'. try_predict_upcoming_leaders_if_necessary env s1 = Inr s' \<and> live s'"
    by (simp add: try_predict_upcoming_leaders_if_necessary_def live_def)
  then show ?thesis using s1 by (simp add: gw_loop_top_def)
qed

lemma step_live:
  assumes "live s" and "benign (snd e)"
  shows "\<exists>s'. gw_step plan e s = Inr s' \<and> live s'"
proof -
  obtain env ev where e: "e = (env, ev)" by fastforce
  obtain s1 where s1: "gw_handle env ev s = Inr s1" "gw_inv s1"
    using gw_handle_inv [of s ev env] assms e by (auto simp: live_def)
  then have "live s1" using gw_handle_activity [of s env ev s1] assms(1) by (auto simp: live_def)
  then show ?thesis using s1(1) loop_top_live [of s1 env] by (simp add: gw_step_def e)
qed

lemma steps_live:
  "live s \<Longrightarrow> (\<And>e. e \<in> set es \<Longrightarrow> benign (snd e)) \<Longrightarrow> \<exists>s'. gw_steps plan es s = Inr s' \<and> live s'"
proof (induction es arbitrary: s)
  case (Cons e es)
  obtain s1 where "gw_step plan e s = Inr s1" "live s1" using step_live [of s e] Cons.prems by auto
  then show ?case using Cons.IH [of s1] Cons.prems(2) by simp
qed simp

lemma run_live:
  assumes "live s" and "\<And>e. e \<in> set es \<Longrightarrow> benign (snd e)"
  shows "\<exists>s'. gw_run plan env es s = Inr s' \<and> live s'"
proof -
  obtain s1 where s1: "gw_loop_top plan env s = Inr s1" "live s1" using loop_top_live [OF assms(1)] by blast
  show ?thesis using steps_live [OF s1(2) assms(2)] s1(1) by (simp add: gw_run_def)
qed

end

lemma gateway_new_live:
  "num_endpoints c > 0 \<Longrightarrow> transaction_sender_worker_channel_capacity c > 0 \<Longrightarrow> leader_prediction_lookahead c = None \<Longrightarrow>
   live (gateway_new c me now)"
  by (simp add: live_def gw_inv_def conn_inv_def work_inv_def aux_inv_def activity_inv_def tracked_def gateway_new_def
      peers_default_def peers_inv_def)

text \<open>
  With at least one endpoint, a channel capacity above zero and leader prediction off, the gateway never
  panics: whatever transactions, identity changes, connection results, worker results and address changes
  arrive in whatever order, and whatever the connections answer, the loop keeps running. None of the \<open>expect\<close>s,
  the assertion in \<open>install_worker\<close> and the indexing of the endpoints fails. Excluded are the two events that
  panic by design, a panicked worker task and an endpoint being shut down.
\<close>

theorem gateway_never_panics:
  assumes "num_endpoints c > 0" and "transaction_sender_worker_channel_capacity c > 0"
    and "leader_prediction_lookahead c = None" and "\<And>env e. (env, e) \<in> set es \<Longrightarrow> benign e"
  shows "\<exists>s. gw_run (plan_eviction grace) env es (gateway_new c me now) = Inr s"
proof -
  have "\<exists>s. gw_run (plan_eviction grace) env es (gateway_new c me now) = Inr s \<and> live s"
    by (rule stake_strategy.run_live [OF gateway_new_live [OF assms(1-3)]]) (use assms(4) in auto)
  then show ?thesis by blast
qed

abbreviation ex_gcfg :: "nat option \<Rightarrow> gw_config" where
  "ex_gcfg lookahead \<equiv> (gw_config_default (8000, 10000) 30 400 4)
     \<lparr>num_endpoints := 1, max_concurrent_connections := 1, leader_prediction_lookahead := lookahead\<rparr>"

abbreviation ex_env :: "instant \<Rightarrow> gw_env" where
  "ex_env now \<equiv> \<lparr>env_now = now, env_stake = (\<lambda>_. Some 10), env_predict = (\<lambda>_. [Pubkey 1]),
     env_service = \<lparr>get_quic_tpu_socket_addr = (\<lambda>_. None), get_quic_tpu_fwd_socket_addr = (\<lambda>_. None)\<rparr>\<rparr>"

abbreviation ex_tx_to :: "nat \<Rightarrow> nat \<Rightarrow> gateway_transaction" where
  "ex_tx_to sig peer \<equiv> \<lparr>gt_tx_sig = Signature sig, gt_wire = [], gt_remote_peer = Pubkey peer\<rparr>"

abbreviation ex_addr :: socket_addr where
  "ex_addr \<equiv> SocketAddr 1 8000"

lemma default_channel_capacity [simp]:
  "transaction_sender_worker_channel_capacity (gw_config_default ports timeout ms slots) = 10000"
  by (simp add: gw_config_default_def)

text \<open>One connection is allowed; the first peer is connected, then a transaction for a second peer arrives.\<close>

abbreviation ex_two_peers :: "(gw_env \<times> gw_event) list" where
  "ex_two_peers \<equiv> [(ex_env 10, TxInlet (ex_tx_to 1 1)), (ex_env 11, ConnectingJoined 0 (Inr ex_addr)),
     (ex_env 12, TxInlet (ex_tx_to 2 2))]"

theorem gateway_never_panics_witness:
  "\<exists>s. gw_run (plan_eviction 5) (ex_env 5) ex_two_peers (gateway_new (ex_gcfg None) (Pubkey 9) 0) = Inr s"
  by (rule gateway_never_panics) auto

text \<open>
  C15. With leader prediction on, the gateway can panic. A connection to a predicted leader is opened without
  recording an activity for the peer; when the next connection has to wait for an eviction, the stake based strategy
  looks the activity up and its \<open>expect\<close> fails.
\<close>

lemmas gw_eval = gw_run_def gw_step_def gw_loop_top_def do_eviction_if_required_def
  try_predict_upcoming_leaders_if_necessary_def gateway_new_def gw_config_default_def spawn_connecting_def get_least_used_endpoint_def
  update_usage_def has_connection_capacity_def handle_connecting_ok_def connecting_finished_def install_worker_def
  accept_tx_def queue_tx_def drop_peer_queued_tx_def evict_peer_def cancel_worker_def plan_eviction_def
  peers_insert_def peers_remove_def peers_default_def peers_is_empty_def peers_iter_def Let_def


end
