(* ===== verification/Jet_Gateway_Flow.thy ===== *)
theory Jet_Gateway_Flow
  imports Jet_Gateway_Safety
begin

text \<open>
  Where the gateway's transactions are: a multiset of signatures over the queues, the workers, the detached workers, the
  responses and the discarded completions, which every handler keeps and a received transaction extends by one. Then
  two consequences of what an identity change leaves behind, and the limits.
\<close>

section \<open>Where every transaction is\<close>

definition gw_sigs :: "gateway \<Rightarrow> signature multiset" where
  "gw_sigs s = hm_sum queue_sigs (tx_queues s) + hm_sum task_sigs (tx_worker_set s) +
     hm_sum (hm_sum task_sigs) (tasklet s) + responses_sigs (response_outlet s) +
     sum_list (map (task_sigs \<circ> Finished) (discarded s))"

lemma drop_peer_queued_tx_sigs:
  assumes "gw_inv s"
  shows "gw_sigs (drop_peer_queued_tx p r s) = gw_sigs s"
proof -
  have "hm_wf (tx_queues s)" using assms by (simp add: gw_inv_def aux_inv_def)
  from hm_sum_remove [OF this, of queue_sigs p] show ?thesis
    by (cases "hm_get (tx_queues s) p") (simp_all add: gw_sigs_def drop_peer_queued_tx_def)
qed

lemma gw_sigs_frame:
  assumes "tx_queues s' = tx_queues s" "tx_worker_set s' = tx_worker_set s" "tasklet s' = tasklet s"
    "response_outlet s' = response_outlet s" "discarded s' = discarded s"
  shows "gw_sigs s' = gw_sigs s"
  using assms by (simp add: gw_sigs_def)

lemma spawn_connecting_sigs:
  assumes "gw_inv s" and "spawn_connecting p n s = Inr s'"
  shows "gw_sigs s' = gw_sigs s"
  using gw_inv_endpoints [OF assms(1)]
proof (cases rule: spawn_connecting_cases [where peer = p and attempt = n])
  case evicting
  then show ?thesis using assms(2) drop_peer_queued_tx_sigs [OF assms(1)] by simp
next
  case (spawned idx usage blocked)
  show ?thesis
    by (rule gw_sigs_frame) (simp_all add: Inr_inject [OF trans [OF assms(2) [symmetric] spawned(6)]])
qed (use assms(2) in simp)

lemma cancel_task_sigs [simp]: "task_sigs (cancel_task t) = task_sigs t"
  by (cases t) simp_all

lemma drop_sender_sigs [simp]: "task_sigs (drop_sender t) = task_sigs t"
  by (cases t) simp_all

lemma cancel_worker_sigs:
  assumes "gw_inv s"
  shows "gw_sigs (cancel_worker tid s) = gw_sigs s"
proof -
  have wf: "hm_wf (tx_worker_set s)" using assms by (simp add: gw_inv_def aux_inv_def)
  show ?thesis
    by (cases "hm_get (tx_worker_set s) tid")
       (simp_all add: cancel_worker_def gw_sigs_def hm_sum_insert_same [OF wf])
qed

lemma evict_peer_sigs:
  assumes "gw_inv s"
  shows "gw_sigs (evict_peer p s) = gw_sigs s"
proof (cases "hm_get (tx_worker_handle_map s) p")
  case (Some h)
  then have "gw_sigs (evict_peer p s) = gw_sigs (cancel_worker (wh_task h) s)"
    by (intro gw_sigs_frame) (simp_all add: evict_peer_def)
  then show ?thesis by (simp add: cancel_worker_sigs [OF assms])
qed (simp add: evict_peer_def)

lemma fold_evict_sigs: "gw_inv s \<Longrightarrow> gw_sigs (fold evict_peer ps s) = gw_sigs s"
  by (induction ps arbitrary: s) (simp_all add: evict_peer_inv evict_peer_sigs)

lemma addr_change_sigs: "gw_inv s \<Longrightarrow> gw_sigs (handle_remote_peer_addr_change env ps s) = gw_sigs s"
  unfolding handle_remote_peer_addr_change_def
proof (induction ps arbitrary: s)
  case (Cons p ps)
  have "gw_inv (peer_addr_changed env p s) \<and> gw_sigs (peer_addr_changed env p s) = gw_sigs s"
    using Cons.prems by (auto simp: peer_addr_changed_def cancel_worker_inv cancel_worker_sigs split: option.split)
  then show ?case using Cons.IH [of "peer_addr_changed env p s"] by simp
qed simp

lemma queue_tx_sigs:
  assumes "gw_inv s"
  shows "gw_sigs (queue_tx p q s) = gw_sigs s + queue_sigs q"
proof -
  have "hm_wf (tx_queues s)" using assms by (simp add: gw_inv_def aux_inv_def)
  from hm_sum_insert [OF this, of queue_sigs p "(case hm_get (tx_queues s) p of None \<Rightarrow> [] | Some q \<Rightarrow> q) @ q"]
  show ?thesis
    by (cases "hm_get (tx_queues s) p") (simp_all add: gw_sigs_def queue_tx_def ac_simps)
qed

lemma accept_tx_sigs:
  assumes "gw_inv s" and "accept_tx now tx s = Inr s'"
  shows "gw_sigs s' = gw_sigs s + {#gt_tx_sig tx#}"
proof -
  let ?p = "gt_remote_peer tx"
  define s1 where "s1 = s\<lparr>last_peer_activity := hm_insert ?p now (last_peer_activity s)\<rparr>"
  have inv: "gw_inv s1" using assms(1) by (simp add: s1_def)
  have s1: "gw_sigs s1 = gw_sigs s" by (rule gw_sigs_frame) (simp_all add: s1_def)
  have queued: "gw_sigs (queue_tx ?p [(tx, 1)] s1) = gw_sigs s + {#gt_tx_sig tx#}"
    by (simp add: queue_tx_sigs [OF inv] s1)
  note run = assms(2) [unfolded accept_tx_def Let_def, folded s1_def]
  show ?thesis
  proof (cases "hm_get (tx_worker_handle_map s1) ?p")
    case None
    show ?thesis
    proof (cases "hm_contains (connecting_remote_peers (queue_tx ?p [(tx, 1)] s1)) ?p")
      case True
      then have "s' = queue_tx ?p [(tx, 1)] s1" using run None by simp
      then show ?thesis using queued by simp
    next
      case False
      then have "spawn_connecting ?p 1 (queue_tx ?p [(tx, 1)] s1) = Inr s'" using run None by simp
      from spawn_connecting_sigs [OF queue_tx_inv [OF inv] this] show ?thesis using queued by simp
    qed
  next
    case (Some h)
    have wf: "hm_wf (tx_worker_set s1)" using inv by (simp add: gw_inv_def aux_inv_def)
    show ?thesis
    proof (cases "try_send_to (transaction_sender_worker_channel_capacity (config s1)) tx
        (hm_get (tx_worker_set s1) (wh_task h))")
      case (SendOk t)
      then obtain t0 where t0: "hm_get (tx_worker_set s1) (wh_task h) = Some t0" "task_sigs t = task_sigs t0 + {#gt_tx_sig tx#}"
        by (cases "hm_get (tx_worker_set s1) (wh_task h)"; cases "the (hm_get (tx_worker_set s1) (wh_task h))")
           (auto split: if_splits)
      have "s' = s1\<lparr>tx_worker_set := hm_insert (wh_task h) t (tx_worker_set s1)\<rparr>" using run Some SendOk by simp
      then show ?thesis
        using hm_sum_insert [OF wf, of task_sigs "wh_task h" t] t0 s1 by (simp add: gw_sigs_def ac_simps)
    next
      case SendFull
      then show ?thesis using run Some s1 by (auto simp: gw_sigs_def)
    next
      case SendClosed
      then have "s' = queue_tx ?p [(tx, 1)] s1" using run Some by simp
      then show ?thesis using queued by simp
    qed
  qed
qed

lemma handle_connecting_ok_sigs:
  assumes "gw_inv s" and "tid \<in> set (connecting_tasks s)"
    and "handle_connecting_ok env tid result (s\<lparr>connecting_tasks := removeAll tid (connecting_tasks s)\<rparr>) = Inr s'"
  shows "gw_sigs s' = gw_sigs s"
proof (rule connecting_finished_eq [OF assms(1,2)])
  fix meta usage s1
  assume s1: "s1 = s\<lparr>connecting_tasks := removeAll tid (connecting_tasks s), connecting_meta := hm_remove tid (connecting_meta s),
        endpoints_usage := usage,
        connecting_remote_peers := hm_remove (cm_remote_peer_identity meta) (connecting_remote_peers s)\<rparr>"
    and eq: "connecting_finished tid (s\<lparr>connecting_tasks := removeAll tid (connecting_tasks s)\<rparr>) = Inr (meta, s1)"
    and inv: "gw_inv s1"
  let ?p = "cm_remote_peer_identity meta"
  note run = assms(3) [unfolded handle_connecting_ok_def eq Let_def res_bind_simps case_prod_conv]
  have sigs: "gw_sigs s1 = gw_sigs s" by (rule gw_sigs_frame) (simp_all add: s1)
  show ?thesis
  proof (cases "\<exists>n. spawn_connecting ?p n s1 = Inr s'")
    case True
    then show ?thesis using spawn_connecting_sigs [OF inv] sigs by auto
  next
    case False
    show ?thesis
    proof (cases result)
      case (Inl e)
      then have "s' = unreachable_peer ?p s1"
        using run False by (auto split: if_splits connecting_error.splits connect_error.splits)
      then show ?thesis using drop_peer_queued_tx_sigs [OF inv] sigs by (simp add: unreachable_peer_def)
    next
      case (Inr addr)
      define s2 where "s2 = s1\<lparr>active_staked_sorted_remote_peer :=
          snd (peers_insert ?p (case env_stake env ?p of None \<Rightarrow> 0 | Some x \<Rightarrow> x) (active_staked_sorted_remote_peer s1)),
          watcher_out := watcher_out s1 @ [RegisterWatch ?p addr]\<rparr>"
      have "install_worker ?p addr s2 = Inr s'" using run False Inr by (simp add: s2_def split: if_splits)
      then obtain w where s': "tx_queues s' = hm_remove ?p (tx_queues s1)"
        "tx_worker_set s' = hm_insert (next_task_id s1) (Running w) (tx_worker_set s1)"
        "tasklet s' = tasklet s1" "response_outlet s' = response_outlet s1" "discarded s' = discarded s1"
        "w_incoming w = []" "w_tx_queue w = (case hm_get (tx_queues s1) ?p of None \<Rightarrow> [] | Some q \<Rightarrow> q)"
        by (auto simp: install_worker_def Let_def s2_def split: if_splits)
      have work: "work_inv s1" and wf: "hm_wf (tx_queues s1)" using inv by (simp_all add: gw_inv_def aux_inv_def)
      have "hm_get (tx_worker_set s1) (next_task_id s1) = None"
        using work_inv_fresh [OF work] work_invD(2) [OF work] by simp
      then have "gw_sigs s' = gw_sigs s1"
        using hm_sum_remove [OF wf, of queue_sigs ?p] s'(6,7)
        by (cases "hm_get (tx_queues s1) ?p") (simp_all add: gw_sigs_def s'(1-5) hm_sum_insert_new ac_simps)
      then show ?thesis using sigs by simp
    qed
  qed
qed

lemma rescued_sigs: "queue_sigs (map (\<lambda>tx. (tx, n)) txs) = incoming_sigs txs"
  by (simp add: queue_sigs_def incoming_sigs_def comp_def)

lemma handle_worker_completed_sigs:
  assumes "gw_inv s" and "hm_get (tx_worker_set s) tid = Some (Finished c)"
    and "handle_worker_completed env tid c (s\<lparr>tx_worker_set := hm_remove tid (tx_worker_set s)\<rparr>) = Inr s'"
  shows "gw_sigs s' = gw_sigs s"
proof -
  have work: "work_inv s" and wf: "hm_wf (tx_worker_set s)" using assms(1) by (simp_all add: gw_inv_def aux_inv_def)
  obtain p where p: "hm_get (tx_worker_task_meta_map s) tid = Some p"
    using assms(2) work_invD(2) [OF work, of tid] by auto
  let ?s4 = "queue_tx p (map (\<lambda>tx. (tx, 1)) (wc_rx c) @ wc_pending_tx c) (worker_gone tid p s)"
  have inv: "gw_inv (worker_gone tid p s)" by (rule worker_gone_inv [OF assms(1) p])
  have sigs4: "gw_sigs ?s4 = gw_sigs s"
    unfolding queue_tx_sigs [OF inv] using hm_sum_remove [OF wf, of task_sigs tid] assms(2)
    by (simp add: gw_sigs_def rescued_sigs ac_simps del: One_nat_def)
  have inv4: "gw_inv ?s4" by (rule queue_tx_inv [OF inv])
  have again: "gw_sigs s' = gw_sigs s" if "spawn_connecting p 1 (?s4\<lparr>last_peer_activity := a\<rparr>) = Inr s'" for a
  proof -
    have "gw_inv (?s4\<lparr>last_peer_activity := a\<rparr>)" using inv4 by simp
    from spawn_connecting_sigs [OF this that] have "gw_sigs s' = gw_sigs (?s4\<lparr>last_peer_activity := a\<rparr>)" .
    also have "\<dots> = gw_sigs ?s4" by (rule gw_sigs_frame) simp_all
    finally show ?thesis using sigs4 by simp
  qed
  consider "s' = unreachable_peer p ?s4" | "s' = drop_peer_queued_tx p DropByGateway ?s4" | "s' = ?s4"
    | "spawn_connecting p 1 (?s4\<lparr>last_peer_activity := hm_insert p (env_now env) (last_peer_activity ?s4)\<rparr>) = Inr s'"
    using assms(3) unfolding handle_worker_completed_eq [OF assms(1) p] Let_def by (metis sum.inject(2))
  then show ?thesis
  proof cases
    case 4
    then show ?thesis by (rule again)
  qed (use drop_peer_queued_tx_sigs [OF inv4] sigs4 in \<open>simp_all only: unreachable_peer_def\<close>)
qed

lemma graceful_drop_sigs:
  assumes "gw_inv s"
  shows "gw_sigs (schedule_graceful_drop_all_worker s) = gw_sigs s"
proof -
  have "hm_get (tasklet s) (next_task_id s) = None"
    using assms unfolding gw_inv_def aux_inv_def by blast
  then show ?thesis
    by (simp add: schedule_graceful_drop_all_worker_def gw_sigs_def hm_sum_insert_new hm_sum_map_values ac_simps)
qed

lemma spawn_all_sigs: "gw_inv s \<Longrightarrow> spawn_all ms s = Inr s' \<Longrightarrow> gw_sigs s' = gw_sigs s"
proof (induction ms arbitrary: s)
  case (Cons m ms)
  obtain s1 where s1: "spawn_connecting (cm_remote_peer_identity m) (cm_connection_attempt m) s = Inr s1" "spawn_all ms s1 = Inr s'"
    using Cons.prems(2) by auto
  show ?case
    using Cons.IH [OF spawn_connecting_keeps [OF Cons.prems(1) s1(1)] s1(2)]
      spawn_connecting_sigs [OF Cons.prems(1) s1(1)] by simp
qed simp

lemma spawn_predicted_sigs: "gw_inv s \<Longrightarrow> spawn_predicted ps s = Inr s' \<Longrightarrow> gw_sigs s' = gw_sigs s"
proof (induction ps arbitrary: s)
  case (Cons p ps)
  obtain s1 where s1: "(if hm_contains (tx_worker_handle_map s) p \<or> hm_contains (connecting_remote_peers s) p
      then Inr s else spawn_connecting p (max_connection_attempts (config s)) s) = Inr s1" "spawn_predicted ps s1 = Inr s'"
    using Cons.prems(2) unfolding spawn_predicted.simps res_bind_eq_Inr by blast
  then consider "s1 = s" | "spawn_connecting p (max_connection_attempts (config s)) s = Inr s1"
    by (metis sum.inject(2))
  then show ?case
  proof cases
    case 1
    then show ?thesis using Cons.IH [of s] Cons.prems(1) s1(2) by simp
  next
    case 2
    then show ?thesis
      using Cons.IH [OF spawn_connecting_keeps [OF Cons.prems(1) 2] s1(2)] spawn_connecting_sigs [OF Cons.prems(1) 2] by simp
  qed
qed simp

lemma update_identity_sigs:
  assumes "gw_inv s" and "update_identity me s = Inr s'"
  shows "gw_sigs s' = gw_sigs s"
proof -
  let ?s2 = "(schedule_graceful_drop_all_worker s)
      \<lparr>connecting_tasks := [], connecting_remote_peers := [], connecting_meta := [], identity := me\<rparr>"
  have inv: "gw_inv ?s2"
    using graceful_drop_inv [OF assms(1)] by (auto simp: gw_inv_def conn_inv_def work_inv_def aux_inv_def)
  have "spawn_all (hm_values (connecting_meta (schedule_graceful_drop_all_worker s))) ?s2 = Inr s'"
    using assms(2) by (simp add: update_identity_def Let_def)
  from spawn_all_sigs [OF inv this] have "gw_sigs s' = gw_sigs ?s2" .
  also have "\<dots> = gw_sigs (schedule_graceful_drop_all_worker s)" by (rule gw_sigs_frame) simp_all
  finally show ?thesis by (simp add: graceful_drop_sigs [OF assms(1)])
qed

lemma finished_sigs:
  "\<forall>t \<in> set (hm_values ws). finished_completion t \<noteq> None \<Longrightarrow>
   sum_list (map (task_sigs \<circ> Finished) (List.map_filter finished_completion (hm_values ws))) = hm_sum task_sigs ws"
proof (induction ws)
  case (Cons e ws)
  then obtain c where "snd e = Finished c" by (cases "snd e") auto
  then show ?case using Cons by simp
qed simp

lemma iterate_task_sigs: "iterate_task answers sel t = (t', out) \<Longrightarrow> task_sigs t = task_sigs t' + responses_sigs out"
  by (cases t) (auto dest: worker_iteration_sigs)

fun accepted_sigs :: "gw_event \<Rightarrow> signature multiset" where
  "accepted_sigs (TxInlet tx) = {#gt_tx_sig tx#}"
| "accepted_sigs _ = {#}"

lemma tasklet_joined_sigs:
  assumes "gw_inv s" and "gw_handle env (TaskletJoined tid) s = Inr s'"
  shows "gw_sigs s' = gw_sigs s"
proof (cases "\<exists>ws. hm_get (tasklet s) tid = Some ws \<and> (\<forall>t \<in> set (hm_values ws). finished_completion t \<noteq> None)")
  case True
  then obtain ws where ws: "hm_get (tasklet s) tid = Some ws" "\<forall>t \<in> set (hm_values ws). finished_completion t \<noteq> None" by blast
  have wf: "hm_wf (tasklet s)" using assms(1) by (simp add: gw_inv_def aux_inv_def)
  have "s' = s\<lparr>tasklet := hm_remove tid (tasklet s), tasklet_meta := removeAll tid (tasklet_meta s),
      discarded := discarded s @ List.map_filter finished_completion (hm_values ws)\<rparr>"
    using assms(2) ws by (simp add: handle_tasklet_result_def split: if_splits)
  then show ?thesis
    using hm_sum_remove [OF wf, of "hm_sum task_sigs" tid] ws(1) finished_sigs [OF ws(2)]
    by (simp add: gw_sigs_def ac_simps)
next
  case False
  then show ?thesis using assms(2) by (auto split: option.splits if_splits)
qed

lemma worker_task_sigs:
  assumes "gw_inv s" and "gw_handle env (WorkerTask tid answers sel) s = Inr s'"
  shows "gw_sigs s' = gw_sigs s"
proof (cases "hm_get (tx_worker_set s) tid")
  case (Some t)
  obtain t' out where it: "iterate_task answers sel t = (t', out)" by fastforce
  have wf: "hm_wf (tx_worker_set s)" using assms(1) by (simp add: gw_inv_def aux_inv_def)
  show ?thesis
    using assms(2) Some it hm_sum_insert [OF wf, of task_sigs tid t'] iterate_task_sigs [OF it]
    by (auto simp: gw_sigs_def ac_simps)
qed (use assms(2) in simp)

lemma detached_task_sigs:
  assumes "gw_inv s" and "gw_handle env (DetachedTask tk tid answers sel) s = Inr s'"
  shows "gw_sigs s' = gw_sigs s"
proof (cases "\<exists>ws t. hm_get (tasklet s) tk = Some ws \<and> hm_get ws tid = Some t")
  case True
  then obtain ws t where ws: "hm_get (tasklet s) tk = Some ws" "hm_get ws tid = Some t" by blast
  obtain t' out where it: "iterate_task answers sel t = (t', out)" by fastforce
  have wf: "hm_wf (tasklet s)" "hm_wf ws" using assms(1) ws(1) by (simp_all add: gw_inv_def aux_inv_def)
  have "hm_sum task_sigs ws = hm_sum task_sigs (hm_insert tid t' ws) + responses_sigs out"
    using hm_sum_insert [OF wf(2), of task_sigs tid t'] iterate_task_sigs [OF it] ws(2) by (simp add: ac_simps)
  moreover have "s' = s\<lparr>tasklet := hm_insert tk (hm_insert tid t' ws) (tasklet s), response_outlet := response_outlet s @ out\<rparr>"
    using assms(2) ws it by simp
  ultimately show ?thesis
    using hm_sum_insert [OF wf(1), of "hm_sum task_sigs" tk "hm_insert tid t' ws"] ws(1)
    by (simp add: gw_sigs_def ac_simps)
next
  case False
  then show ?thesis using assms(2) by (auto split: option.splits)
qed

lemma gw_handle_sigs:
  assumes "gw_inv s" and "gw_handle env e s = Inr s'"
  shows "gw_sigs s' = gw_sigs s + accepted_sigs e"
proof (cases e)
  case (WorkerJoined tid)
  then show ?thesis
    using assms handle_worker_completed_sigs [OF assms(1), of tid] by (auto split: option.splits worker_task.splits)
next
  case (Cnc c)
  then show ?thesis using assms update_identity_sigs by (cases c) simp_all
next
  case (ConnectingJoined tid result)
  then show ?thesis using assms handle_connecting_ok_sigs [OF assms(1), of tid] by (simp split: if_splits)
next
  case (ConnectingJoinErr tid)
  show ?thesis
  proof (cases "tid \<in> set (connecting_tasks s)")
    case True
    show ?thesis
      by (rule connecting_finished_eq [OF assms(1) True])
         (use assms(2) True in \<open>auto simp: ConnectingJoinErr handle_connecting_join_err_def gw_sigs_def\<close>)
  qed (use assms(2) ConnectingJoinErr in simp)
qed (use assms accept_tx_sigs addr_change_sigs tasklet_joined_sigs worker_task_sigs detached_task_sigs in \<open>auto simp del: gw_handle.simps(7,9,10)\<close>)

lemma loop_top_keeps:
  assumes "gw_inv s" and "gw_loop_top plan env s = Inr s'"
  shows "gw_inv s' \<and> gw_sigs s' = gw_sigs s"
proof -
  obtain s1 where s1: "do_eviction_if_required plan (env_now env) s = Inr s1"
    "try_predict_upcoming_leaders_if_necessary env s1 = Inr s'"
    using assms(2) by (auto simp: gw_loop_top_def)
  obtain ps where "s1 = s \<or> s1 = fold evict_peer ps s"
    using s1(1) unfolding do_eviction_if_required_def Let_def res_bind_def
    by (auto split: if_splits sum.splits)
  then have inv: "gw_inv s1" and sigs: "gw_sigs s1 = gw_sigs s"
    using fold_evict_inv fold_evict_sigs assms(1) by auto
  have keep: "gw_inv (s1\<lparr>next_leader_prediction_deadline := d\<rparr>) \<and>
      gw_sigs (s1\<lparr>next_leader_prediction_deadline := d\<rparr>) = gw_sigs s1" for d
    using inv by (simp add: gw_sigs_def)
  note run = s1(2) [unfolded try_predict_upcoming_leaders_if_necessary_def Let_def]
  show ?thesis
  proof (cases "env_now env - next_leader_prediction_deadline s1 = 0")
    case True
    then have "s' = s1" using run by simp
    then show ?thesis using inv sigs by simp
  next
    case late: False
    show ?thesis
    proof (cases "leader_prediction_lookahead (config s1)")
      case None
      then have "s' = s1\<lparr>next_leader_prediction_deadline := env_now env + forever\<rparr>" using run late by simp
      then show ?thesis using keep sigs by simp
    next
      case (Some lh)
      then obtain d where d: "spawn_predicted (env_predict env lh) (s1\<lparr>next_leader_prediction_deadline := d\<rparr>) = Inr s'"
        using run late by simp
      have "gw_inv s'"
        using spawn_predicted_inv [of "s1\<lparr>next_leader_prediction_deadline := d\<rparr>" "env_predict env lh"] d keep by auto
      then show ?thesis using spawn_predicted_sigs [OF _ d] keep sigs by simp
    qed
  qed
qed

lemma gw_step_keeps:
  assumes "gw_inv s" and "benign (snd e)" and "gw_step plan e s = Inr s'"
  shows "gw_inv s' \<and> gw_sigs s' = gw_sigs s + accepted_sigs (snd e)"
proof -
  obtain env ev where e: "e = (env, ev)" by fastforce
  obtain s1 where s1: "gw_handle env ev s = Inr s1" "gw_inv s1" using gw_handle_inv [OF assms(1), of ev env] assms(2) e by auto
  have "gw_sigs s1 = gw_sigs s + accepted_sigs ev" by (rule gw_handle_sigs [OF assms(1) s1(1)])
  then show ?thesis
    using assms(3) s1 loop_top_keeps [OF s1(2), of plan env s'] by (auto simp: gw_step_def e split: if_splits)
qed

lemma gw_steps_keeps:
  "gw_inv s \<Longrightarrow> (\<And>e. e \<in> set es \<Longrightarrow> benign (snd e)) \<Longrightarrow> gw_steps plan es s = Inr s' \<Longrightarrow>
   gw_inv s' \<and> gw_sigs s' = gw_sigs s + (\<Sum>e\<leftarrow>es. accepted_sigs (snd e))"
proof (induction es arbitrary: s)
  case (Cons e es)
  obtain s1 where s1: "gw_step plan e s = Inr s1" "gw_steps plan es s1 = Inr s'" using Cons.prems(3) by auto
  have "gw_inv s1 \<and> gw_sigs s1 = gw_sigs s + accepted_sigs (snd e)"
    using Cons.prems(2) by (intro gw_step_keeps [OF Cons.prems(1) _ s1(1)]) simp
  then show ?case using Cons.IH [OF _ _ s1(2)] Cons.prems(2) by (simp add: ac_simps)
qed simp

lemma gateway_new_inv:
  "num_endpoints c > 0 \<Longrightarrow> transaction_sender_worker_channel_capacity c > 0 \<Longrightarrow> gw_inv (gateway_new c me now)"
  by (simp add: gw_inv_def conn_inv_def work_inv_def aux_inv_def gateway_new_def peers_default_def peers_inv_def)

lemma gw_run_keeps:
  assumes "num_endpoints c > 0" and "transaction_sender_worker_channel_capacity c > 0"
    and "\<And>e. e \<in> set es \<Longrightarrow> benign (snd e)"
    and "gw_run plan env es (gateway_new c me now) = Inr s"
  shows "gw_inv s \<and> gw_sigs s = (\<Sum>e\<leftarrow>es. accepted_sigs (snd e))"
proof -
  obtain s1 where s1: "gw_loop_top plan env (gateway_new c me now) = Inr s1" "gw_steps plan es s1 = Inr s"
    using assms(4) by (auto simp: gw_run_def)
  have top: "gw_inv s1 \<and> gw_sigs s1 = gw_sigs (gateway_new c me now)"
    by (rule loop_top_keeps [OF gateway_new_inv [OF assms(1,2)] s1(1)])
  moreover have "gw_sigs (gateway_new c me now) = {#}" by (simp add: gw_sigs_def gateway_new_def)
  ultimately show ?thesis using gw_steps_keeps [OF conjunct1 [OF top] assms(3) s1(2)] by simp
qed

text \<open>
  C3. The gateway loses no transaction and answers for none twice. At every moment of every run, with any
  eviction strategy and any behaviour of the connections, the transactions received so far are, with their
  multiplicities, exactly those queued for a connection, held by a worker, held by a worker detached at an identity
  change, reported on the response outlet as sent, failed or dropped, or left in the completion of a detached worker,
  which the drop task throws away.
\<close>

theorem every_transaction_accounted_for:
  assumes "num_endpoints c > 0" and "transaction_sender_worker_channel_capacity c > 0"
    and "\<And>e. e \<in> set es \<Longrightarrow> benign (snd e)"
    and "gw_run plan env es (gateway_new c me now) = Inr s"
  shows "hm_sum queue_sigs (tx_queues s) + hm_sum task_sigs (tx_worker_set s) +
      hm_sum (hm_sum task_sigs) (tasklet s) + responses_sigs (response_outlet s) +
      sum_list (map (task_sigs \<circ> Finished) (discarded s)) =
    mset (List.map_filter (\<lambda>(env, e). case e of TxInlet tx \<Rightarrow> Some (gt_tx_sig tx) | _ \<Rightarrow> None) es)"
proof -
  have "(\<Sum>e\<leftarrow>es. accepted_sigs (snd e)) =
      mset (List.map_filter (\<lambda>(env, e). case e of TxInlet tx \<Rightarrow> Some (gt_tx_sig tx) | _ \<Rightarrow> None) es)" for es :: "(gw_env \<times> gw_event) list"
  proof (induction es)
    case (Cons x es)
    then show ?case by (cases x; cases "snd x") simp_all
  qed simp
  then show ?thesis using gw_run_keeps [OF assms] by (simp add: gw_sigs_def)
qed

lemma ex_two_peers_runs:
  "\<exists>s. gw_run (plan_eviction 5) (ex_env 5) ex_two_peers (gateway_new (ex_gcfg None) (Pubkey 9) 0) = Inr s \<and> live s"
  by (rule stake_strategy.run_live [OF gateway_new_live]) auto

theorem every_transaction_accounted_for_witness:
  "\<exists>s. gw_run (plan_eviction 5) (ex_env 5) ex_two_peers (gateway_new (ex_gcfg None) (Pubkey 9) 0) = Inr s \<and>
     hm_sum queue_sigs (tx_queues s) + hm_sum task_sigs (tx_worker_set s) +
      hm_sum (hm_sum task_sigs) (tasklet s) + responses_sigs (response_outlet s) +
      sum_list (map (task_sigs \<circ> Finished) (discarded s)) = {#Signature 1, Signature 2#}"
proof -
  obtain s where s: "gw_run (plan_eviction 5) (ex_env 5) ex_two_peers (gateway_new (ex_gcfg None) (Pubkey 9) 0) = Inr s"
    using ex_two_peers_runs by blast
  have "hm_sum queue_sigs (tx_queues s) + hm_sum task_sigs (tx_worker_set s) +
      hm_sum (hm_sum task_sigs) (tasklet s) + responses_sigs (response_outlet s) +
      sum_list (map (task_sigs \<circ> Finished) (discarded s)) =
    mset (List.map_filter (\<lambda>(env, e). case e of TxInlet tx \<Rightarrow> Some (gt_tx_sig tx) | _ \<Rightarrow> None) ex_two_peers)"
    by (rule every_transaction_accounted_for [OF _ _ _ s]) auto
  then show ?thesis using s by auto
qed

section \<open>A peer that can never be reached again\<close>

definition locked_out :: "pubkey \<Rightarrow> gateway \<Rightarrow> bool" where
  "locked_out p s \<longleftrightarrow> p \<in> being_evicted_peers s \<and> hm_get (tx_worker_handle_map s) p = None \<and>
     hm_get (connecting_remote_peers s) p = None"

lemma locked_spawn:
  assumes "gw_inv s" and "locked_out p s" and "spawn_connecting q n s = Inr s'"
  shows "locked_out p s'"
  using gw_inv_endpoints [OF assms(1)]
proof (cases rule: spawn_connecting_cases [where peer = q and attempt = n])
  case (spawned idx usage blocked)
  then have "q \<noteq> p" using assms(2) by (auto simp: locked_out_def)
  then show ?thesis
    using assms(2) by (simp add: Inr_inject [OF trans [OF assms(3) [symmetric] spawned(6)]] locked_out_def)
qed (use assms(2,3) in \<open>auto simp: locked_out_def\<close>)

lemma locked_spawn_all: "gw_inv s \<Longrightarrow> locked_out p s \<Longrightarrow> spawn_all ms s = Inr s' \<Longrightarrow> locked_out p s'"
proof (induction ms arbitrary: s)
  case (Cons m ms)
  then show ?case by (auto intro: spawn_connecting_keeps locked_spawn)
qed simp

lemma locked_spawn_predicted: "gw_inv s \<Longrightarrow> locked_out p s \<Longrightarrow> spawn_predicted ps s = Inr s' \<Longrightarrow> locked_out p s'"
proof (induction ps arbitrary: s)
  case (Cons q ps)
  then show ?case by (auto intro: spawn_connecting_keeps locked_spawn split: if_splits)
qed simp

lemma locked_frame:
  "being_evicted_peers s' = being_evicted_peers s \<Longrightarrow> tx_worker_handle_map s' = tx_worker_handle_map s \<Longrightarrow>
   connecting_remote_peers s' = connecting_remote_peers s \<Longrightarrow> locked_out p s' = locked_out p s"
  by (simp add: locked_out_def)

lemma locked_evict: "locked_out p s \<Longrightarrow> locked_out p (fold evict_peer ps s)"
proof (induction ps arbitrary: s)
  case (Cons q ps)
  have "locked_out p (evict_peer q s)"
    using Cons.prems by (auto simp: locked_out_def evict_peer_def split: option.split)
  then show ?case using Cons.IH by simp
qed simp

lemma locked_addr_change: "locked_out p s \<Longrightarrow> locked_out p (handle_remote_peer_addr_change env ps s)"
  unfolding handle_remote_peer_addr_change_def
proof (induction ps arbitrary: s)
  case (Cons q ps)
  have "locked_out p (peer_addr_changed env q s)"
    using Cons.prems by (auto simp: locked_out_def peer_addr_changed_def split: option.split)
  then show ?case using Cons.IH by simp
qed simp

lemma locked_accept:
  assumes "gw_inv s" and "locked_out p s" and "accept_tx now tx s = Inr s'"
  shows "locked_out p s'"
proof -
  let ?p = "gt_remote_peer tx"
  define s1 where "s1 = s\<lparr>last_peer_activity := hm_insert ?p now (last_peer_activity s)\<rparr>"
  have inv: "gw_inv (queue_tx ?p [(tx, 1)] s1)" using assms(1) by (simp add: s1_def queue_tx_inv)
  have locked: "locked_out p s1" "locked_out p (queue_tx ?p [(tx, 1)] s1)"
    using assms(2) by (simp_all add: locked_out_def s1_def)
  note run = assms(3) [unfolded accept_tx_def Let_def, folded s1_def]
  show ?thesis
  proof (cases "hm_get (tx_worker_handle_map s1) ?p")
    case None
    then have "s' = queue_tx ?p [(tx, 1)] s1 \<or> spawn_connecting ?p 1 (queue_tx ?p [(tx, 1)] s1) = Inr s'"
      using run by (cases "hm_contains (connecting_remote_peers (queue_tx ?p [(tx, 1)] s1)) ?p") simp_all
    then show ?thesis using locked(2) locked_spawn [OF inv locked(2)] by blast
  next
    case (Some h)
    then show ?thesis
      using run locked by (auto simp: locked_out_def split: try_send.splits)
  qed
qed

lemma locked_connecting:
  assumes "gw_inv s" and "locked_out p s" and "tid \<in> set (connecting_tasks s)"
    and "handle_connecting_ok env tid result (s\<lparr>connecting_tasks := removeAll tid (connecting_tasks s)\<rparr>) = Inr s'"
  shows "locked_out p s'"
proof (rule connecting_finished_eq [OF assms(1,3)])
  fix meta usage s1
  assume meta: "hm_get (connecting_meta s) tid = Some meta"
    and s1: "s1 = s\<lparr>connecting_tasks := removeAll tid (connecting_tasks s), connecting_meta := hm_remove tid (connecting_meta s),
        endpoints_usage := usage,
        connecting_remote_peers := hm_remove (cm_remote_peer_identity meta) (connecting_remote_peers s)\<rparr>"
    and eq: "connecting_finished tid (s\<lparr>connecting_tasks := removeAll tid (connecting_tasks s)\<rparr>) = Inr (meta, s1)"
    and inv: "gw_inv s1"
  let ?p = "cm_remote_peer_identity meta"
  have "hm_get (connecting_remote_peers s) ?p = Some tid"
    using conn_invD(1) [of s ?p tid] assms(1) meta by (simp add: gw_inv_def)
  then have other: "?p \<noteq> p" using assms(2) by (auto simp: locked_out_def)
  have locked: "locked_out p s1" using assms(2) by (simp add: s1 locked_out_def)
  note run = assms(4) [unfolded handle_connecting_ok_def eq Let_def res_bind_simps case_prod_conv]
  show ?thesis
  proof (cases "\<exists>n. spawn_connecting ?p n s1 = Inr s'")
    case True
    then show ?thesis using locked_spawn [OF inv locked] by blast
  next
    case False
    show ?thesis
    proof (cases result)
      case (Inl e)
      then have "s' = unreachable_peer ?p s1"
        using run False by (auto split: if_splits connecting_error.splits connect_error.splits)
      then show ?thesis using locked by (simp add: unreachable_peer_def locked_out_def)
    next
      case (Inr addr)
      then show ?thesis
        using run False other locked by (auto simp: install_worker_def Let_def locked_out_def split: if_splits)
    qed
  qed
qed

lemma locked_worker_completed:
  assumes "gw_inv s" and "locked_out p s" and "hm_get (tx_worker_set s) tid \<noteq> None"
    and "handle_worker_completed env tid c (s\<lparr>tx_worker_set := hm_remove tid (tx_worker_set s)\<rparr>) = Inr s'"
  shows "locked_out p s'"
proof -
  have work: "work_inv s" using assms(1) by (simp add: gw_inv_def)
  obtain q where q: "hm_get (tx_worker_task_meta_map s) tid = Some q"
    using assms(3) work_invD(2) [OF work, of tid] by auto
  then have other: "q \<noteq> p" using assms(2) work_invD(1) [OF work, of tid q] by (auto simp: locked_out_def)
  let ?s4 = "queue_tx q (map (\<lambda>tx. (tx, 1)) (wc_rx c) @ wc_pending_tx c) (worker_gone tid q s)"
  have inv: "gw_inv (?s4\<lparr>last_peer_activity := a\<rparr>)" for a
    using queue_tx_inv [OF worker_gone_inv [OF assms(1) q]] by simp
  have locked: "locked_out p ?s4" "locked_out p (?s4\<lparr>last_peer_activity := a\<rparr>)" for a
    using assms(2) other by (simp_all add: locked_out_def)
  consider "s' = unreachable_peer q ?s4" | "s' = drop_peer_queued_tx q DropByGateway ?s4" | "s' = ?s4"
    | "spawn_connecting q 1 (?s4\<lparr>last_peer_activity := hm_insert q (env_now env) (last_peer_activity ?s4)\<rparr>) = Inr s'"
    using assms(4) unfolding handle_worker_completed_eq [OF assms(1) q] Let_def by (metis sum.inject(2))
  then show ?thesis
  proof cases
    case 4
    then show ?thesis by (rule locked_spawn [OF inv locked(2)])
  qed (use locked(1) other in \<open>auto simp: unreachable_peer_def locked_out_def\<close>)
qed

lemma locked_identity:
  assumes "gw_inv s" and "p \<in> being_evicted_peers s" and "update_identity me s = Inr s'"
  shows "p \<in> being_evicted_peers s' \<and> hm_get (tx_worker_handle_map s') p = None \<and> locked_out p s'"
proof -
  let ?s2 = "(schedule_graceful_drop_all_worker s)
      \<lparr>connecting_tasks := [], connecting_remote_peers := [], connecting_meta := [], identity := me\<rparr>"
  have inv: "gw_inv ?s2"
    using graceful_drop_inv [OF assms(1)] by (auto simp: gw_inv_def conn_inv_def work_inv_def aux_inv_def)
  have locked: "locked_out p ?s2"
    using assms(2) by (simp add: locked_out_def schedule_graceful_drop_all_worker_def)
  have "spawn_all (hm_values (connecting_meta (schedule_graceful_drop_all_worker s))) ?s2 = Inr s'"
    using assms(3) by (simp add: update_identity_def Let_def)
  from locked_spawn_all [OF inv locked this] show ?thesis by (simp add: locked_out_def)
qed

lemma locked_handle:
  assumes "gw_inv s" and "locked_out p s" and "gw_handle env e s = Inr s'"
  shows "locked_out p s'"
proof (cases e)
  case (WorkerJoined tid)
  show ?thesis
  proof (cases "\<exists>c. hm_get (tx_worker_set s) tid = Some (Finished c)")
    case True
    then obtain c where "hm_get (tx_worker_set s) tid = Some (Finished c)" by blast
    then show ?thesis
      using assms(3) locked_worker_completed [OF assms(1,2), of tid] by (simp add: WorkerJoined)
  next
    case False
    then show ?thesis using assms by (auto simp: WorkerJoined split: option.splits worker_task.splits)
  qed
next
  case (Cnc c)
  moreover have "p \<in> being_evicted_peers s" using assms(2) by (simp add: locked_out_def)
  ultimately show ?thesis
    using assms(3) locked_identity [OF assms(1)] by (cases c) simp_all
next
  case (ConnectingJoined tid result)
  then show ?thesis using assms locked_connecting [OF assms(1,2), of tid] by (simp split: if_splits)
next
  case (ConnectingJoinErr tid)
  show ?thesis
  proof (cases "tid \<in> set (connecting_tasks s)")
    case True
    show ?thesis
      by (rule connecting_finished_eq [OF assms(1) True])
         (use assms(2,3) True in \<open>auto simp: ConnectingJoinErr handle_connecting_join_err_def locked_out_def\<close>)
  qed (use assms ConnectingJoinErr in simp)
next
  case (TaskletJoined tid)
  then show ?thesis
    using assms by (auto simp: handle_tasklet_result_def locked_out_def split: option.splits if_splits)
next
  case (WorkerTask tid answers sel)
  then show ?thesis using assms by (auto simp: locked_out_def case_prod_beta Let_def split: option.splits)
next
  case (DetachedTask tk tid answers sel)
  then show ?thesis using assms by (auto simp: locked_out_def case_prod_beta Let_def split: option.splits)
qed (use assms locked_accept locked_addr_change in auto)

lemma locked_loop_top:
  assumes "gw_inv s" and "locked_out p s" and "gw_loop_top plan env s = Inr s'"
  shows "locked_out p s'"
proof -
  obtain s1 where s1: "do_eviction_if_required plan (env_now env) s = Inr s1"
    "try_predict_upcoming_leaders_if_necessary env s1 = Inr s'"
    using assms(3) by (auto simp: gw_loop_top_def)
  obtain ps where "s1 = s \<or> s1 = fold evict_peer ps s"
    using s1(1) unfolding do_eviction_if_required_def Let_def res_bind_def
    by (auto split: if_splits sum.splits)
  then have inv: "gw_inv s1" and locked: "locked_out p s1" using fold_evict_inv locked_evict assms(1,2) by auto
  have step: "gw_inv (s1\<lparr>next_leader_prediction_deadline := d\<rparr>)" "locked_out p (s1\<lparr>next_leader_prediction_deadline := d\<rparr>)" for d
    using inv locked by (simp_all add: locked_out_def)
  show ?thesis
    using s1(2) locked step(2) locked_spawn_predicted [OF step]
    unfolding try_predict_upcoming_leaders_if_necessary_def Let_def
    by (cases "leader_prediction_lookahead (config s1)"; cases "env_now env - next_leader_prediction_deadline s1 = 0") auto
qed

lemma locked_steps:
  "gw_inv s \<Longrightarrow> locked_out p s \<Longrightarrow> (\<And>e. e \<in> set es \<Longrightarrow> benign (snd e)) \<Longrightarrow> gw_steps plan es s = Inr s' \<Longrightarrow>
   locked_out p s'"
proof (induction es arbitrary: s)
  case (Cons e es)
  obtain env ev where e: "e = (env, ev)" by fastforce
  obtain s1 where s1: "gw_step plan e s = Inr s1" "gw_steps plan es s1 = Inr s'" using Cons.prems(4) by auto
  obtain h where h: "gw_handle env ev s = Inr h" "gw_inv h"
    using gw_handle_inv [OF Cons.prems(1), of ev env] Cons.prems(3) [of e] e by auto
  have "locked_out p h" by (rule locked_handle [OF Cons.prems(1,2) h(1)])
  then have "locked_out p s1"
    using s1(1) h locked_loop_top [OF h(2), of p plan env s1] by (auto simp: gw_step_def e split: if_splits)
  moreover have "gw_inv s1" using gw_step_keeps [OF Cons.prems(1) _ s1(1)] Cons.prems(3) by simp
  ultimately show ?case using Cons.IH [OF _ _ _ s1(2)] Cons.prems(3) by simp
qed simp

text \<open>
  C14. An identity change locks out the peers whose eviction is under way. The change detaches the workers but keeps
  \<open>being_evicted_peers\<close>, and only the end of a peer's own worker takes the peer off that set. From then on, whatever
  happens, there is never again a worker or a connection attempt for the peer, and every transaction for it is
  answered with \<open>RemotePeerBeingEvicted\<close>.
\<close>

theorem identity_change_locks_out_evicted_peer:
  assumes "num_endpoints c > 0" and "transaction_sender_worker_channel_capacity c > 0"
    and "\<And>e. e \<in> set (es @ es') \<Longrightarrow> benign (snd e)"
    and "gw_run plan env es (gateway_new c me now) = Inr s" and "p \<in> being_evicted_peers s"
    and "update_identity new_identity s = Inr s1" and "gw_steps plan es' s1 = Inr s2" and "gt_remote_peer tx = p"
  shows "hm_get (tx_worker_handle_map s2) p = None \<and> hm_get (connecting_remote_peers s2) p = None \<and>
    (\<exists>s3 q. accept_tx t tx s2 = Inr s3 \<and> hm_get (tx_queues s3) p = None \<and>
      response_outlet s3 = response_outlet s2 @
        [TxDrop \<lparr>td_remote_peer_identity = p, td_drop_reason = RemotePeerBeingEvicted,
                 td_dropped_gateway_tx_vec = q @ [(tx, 1)]\<rparr>])"
proof -
  have inv: "gw_inv s" using gw_run_keeps [OF assms(1,2) _ assms(4)] assms(3) by simp
  have inv1: "gw_inv s1" using update_identity_inv [OF inv, of new_identity] assms(6) by simp
  have "locked_out p s1" using locked_identity [OF inv assms(5,6)] by blast
  from locked_steps [OF inv1 this _ assms(7)] have locked: "locked_out p s2" using assms(3) by simp
  let ?q = "case hm_get (tx_queues s2) p of None \<Rightarrow> [] | Some q \<Rightarrow> q"
  have "accept_tx t tx s2 = Inr (drop_peer_queued_tx p RemotePeerBeingEvicted
      (queue_tx p [(tx, 1)] (s2\<lparr>last_peer_activity := hm_insert p t (last_peer_activity s2)\<rparr>)))"
    using locked assms(8) by (simp add: accept_tx_def Let_def spawn_connecting_def locked_out_def hm_contains_iff)
  then show ?thesis
    using locked by (simp add: locked_out_def drop_peer_queued_tx_def queue_tx_def)
qed

lemma ex_two_peers_evicts:
  "case gw_run (plan_eviction 5) (ex_env 5) ex_two_peers (gateway_new (ex_gcfg None) (Pubkey 9) 0) of
     Inl _ \<Rightarrow> False | Inr s \<Rightarrow> being_evicted_peers s = {Pubkey 1}"
  by (simp add: gw_eval)

theorem identity_change_locks_out_evicted_peer_witness:
  "\<exists>s s1. gw_run (plan_eviction 5) (ex_env 5) ex_two_peers (gateway_new (ex_gcfg None) (Pubkey 9) 0) = Inr s \<and>
     update_identity (Pubkey 8) s = Inr s1 \<and>
     (\<exists>s3 q. accept_tx 20 (ex_tx_to 3 1) s1 = Inr s3 \<and>
        response_outlet s3 = response_outlet s1 @
          [TxDrop \<lparr>td_remote_peer_identity = Pubkey 1, td_drop_reason = RemotePeerBeingEvicted,
                   td_dropped_gateway_tx_vec = q @ [(ex_tx_to 3 1, 1)]\<rparr>])"
proof -
  obtain s where s: "gw_run (plan_eviction 5) (ex_env 5) ex_two_peers (gateway_new (ex_gcfg None) (Pubkey 9) 0) = Inr s"
    and inv: "gw_inv s"
    using ex_two_peers_runs by (auto simp: live_def)
  have evicting: "Pubkey 1 \<in> being_evicted_peers s" using ex_two_peers_evicts unfolding s by simp
  obtain s1 where s1: "update_identity (Pubkey 8) s = Inr s1" using update_identity_inv [OF inv] by blast
  have "\<exists>s3 q. accept_tx 20 (ex_tx_to 3 1) s1 = Inr s3 \<and> hm_get (tx_queues s3) (Pubkey 1) = None \<and>
      response_outlet s3 = response_outlet s1 @
        [TxDrop \<lparr>td_remote_peer_identity = Pubkey 1, td_drop_reason = RemotePeerBeingEvicted,
                 td_dropped_gateway_tx_vec = q @ [(ex_tx_to 3 1, 1)]\<rparr>]"
    by (rule identity_change_locks_out_evicted_peer [where es' = "[]", OF _ _ _ s evicting s1, THEN conjunct2, THEN conjunct2])
       auto
  then show ?thesis using s s1 by blast
qed

section \<open>Limits\<close>

text \<open>
  The limit on concurrent connections is checked against the installed workers only. Two peers whose connections
  are being made at the same time both pass the check, and the gateway ends with two connections under a limit of one.
\<close>

theorem connection_limit_exceeded:
  "case gw_run (plan_eviction 5) (ex_env 5)
      [(ex_env 10, TxInlet (ex_tx_to 1 1)), (ex_env 11, TxInlet (ex_tx_to 2 2)),
       (ex_env 12, ConnectingJoined 0 (Inr ex_addr)), (ex_env 13, ConnectingJoined 1 (Inr ex_addr))]
      (gateway_new (ex_gcfg None) (Pubkey 9) 0) of
     Inl _ \<Rightarrow> False
   | Inr s \<Rightarrow> max_concurrent_connections (config s) = 1 \<and> length (tx_worker_handle_map s) = 2"
  by (simp add: gw_eval)

text \<open>
  Connection attempts are spread over the endpoints: the chosen endpoint exists and no endpoint has fewer peers
  connecting through it.
\<close>

theorem least_used_endpoint_chosen:
  assumes "usage \<noteq> []"
  shows "\<exists>i. get_least_used_endpoint usage = Inr i \<and> i < length usage \<and>
    (\<forall>j < length usage. length (usage ! i) \<le> length (usage ! j))"
proof -
  obtain i where i: "i < length usage" "get_least_used_endpoint usage = Inr i"
    using get_least_used_endpoint_Inr [OF assms] by blast
  then have "find (\<lambda>i. \<forall>u \<in> set usage. length (usage ! i) \<le> length u) [0..<length usage] = Some i"
    by (simp add: get_least_used_endpoint_def)
  then have "\<forall>u \<in> set usage. length (usage ! i) \<le> length u" unfolding find_Some_iff by blast
  then show ?thesis using i by auto
qed

theorem least_used_endpoint_chosen_witness:
  "\<exists>i. get_least_used_endpoint [[Pubkey 1, Pubkey 2], [Pubkey 3]] = Inr i \<and> i < 2 \<and>
    (\<forall>j < 2. length ([[Pubkey 1, Pubkey 2], [Pubkey 3]] ! i) \<le> length ([[Pubkey 1, Pubkey 2], [Pubkey 3]] ! j))"
  using least_used_endpoint_chosen [of "[[Pubkey 1, Pubkey 2], [Pubkey 3]]"] by (simp add: numeral_2_eq_2)

end
