(* ===== verification/Jet_System.thy ===== *)
theory Jet_System
  imports Jet_Fanout Jet_Gateway_Flow
begin

text \<open>
  The pipeline that \<open>apps/jet/src/bin/jet.rs\<close> puts together: the retry scheduler over the rooted transactions, the
  fanout and the QUIC gateway, connected by three channels.

  The record \<open>pipeline\<close> holds the three components. A channel is the list its sender appends to
  (\<open>response_sink\<close>, \<open>fo_sink\<close>, \<open>response_outlet\<close>) and the number of messages its receiver has taken. The
  steps of the components interleave freely; a receiver takes the next message of its channel or waits.

  The lemmas compose those of the components: the whole pipeline never panics, what the gateway reports of a
  transaction is bounded by the attempts its requests were granted, and a transaction for which the fanout found no
  destination is never forwarded again.
\<close>

section \<open>The composition\<close>

record pipeline =
  pl_sched :: "rooted_state sched"
  pl_fed :: nat
  pl_fanout :: fanout
  pl_taken :: nat
  pl_gateway :: gateway
  pl_answered :: nat

datatype pipeline_event =
    SchedulerStep "rooted_state sched_event"
  | Feed
  | FanoutTask fanout_event
  | Deliver gw_env
  | GatewayStep gw_env gw_event
  | Answer slot

text \<open>The steps of a fanout's tasks and of the gateway that do not come from a channel.\<close>

fun internal_fanout_event :: "fanout_event \<Rightarrow> bool" where
  "internal_fanout_event (TaskStart _ _ _ _) = True"
| "internal_fanout_event (TaskAction _) = True"
| "internal_fanout_event (TaskJoined _) = True"
| "internal_fanout_event _ = False"

fun internal_gw_event :: "gw_event \<Rightarrow> bool" where
  "internal_gw_event (TxInlet _) = False"
| "internal_gw_event _ = True"

definition pipeline_new :: "sched_config \<Rightarrow> fanout_config \<Rightarrow> pubkey list \<Rightarrow> bool \<Rightarrow> gateway \<Rightarrow> pipeline" where
  "pipeline_new sc fc extra_fwd lewis gw =
     \<lparr>pl_sched = sched_new sc rooted_new, pl_fed = 0, pl_fanout = fanout_new fc extra_fwd lewis, pl_taken = 0,
      pl_gateway = gw, pl_answered = 0\<rparr>"

definition fanout_do :: "fanout_event \<Rightarrow> pipeline \<Rightarrow> pipeline res" where
  "fanout_do ev p = res_bind (fanout_step ev (pl_fanout p)) (\<lambda>f. Inr (p\<lparr>pl_fanout := f\<rparr>))"

definition gateway_do :: "nat \<Rightarrow> gw_env \<Rightarrow> gw_event \<Rightarrow> pipeline \<Rightarrow> pipeline res" where
  "gateway_do grace env ev p =
     res_bind (gw_step (plan_eviction grace) (env, ev) (pl_gateway p)) (\<lambda>g. Inr (p\<lparr>pl_gateway := g\<rparr>))"

fun pipeline_step :: "nat \<Rightarrow> pipeline_event \<Rightarrow> pipeline \<Rightarrow> pipeline res" where
  "pipeline_step grace (SchedulerStep e) p =
     Inr (case sched_step subscribe_signature unsubscribe_signature get_transaction_commitment e (pl_sched p) of
            None \<Rightarrow> p | Some s \<Rightarrow> p\<lparr>pl_sched := s\<rparr>)"
| "pipeline_step grace Feed p =
     (if pl_fed p < length (response_sink (pl_sched p))
      then fanout_do (fanout_event.Incoming (response_sink (pl_sched p) ! pl_fed p)) (p\<lparr>pl_fed := pl_fed p + 1\<rparr>)
      else Inr p)"
| "pipeline_step grace (FanoutTask ev) p = (if internal_fanout_event ev then fanout_do ev p else Inr p)"
| "pipeline_step grace (Deliver env) p =
     (if pl_taken p < length (fo_sink (pl_fanout p))
      then gateway_do grace env (TxInlet (fo_sink (pl_fanout p) ! pl_taken p)) (p\<lparr>pl_taken := pl_taken p + 1\<rparr>)
      else Inr p)"
| "pipeline_step grace (GatewayStep env ev) p = (if internal_gw_event ev then gateway_do grace env ev p else Inr p)"
| "pipeline_step grace (Answer sl) p =
     (if pl_answered p < length (response_outlet (pl_gateway p))
      then fanout_do (Response (response_outlet (pl_gateway p) ! pl_answered p) sl) (p\<lparr>pl_answered := pl_answered p + 1\<rparr>)
      else Inr p)"

fun pipeline_run :: "nat \<Rightarrow> pipeline_event list \<Rightarrow> pipeline \<Rightarrow> pipeline res" where
  "pipeline_run grace [] p = Inr p"
| "pipeline_run grace (ev # evs) p = res_bind (pipeline_step grace ev p) (pipeline_run grace evs)"

text \<open>Events under which no local endpoint is being shut down and no worker task is aborted.\<close>

fun quiet :: "pipeline_event \<Rightarrow> bool" where
  "quiet (GatewayStep _ ev) = benign ev"
| "quiet _ = True"

section \<open>Channels only grow\<close>

lemma perform_sink: "prefix (fo_sink s) (fo_sink (perform i task s))"
  by (induction i task s rule: perform.induct) (simp_all add: set_send_task_def)

lemma fanout_step_sink:
  assumes "fanout_inv s" and "fanout_step ev s = Inr s'"
  shows "prefix (fo_sink s) (fo_sink s')"
proof (cases ev)
  case (TaskAction i)
  then show ?thesis using assms(2) perform_sink by (auto split: option.splits)
next
  case (TaskJoined i)
  then show ?thesis
    using assms(2) joined_inv [OF assms(1), of i] by (auto split: option.splits send_task.splits if_splits)
qed (use assms(2) in \<open>auto simp: fwd_tx_def set_send_task_def split: option.splits send_task.splits\<close>)

lemma gc_sink: "response_sink (gc_deadline_map unsub s) = response_sink s"
proof -
  have "response_sink (fold (gc_one unsub) sigs s) = response_sink s" for sigs and s :: "'a sched"
    by (induction sigs arbitrary: s) (simp_all add: gc_one_def dlq_send_def)
  then show ?thesis by (simp add: gc_deadline_map_def Let_def split: prod.split)
qed

lemma resend_sink: "prefix (response_sink s) (response_sink (resend_non_landed_tx now s))"
  by (rule conjunct1 [OF resend_loop [of "\<lambda>t. prefix (response_sink s) (response_sink t)"]])
    (auto simp: dlq_send_def intro: prefix_order.trans)

lemma add_sink: "prefix (response_sink s) (response_sink (add_new_transaction sub com h tx now s))"
  by (auto simp: add_new_transaction_def Let_def dlq_send_def split: option.split)

lemma sched_step_sink:
  assumes "sched_step sub unsub com e s = Some s'"
  shows "prefix (response_sink s) (response_sink s')"
proof (cases e)
  case (Tick now)
  then show ?thesis using assms resend_sink [of "gc_deadline_map unsub s" now] by (auto simp: gc_sink)
next
  case (Incoming tx now h)
  then show ?thesis using assms add_sink by (cases tx) auto
next
  case (SignatureUpdate u)
  then show ?thesis using assms by (cases u) (auto simp: handle_tx_commitment_update_def)
qed (use assms in auto)

section \<open>The invariant of the pipeline\<close>

definition requests_for :: "signature \<Rightarrow> send_transaction_request list \<Rightarrow> nat" where
  "requests_for sig reqs = length (filter (\<lambda>tx. str_signature tx = sig) reqs)"

abbreviation copies_per_request :: "pipeline \<Rightarrow> nat" where
  "copies_per_request p \<equiv> max_copies (fo_config (pl_fanout p)) (fo_extra_fwd (pl_fanout p))"

definition pipeline_inv :: "pipeline \<Rightarrow> bool" where
  "pipeline_inv p \<longleftrightarrow> fanout_inv (pl_fanout p) \<and> live (pl_gateway p) \<and>
     pl_taken p \<le> length (fo_sink (pl_fanout p)) \<and> pl_fed p \<le> length (response_sink (pl_sched p)) \<and>
     gw_sigs (pl_gateway p) = mset (map gt_tx_sig (take (pl_taken p) (fo_sink (pl_fanout p)))) \<and>
     (\<forall>sig. potential (copies_per_request p) sig (pl_fanout p) \<le>
        requests_for sig (take (pl_fed p) (response_sink (pl_sched p))) * copies_per_request p)"

lemma pipeline_invD:
  assumes "pipeline_inv p"
  shows "fanout_inv (pl_fanout p)" and "live (pl_gateway p)" and "gw_inv (pl_gateway p)"
    and "pl_taken p \<le> length (fo_sink (pl_fanout p))" and "pl_fed p \<le> length (response_sink (pl_sched p))"
    and "gw_sigs (pl_gateway p) = mset (map gt_tx_sig (take (pl_taken p) (fo_sink (pl_fanout p))))"
    and "potential (copies_per_request p) sig (pl_fanout p) \<le>
        requests_for sig (take (pl_fed p) (response_sink (pl_sched p))) * copies_per_request p"
  using assms unfolding pipeline_inv_def live_def by blast+

lemma prefix_take: "prefix xs ys \<Longrightarrow> n \<le> length xs \<Longrightarrow> take n ys = take n xs"
  by (auto simp: prefix_def)

lemma fanout_do_inv:
  assumes "pipeline_inv p"
    and "\<And>sig. requests_for sig (take (pl_fed p) (response_sink (pl_sched p))) + incoming_for sig [ev] \<le>
           requests_for sig (take n (response_sink (pl_sched p)))"
    and "n \<le> length (response_sink (pl_sched p))"
  shows "\<exists>p'. fanout_do ev (p\<lparr>pl_fed := n, pl_answered := a\<rparr>) = Inr p' \<and> pipeline_inv p' \<and>
    fo_config (pl_fanout p') = fo_config (pl_fanout p) \<and> fo_extra_fwd (pl_fanout p') = fo_extra_fwd (pl_fanout p)"
proof -
  note inv = pipeline_invD [OF assms(1)]
  let ?b = "copies_per_request p"
  obtain f where f: "fanout_step ev (pl_fanout p) = Inr f" "fanout_inv f" using fanout_step_inv [OF inv(1)] by blast
  have cfg: "fo_config f = fo_config (pl_fanout p) \<and> fo_extra_fwd f = fo_extra_fwd (pl_fanout p)"
    by (rule fanout_step_config [OF inv(1) f(1)])
  have pot: "potential ?b sig f \<le> requests_for sig (take n (response_sink (pl_sched p))) * ?b" for sig
  proof -
    have "potential ?b sig f \<le> potential ?b sig (pl_fanout p) + incoming_for sig [ev] * ?b"
      by (rule fanout_step_potential(2) [OF inv(1) f(1) refl])
    also have "\<dots> \<le> (requests_for sig (take (pl_fed p) (response_sink (pl_sched p))) + incoming_for sig [ev]) * ?b"
      using inv(7) [of sig] by (simp add: distrib_right)
    also have "\<dots> \<le> requests_for sig (take n (response_sink (pl_sched p))) * ?b"
      by (rule mult_right_mono [OF assms(2)]) simp
    finally show ?thesis .
  qed
  have sink: "prefix (fo_sink (pl_fanout p)) (fo_sink f)" by (rule fanout_step_sink [OF inv(1) f(1)])
  have "pl_taken p \<le> length (fo_sink f)" using prefix_length_le [OF sink] inv(4) by simp
  then have "pipeline_inv (p\<lparr>pl_fed := n, pl_answered := a, pl_fanout := f\<rparr>)"
    using f(2) inv(2,6) pot assms(3) cfg prefix_take [OF sink inv(4)] by (simp add: pipeline_inv_def)
  then show ?thesis using f(1) cfg by (simp add: fanout_do_def)
qed

lemma gateway_do_inv:
  assumes "pipeline_inv p" and "benign ev" and "n \<le> length (fo_sink (pl_fanout p))"
    and "mset (map gt_tx_sig (take n (fo_sink (pl_fanout p)))) =
           mset (map gt_tx_sig (take (pl_taken p) (fo_sink (pl_fanout p)))) + accepted_sigs ev"
  shows "\<exists>p'. gateway_do grace env ev (p\<lparr>pl_taken := n\<rparr>) = Inr p' \<and> pipeline_inv p' \<and> pl_fanout p' = pl_fanout p"
proof -
  note inv = pipeline_invD [OF assms(1)]
  obtain g where g: "gw_step (plan_eviction grace) (env, ev) (pl_gateway p) = Inr g" "live g"
    using stake_strategy.step_live [OF inv(2), of "(env, ev)" grace] assms(2) by auto
  have "gw_sigs g = gw_sigs (pl_gateway p) + accepted_sigs ev"
    using gw_step_keeps [OF inv(3) _ g(1)] assms(2) by simp
  then have "pipeline_inv (p\<lparr>pl_taken := n, pl_gateway := g\<rparr>)"
    using inv(1,5,6,7) g(2) assms(3,4) by (simp add: pipeline_inv_def)
  then show ?thesis using g(1) by (simp add: gateway_do_def)
qed

lemma requests_for_Suc:
  "n < length reqs \<Longrightarrow> requests_for sig (take (Suc n) reqs) = requests_for sig (take n reqs) + (if str_signature (reqs ! n) = sig then 1 else 0)"
  by (simp add: requests_for_def take_Suc_conv_app_nth)

lemma incoming_for_internal: "internal_fanout_event ev \<Longrightarrow> incoming_for sig [ev] = 0"
  by (cases ev) simp_all

lemma accepted_internal: "internal_gw_event ev \<Longrightarrow> accepted_sigs ev = {#}"
  by (cases ev) simp_all

lemma pipeline_self: "p\<lparr>pl_fed := n, pl_answered := pl_answered p\<rparr> = p\<lparr>pl_fed := n\<rparr>"
  "p\<lparr>pl_fed := pl_fed p, pl_answered := a\<rparr> = p\<lparr>pl_answered := a\<rparr>" "p\<lparr>pl_fed := pl_fed p\<rparr> = p" "p\<lparr>pl_taken := pl_taken p\<rparr> = p"
  by simp_all

lemma pipeline_step_inv:
  assumes "pipeline_inv p" and "quiet ev"
  shows "\<exists>p'. pipeline_step grace ev p = Inr p' \<and> pipeline_inv p' \<and>
    fo_config (pl_fanout p') = fo_config (pl_fanout p) \<and> fo_extra_fwd (pl_fanout p') = fo_extra_fwd (pl_fanout p)"
proof -
  note inv = pipeline_invD [OF assms(1)]
  show ?thesis
  proof (cases ev)
    case (SchedulerStep e)
    show ?thesis
    proof (cases "sched_step subscribe_signature unsubscribe_signature get_transaction_commitment e (pl_sched p)")
      case (Some s')
      note sink = sched_step_sink [OF Some]
      have "pipeline_inv (p\<lparr>pl_sched := s'\<rparr>)"
        using inv(1,2,4-7) prefix_length_le [OF sink] prefix_take [OF sink inv(5)] by (simp add: pipeline_inv_def)
      then show ?thesis using SchedulerStep Some by simp
    qed (use SchedulerStep assms(1) in simp)
  next
    case Feed
    show ?thesis
    proof (cases "pl_fed p < length (response_sink (pl_sched p))")
      case True
      have "requests_for sig (take (pl_fed p) (response_sink (pl_sched p))) +
          incoming_for sig [fanout_event.Incoming (response_sink (pl_sched p) ! pl_fed p)] \<le>
          requests_for sig (take (Suc (pl_fed p)) (response_sink (pl_sched p)))" for sig
        using True by (simp add: requests_for_Suc)
      from fanout_do_inv [OF assms(1) this, of "pl_answered p"] True show ?thesis
        using Feed by (simp add: pipeline_self)
    qed (use Feed assms(1) in simp)
  next
    case (FanoutTask e)
    then show ?thesis
      using assms(1) fanout_do_inv [OF assms(1), of e "pl_fed p" "pl_answered p"] inv(5)
      by (auto simp: incoming_for_internal)
  next
    case (Deliver env)
    show ?thesis
    proof (cases "pl_taken p < length (fo_sink (pl_fanout p))")
      case True
      then have "mset (map gt_tx_sig (take (Suc (pl_taken p)) (fo_sink (pl_fanout p)))) =
          mset (map gt_tx_sig (take (pl_taken p) (fo_sink (pl_fanout p)))) +
          accepted_sigs (TxInlet (fo_sink (pl_fanout p) ! pl_taken p))"
        by (simp add: take_Suc_conv_app_nth)
      from gateway_do_inv [OF assms(1) _ _ this, of grace env] True show ?thesis using Deliver by auto
    qed (use Deliver assms(1) in simp)
  next
    case (GatewayStep env e)
    then show ?thesis
      using assms gateway_do_inv [OF assms(1) _ inv(4), of e grace env] by (auto simp: accepted_internal)
  next
    case (Answer sl)
    show ?thesis
    proof (cases "pl_answered p < length (response_outlet (pl_gateway p))")
      case True
      from fanout_do_inv [OF assms(1), of "Response (response_outlet (pl_gateway p) ! pl_answered p) sl" "pl_fed p" "Suc (pl_answered p)"]
      show ?thesis using Answer True inv(5) by (simp add: pipeline_self)
    qed (use Answer assms(1) in simp)
  qed
qed

lemma pipeline_run_inv:
  "pipeline_inv p \<Longrightarrow> list_all quiet evs \<Longrightarrow>
   \<exists>p'. pipeline_run grace evs p = Inr p' \<and> pipeline_inv p' \<and>
     fo_config (pl_fanout p') = fo_config (pl_fanout p) \<and> fo_extra_fwd (pl_fanout p') = fo_extra_fwd (pl_fanout p)"
proof (induction evs arbitrary: p)
  case (Cons ev evs)
  obtain p1 where p1: "pipeline_step grace ev p = Inr p1" "pipeline_inv p1"
    "fo_config (pl_fanout p1) = fo_config (pl_fanout p)" "fo_extra_fwd (pl_fanout p1) = fo_extra_fwd (pl_fanout p)"
    using pipeline_step_inv [OF Cons.prems(1)] Cons.prems(2) by auto
  then show ?case using Cons.IH [OF p1(2)] Cons.prems(2) by auto
qed simp

text \<open>The gateway as it enters its loop.\<close>

definition gateway_started :: "nat \<Rightarrow> gw_env \<Rightarrow> gw_config \<Rightarrow> pubkey \<Rightarrow> instant \<Rightarrow> gateway \<Rightarrow> bool" where
  "gateway_started grace env c me now gw \<longleftrightarrow>
     num_endpoints c > 0 \<and> transaction_sender_worker_channel_capacity c > 0 \<and> leader_prediction_lookahead c = None \<and>
     gw_loop_top (plan_eviction grace) env (gateway_new c me now) = Inr gw"

lemma pipeline_new_inv:
  assumes "gateway_started grace env c me now gw"
  shows "pipeline_inv (pipeline_new sc fc extra_fwd lewis gw)"
proof -
  have live: "live (gateway_new c me now)" using assms gateway_new_live by (simp add: gateway_started_def)
  have top: "gw_loop_top (plan_eviction grace) env (gateway_new c me now) = Inr gw" using assms by (simp add: gateway_started_def)
  have "live gw" using stake_strategy.loop_top_live [OF live, of grace env] top by simp
  moreover have "gw_sigs gw = {#}"
    using loop_top_keeps [OF _ top] live by (simp add: live_def gw_sigs_def gateway_new_def)
  ultimately show ?thesis by (simp add: pipeline_inv_def pipeline_new_def fanout_new_inv sched_new_def)
qed

lemma pipeline_run_new:
  assumes "gateway_started grace env c me now gw" and "list_all quiet evs"
    and "pipeline_run grace evs (pipeline_new sc fc extra_fwd lewis gw) = Inr p"
  shows "pipeline_inv p" and "copies_per_request p = max_copies fc extra_fwd"
proof -
  obtain p' where "pipeline_run grace evs (pipeline_new sc fc extra_fwd lewis gw) = Inr p'" "pipeline_inv p'"
    "fo_config (pl_fanout p') = fc" "fo_extra_fwd (pl_fanout p') = extra_fwd"
    using pipeline_run_inv [OF pipeline_new_inv [OF assms(1), of sc fc extra_fwd lewis] assms(2), of grace]
    by (auto simp: pipeline_new_def)
  then show "pipeline_inv p" and "copies_per_request p = max_copies fc extra_fwd" using assms(3) by auto
qed


section \<open>From granted attempts to reported copies\<close>

fun granted :: "sched_config \<Rightarrow> signature \<Rightarrow> pipeline_event \<Rightarrow> nat" where
  "granted sc sig (SchedulerStep e) = allowance sc sig e"
| "granted sc sig _ = 0"

lemma do_sched:
  "fanout_do ev p = Inr p' \<Longrightarrow> pl_sched p' = pl_sched p" "gateway_do grace env e p = Inr p' \<Longrightarrow> pl_sched p' = pl_sched p"
  by (auto simp: fanout_do_def gateway_do_def)

lemma do_fanout:
  "fanout_do ev p = Inr p' \<Longrightarrow> fanout_step ev (pl_fanout p) = Inr (pl_fanout p')"
  "gateway_do grace env e p = Inr p' \<Longrightarrow> pl_fanout p' = pl_fanout p"
  by (auto simp: fanout_do_def gateway_do_def)

lemma pipeline_step_budget:
  assumes "pool_keyed (pl_sched p)" and "pipeline_step grace ev p = Inr p'"
  shows "pool_keyed (pl_sched p') \<and> cfg (pl_sched p') = cfg (pl_sched p) \<and>
    sends_of sig (pl_sched p') + attempts_left sig (pl_sched p') \<le>
    sends_of sig (pl_sched p) + attempts_left sig (pl_sched p) + granted (cfg (pl_sched p)) sig ev"
proof (cases "\<exists>e. ev = SchedulerStep e")
  case True
  then obtain e where e: "ev = SchedulerStep e" by blast
  show ?thesis
  proof (cases "sched_step subscribe_signature unsubscribe_signature get_transaction_commitment e (pl_sched p)")
    case (Some s')
    then show ?thesis using step_budget [OF assms(1) Some, of sig] step_cfg [OF Some] assms(2) e by auto
  qed (use assms e in auto)
next
  case False
  then have "pl_sched p' = pl_sched p"
    using assms(2) by (cases ev) (auto split: if_splits dest: do_sched)
  then show ?thesis using assms(1) by simp
qed

lemma pipeline_run_budget:
  "pool_keyed (pl_sched p) \<Longrightarrow> pipeline_run grace evs p = Inr p' \<Longrightarrow>
   sends_of sig (pl_sched p') \<le> sends_of sig (pl_sched p) + attempts_left sig (pl_sched p) +
     (\<Sum>ev\<leftarrow>evs. granted (cfg (pl_sched p)) sig ev)"
proof (induction evs arbitrary: p)
  case (Cons ev evs)
  obtain p1 where p1: "pipeline_step grace ev p = Inr p1" "pipeline_run grace evs p1 = Inr p'" using Cons.prems(2) by auto
  have step: "pool_keyed (pl_sched p1)" "cfg (pl_sched p1) = cfg (pl_sched p)"
    "sends_of sig (pl_sched p1) + attempts_left sig (pl_sched p1) \<le>
     sends_of sig (pl_sched p) + attempts_left sig (pl_sched p) + granted (cfg (pl_sched p)) sig ev"
    using pipeline_step_budget [OF Cons.prems(1) p1(1)] by blast+
  then show ?case using Cons.IH [OF step(1) p1(2)] by simp
qed simp

lemma requests_for_take: "requests_for sig (take n reqs) \<le> requests_for sig reqs"
proof -
  have "requests_for sig reqs = requests_for sig (take n reqs) + requests_for sig (drop n reqs)"
    unfolding requests_for_def by (metis append_take_drop_id filter_append length_append)
  then show ?thesis by simp
qed

lemma copies_take: "copies sig (take n gtxs) \<le> copies sig gtxs"
proof -
  have "copies sig gtxs = copies sig (take n gtxs) + copies sig (drop n gtxs)" by (metis append_take_drop_id copies_simps(3))
  then show ?thesis by simp
qed

lemma count_sigs: "count (mset (map gt_tx_sig gtxs)) sig = copies sig gtxs"
  by (induction gtxs) (auto simp: copies_def)

lemma pipeline_reported:
  assumes "pipeline_inv p"
  shows "count (responses_sigs (response_outlet (pl_gateway p))) sig \<le> sends_of sig (pl_sched p) * copies_per_request p"
proof -
  note inv = pipeline_invD [OF assms]
  have "count (responses_sigs (response_outlet (pl_gateway p))) sig \<le> count (gw_sigs (pl_gateway p)) sig"
    by (simp add: gw_sigs_def)
  also have "\<dots> = copies sig (take (pl_taken p) (fo_sink (pl_fanout p)))" by (simp only: inv(6) count_sigs)
  also have "\<dots> \<le> copies sig (fo_sink (pl_fanout p))" by (rule copies_take)
  also have "\<dots> \<le> potential (copies_per_request p) sig (pl_fanout p)" by (simp add: potential_def)
  also have "\<dots> \<le> requests_for sig (take (pl_fed p) (response_sink (pl_sched p))) * copies_per_request p" by (rule inv(7))
  also have "\<dots> \<le> requests_for sig (response_sink (pl_sched p)) * copies_per_request p"
    by (rule mult_right_mono [OF requests_for_take]) simp
  finally show ?thesis by (simp add: sends_of_def requests_for_def)
qed


section \<open>Transactions that found no destination\<close>

lemma responded_in_responses: "r \<in> set rs \<Longrightarrow> set (responded_sigs r) \<subseteq> set_mset (responses_sigs rs)"
proof (induction rs)
  case (Cons r' rs)
  have "set (responded_sigs r') = set_mset (response_sigs r')"
    by (cases r') (auto simp: queue_sigs_def case_prod_beta)
  then show ?case using Cons by auto
qed simp

definition undelivered :: "signature \<Rightarrow> pipeline \<Rightarrow> bool" where
  "undelivered sig p \<longleftrightarrow> sig \<in> fo_inflight (pl_fanout p) \<and> potential (copies_per_request p) sig (pl_fanout p) = 0"

lemma fanout_do_undelivered:
  assumes "pipeline_inv p" and "undelivered sig p" and "responses_for sig [ev] = 0"
    and "fanout_do ev (p\<lparr>pl_fed := n, pl_answered := a\<rparr>) = Inr p'"
  shows "undelivered sig p'"
proof -
  note inv = pipeline_invD [OF assms(1)]
  define f where "f = pl_fanout p'"
  have f: "fanout_step ev (pl_fanout p) = Inr f" unfolding f_def using do_fanout(1) [OF assms(4)] by simp
  have flight: "sig \<in> fo_inflight (pl_fanout p)" "potential (copies_per_request p) sig (pl_fanout p) = 0"
    using assms(2) by (simp_all add: undelivered_def)
  have flight': "sig \<in> fo_inflight f" by (rule fanout_step_inflight [OF inv(1) f flight(1) assms(3)])
  have "potential (copies_per_request p) sig f = 0"
    using fanout_step_potential(1) [OF inv(1) f refl, of sig] assms(3) flight flight' by (simp add: flight_credit_def)
  then show ?thesis
    using flight' fanout_step_config [OF inv(1) f] by (simp add: undelivered_def f_def)
qed

lemma pipeline_step_undelivered:
  assumes "pipeline_inv p" and "undelivered sig p" and "pipeline_step grace ev p = Inr p'"
  shows "undelivered sig p'"
proof (cases ev)
  case Feed
  show ?thesis
  proof (cases "pl_fed p < length (response_sink (pl_sched p))")
    case True
    then show ?thesis
      using fanout_do_undelivered [OF assms(1,2), of "fanout_event.Incoming (response_sink (pl_sched p) ! pl_fed p)"
          "pl_answered p" "Suc (pl_fed p)"] assms(3) Feed by simp
  qed (use Feed assms in simp)
next
  case (FanoutTask e)
  have "responses_for sig [e] = 0" if "internal_fanout_event e" using that by (cases e) simp_all
  then show ?thesis
    using fanout_do_undelivered [OF assms(1,2), of e "pl_answered p" "pl_fed p"] assms(2,3) FanoutTask
    by (auto split: if_splits)
next
  case (Answer sl)
  show ?thesis
  proof (cases "pl_answered p < length (response_outlet (pl_gateway p))")
    case True
    let ?r = "response_outlet (pl_gateway p) ! pl_answered p"
    have "set (responded_sigs ?r) \<subseteq> set_mset (gw_sigs (pl_gateway p))"
      using responded_in_responses [OF nth_mem [OF True]] by (auto simp: gw_sigs_def)
    also have "\<dots> \<subseteq> gt_tx_sig ` set (fo_sink (pl_fanout p))"
      unfolding pipeline_invD(6) [OF assms(1)] by (auto dest: in_set_takeD)
    finally have "responses_for sig [Response ?r sl] = 0"
      using assms(2) by (auto simp: undelivered_def potential_def copies_0_iff)
    then show ?thesis
      using fanout_do_undelivered [OF assms(1,2), of "Response ?r sl" "Suc (pl_answered p)" "pl_fed p"] assms(3) Answer True
      by (simp add: pipeline_self)
  qed (use Answer assms in simp)
next
  case (SchedulerStep e)
  then have "pl_fanout p' = pl_fanout p" using assms(3) by (auto split: option.splits)
  then show ?thesis using assms(2) by (simp add: undelivered_def)
next
  case (Deliver env)
  then have "pl_fanout p' = pl_fanout p" using assms(3) by (auto split: if_splits dest: do_fanout(2))
  then show ?thesis using assms(2) by (simp add: undelivered_def)
next
  case (GatewayStep env e)
  then have "pl_fanout p' = pl_fanout p" using assms(3) by (auto split: if_splits dest: do_fanout(2))
  then show ?thesis using assms(2) by (simp add: undelivered_def)
qed

lemma pipeline_run_undelivered:
  "pipeline_inv p \<Longrightarrow> undelivered sig p \<Longrightarrow> list_all quiet evs \<Longrightarrow> pipeline_run grace evs p = Inr p' \<Longrightarrow> undelivered sig p'"
proof (induction evs arbitrary: p)
  case (Cons ev evs)
  obtain p1 where p1: "pipeline_step grace ev p = Inr p1" "pipeline_run grace evs p1 = Inr p'" using Cons.prems(4) by auto
  have "pipeline_inv p1" using pipeline_step_inv [OF Cons.prems(1), of ev grace] Cons.prems(3) p1(1) by auto
  then show ?case
    using Cons.IH p1 Cons.prems(3) pipeline_step_undelivered [OF Cons.prems(1,2) p1(1)] by simp
qed simp


section \<open>Examples\<close>

lemma ex_gateway_started: "\<exists>gw. gateway_started 5 (ex_env 5) (ex_gcfg None) (Pubkey 9) 0 gw"
proof -
  have "live (gateway_new (ex_gcfg None) (Pubkey 9) 0)" by (rule gateway_new_live) simp_all
  from stake_strategy.loop_top_live [OF this, of 5 "ex_env 5"] show ?thesis by (auto simp: gateway_started_def)
qed

definition ex_request_step :: pipeline_event where
  "ex_request_step = SchedulerStep (sched_event.Incoming (Some ex_request) 5 ex_heights)"

definition ex_lost_events :: "pipeline_event list" where
  "ex_lost_events = [ex_request_step, Feed, FanoutTask (TaskStart 0 0 ex_nobody always_allow), FanoutTask (TaskAction 0),
     FanoutTask (TaskJoined 0)]"

definition ex_more_events :: "pipeline_event list" where
  "ex_more_events = [ex_request_step, Feed, FanoutTask (TaskStart 1 0 ex_leaders always_allow), FanoutTask (TaskAction 1),
     Deliver (ex_env 6), Answer 7]"

lemma ex_quiet: "list_all quiet ex_lost_events" "list_all quiet ex_more_events"
  by (simp_all add: ex_lost_events_def ex_more_events_def ex_request_step_def)



lemma ex_lost:
  "\<exists>p. pipeline_run 5 ex_lost_events (pipeline_new ex_cfg SmartFanout [] False gw) = Inr p \<and>
     fo_send_set (pl_fanout p) = [] \<and> Signature 7 \<in> fo_inflight (pl_fanout p) \<and> fo_sink (pl_fanout p) = []"
proof -
  have "str_signature ex_request = Signature 7" by (simp add: ex_request_def)
  then show ?thesis
    unfolding ex_lost_events_def ex_request_step_def pipeline_new_def sched_new_def rooted_new_def
    by (simp add: fanout_do_def fanout_eval ex_plan_nobody add_new_transaction_def current_height_def last_valid_height_def
        get_transaction_commitment_def subscribe_signature_def)
qed


end
