(* ===== verification/Jet_Lewis.thy ===== *)
theory Jet_Lewis
  imports Jet_Fanout "HOL-Library.Multiset" "HOL-Library.Sublist"
begin

text \<open>
  \<open>apps/jet/src/grpc_lewis.rs\<close>, the pipeline that reports the fate of every transaction to the Lewis service, with its part
  of \<open>config.rs\<close> and the end of \<open>run_jet\<close> in \<open>bin/jet.rs\<close>, which watches its task.

  \<open>LewisEventHandler\<close> is called by the fanout (\<open>lewis_report\<close> of \<open>Jet_Fanout\<close>) and puts events into a bounded channel. The
  task \<open>run_lewis_client\<close> takes them out, collects them in batches and sends those over a gRPC stream, connecting
  again after an error. The state \<open>lewis\<close> holds the channel and the place where the task is (\<open>lewis_phase\<close>);
  \<open>lw_step\<close> is one step of the handler, of the task or of the world. The connection is code of \<open>tonic\<close>: whether it
  can be made, whether the \<open>i\<close>-th event of a batch is accepted, whether a flush succeeds and what the service answers come
  with the steps. Texts (addresses, keys, errors) are kept as the values they print.

  \<open>lw_dropped\<close>, \<open>lw_sent\<close> and \<open>lw_lost\<close> are logs: events the channel refused or the task threw away (the two uses of
  \<open>lewis_events_dropped_inc\<close>), events the stream accepted, and events that were in a batch or in the channel when these were
  given up.
\<close>

section \<open>Configuration and events\<close>

record lewis_config =
  lc_endpoint :: string
  lc_x_token :: "string option"
  lc_queue_size_grpc :: nat
  lc_jet_id :: "string option"
  lc_batch_size_threshold :: u64
  lc_batch_timeout :: duration
  lc_connect_timeout :: duration
  lc_keepalive_interval :: duration
  lc_keepalive_timeout :: duration
  lc_event_buffer_size :: nat
  lc_keep_alive_while_idle :: bool
  lc_max_reconnect_attempts :: nat
  lc_reconnect_initial_interval :: duration
  lc_reconnect_max_interval :: duration
  lc_stream_timeout :: duration

text \<open>What a file that names only the endpoint gives.\<close>

definition lewis_config_default :: "string \<Rightarrow> lewis_config" where
  "lewis_config_default endpoint =
     \<lparr>lc_endpoint = endpoint, lc_x_token = None, lc_queue_size_grpc = 10000, lc_jet_id = None,
      lc_batch_size_threshold = 512, lc_batch_timeout = 1000 * 1000000, lc_connect_timeout = 10 * 1000000000,
      lc_keepalive_interval = 30 * 1000000000, lc_keepalive_timeout = 10 * 1000000000, lc_event_buffer_size = 100000,
      lc_keep_alive_while_idle = True, lc_max_reconnect_attempts = 3, lc_reconnect_initial_interval = 1000 * 1000000,
      lc_reconnect_max_interval = 30 * 1000000000, lc_stream_timeout = 300 * 1000000000\<rparr>"

datatype lewis_error_text = SendErrorText send_tx_error | DropReasonText tx_drop_reason

record event_jet =
  ej_jet_id :: string
  ej_sig :: signature
  ej_slot :: slot
  ej_ts :: nat
  ej_validator :: pubkey
  ej_tpu_addr :: "socket_addr option"
  ej_error :: "lewis_error_text option"
  ej_skipped :: bool
  ej_shield_policies :: "pubkey list"

definition build_event ::
  "string \<Rightarrow> nat \<Rightarrow> signature \<Rightarrow> pubkey \<Rightarrow> socket_addr option \<Rightarrow> slot \<Rightarrow> lewis_error_text option \<Rightarrow> bool \<Rightarrow> pubkey list
     \<Rightarrow> event_jet" where
  "build_event jet_id ts sg validator tpu_addr sl err is_skipped shield_policies =
     \<lparr>ej_jet_id = jet_id, ej_sig = sg, ej_slot = sl, ej_ts = ts, ej_validator = validator, ej_tpu_addr = tpu_addr,
      ej_error = err, ej_skipped = is_skipped, ej_shield_policies = shield_policies\<rparr>"

text \<open>The events of \<open>handle_skip\<close> and \<open>handle_gateway_response\<close>; \<open>ts\<close> is the wall clock in milliseconds.\<close>

definition skip_event :: "string \<Rightarrow> nat \<Rightarrow> signature \<Rightarrow> pubkey \<Rightarrow> slot \<Rightarrow> pubkey list \<Rightarrow> event_jet" where
  "skip_event jet_id ts sg validator sl policies = build_event jet_id ts sg validator None sl None True policies"

fun response_events :: "string \<Rightarrow> nat \<Rightarrow> gateway_response \<Rightarrow> slot \<Rightarrow> event_jet list" where
  "response_events jet_id ts (TxSent sent) sl =
     [build_event jet_id ts (ts_tx_sig sent) (ts_remote_peer_identity sent) (Some (ts_remote_peer_addr sent)) sl None False []]"
| "response_events jet_id ts (TxFailed failed) sl =
     [build_event jet_id ts (tf_tx_sig failed) (tf_remote_peer_identity failed) (Some (tf_remote_peer_addr failed)) sl
        (Some (SendErrorText (tf_failure_reason failed))) False []]"
| "response_events jet_id ts (TxDrop dropped) sl =
     map (\<lambda>(tx, _). build_event jet_id ts (gt_tx_sig tx) (td_remote_peer_identity dropped) None sl
            (Some (DropReasonText (td_drop_reason dropped))) False []) (td_dropped_gateway_tx_vec dropped)"

section \<open>State\<close>

datatype lewis_client_error =
    ConnectionError
  | StreamSendError
  | StreamFlushError
  | AckError
  | MaxReconnectAttemptsExceeded

record lewis_stream =
  ls_batch :: "event_jet list"
  ls_next_flush :: instant
  ls_deadline :: "instant option"

datatype lewis_phase =
    LwTop
  | LwStreaming lewis_stream
  | LwClosing
  | LwWaiting "duration option"
  | LwDraining
  | LwDone "lewis_client_error option"

record lewis =
  lw_config :: lewis_config
  lw_jet_id :: string
  lw_queue :: "event_jet list"
  lw_senders_open :: bool
  lw_cancelled :: bool
  lw_attempt :: nat
  lw_backoff :: backoff
  lw_phase :: lewis_phase
  lw_sent :: "event_jet list"
  lw_dropped :: "event_jet list"
  lw_lost :: "event_jet list"

definition create_lewis_pipeline :: "lewis_config option \<Rightarrow> lewis option res" where
  "create_lewis_pipeline config =
     (case config of
        None \<Rightarrow> Inr None
      | Some c \<Rightarrow>
          (if lc_event_buffer_size c = 0 then Inl (Panic ''mpsc bounded channel requires buffer > 0'')
           else Inr (Some
             \<lparr>lw_config = c, lw_jet_id = (case lc_jet_id c of None \<Rightarrow> '''' | Some i \<Rightarrow> i), lw_queue = [],
              lw_senders_open = True, lw_cancelled = False, lw_attempt = 0,
              lw_backoff = backoff_new (lc_reconnect_initial_interval c) (lc_reconnect_max_interval c),
              lw_phase = LwTop, lw_sent = [], lw_dropped = [], lw_lost = []\<rparr>)))"

section \<open>The handler\<close>

definition emit :: "event_jet \<Rightarrow> lewis \<Rightarrow> lewis" where
  "emit event l =
     (if (\<forall>r. lw_phase l \<noteq> LwDone r) \<and> length (lw_queue l) < lc_event_buffer_size (lw_config l)
      then l\<lparr>lw_queue := lw_queue l @ [event]\<rparr> else l\<lparr>lw_dropped := lw_dropped l @ [event]\<rparr>)"

definition report_events :: "string \<Rightarrow> nat \<Rightarrow> lewis_report \<Rightarrow> event_jet list" where
  "report_events jet_id ts r =
     (case r of
        ReportSkip sg validator sl policies \<Rightarrow> [skip_event jet_id ts sg validator sl policies]
      | ReportResponse response sl \<Rightarrow> response_events jet_id ts response sl)"

definition handle_report :: "nat \<Rightarrow> lewis_report \<Rightarrow> lewis \<Rightarrow> lewis" where
  "handle_report ts r l = fold emit (report_events (lw_jet_id l) ts r) l"

section \<open>The client\<close>

text \<open>\<open>send_batch\<close> returns what the stream accepted, what was drained from the batch without being accepted, and the error.\<close>

fun send_events :: "(nat \<Rightarrow> bool) \<Rightarrow> nat \<Rightarrow> event_jet list \<Rightarrow> event_jet list \<times> event_jet list" where
  "send_events accepts i [] = ([], [])"
| "send_events accepts i (event # rest) =
     (if accepts i then (let (sent, lost) = send_events accepts (Suc i) rest in (event # sent, lost))
      else ([], event # rest))"

definition send_batch ::
  "(nat \<Rightarrow> bool) \<Rightarrow> bool \<Rightarrow> event_jet list \<Rightarrow> lewis \<Rightarrow> lewis \<times> lewis_client_error option" where
  "send_batch accepts flushes batch l =
     (if batch = [] then (l, None)
      else
        (let (sent, lost) = send_events accepts 0 batch;
             l1 = l\<lparr>lw_sent := lw_sent l @ sent, lw_lost := lw_lost l @ lost\<rparr>
         in if lost \<noteq> [] then (l1, Some StreamSendError)
            else if flushes then (l1, None) else (l1, Some StreamFlushError)))"

text \<open>The task returns: its receiver is dropped with what the channel still holds.\<close>

definition lw_return :: "lewis_client_error option \<Rightarrow> lewis \<Rightarrow> lewis" where
  "lw_return r l = l\<lparr>lw_phase := LwDone r, lw_lost := lw_lost l @ lw_queue l, lw_queue := []\<rparr>"

text \<open>What \<open>run_lewis_client\<close> does with the result of \<open>connect_and_stream\<close>.\<close>

definition lw_completed :: "lewis \<Rightarrow> lewis" where
  "lw_completed l = lw_return None (l\<lparr>lw_backoff := backoff_reset (lw_backoff l)\<rparr>)"

definition lw_failed :: "lewis \<Rightarrow> lewis res" where
  "lw_failed l =
     (let l1 = l\<lparr>lw_attempt := lw_attempt l + 1\<rparr>
      in if lw_attempt l1 \<ge> lc_max_reconnect_attempts (lw_config l1) then Inr (l1\<lparr>lw_phase := LwDraining\<rparr>)
         else res_bind (maybe_tick (lw_backoff l1)) (\<lambda>(delay, b).
                Inr (l1\<lparr>lw_backoff := b, lw_phase := LwWaiting delay\<rparr>)))"

text \<open>The head of the loop and the first half of \<open>connect_and_stream\<close>; an interval of length zero is a panic.\<close>

definition lw_connect :: "instant \<Rightarrow> bool \<Rightarrow> lewis \<Rightarrow> lewis res" where
  "lw_connect now connects l =
     (let l1 = (if lw_attempt l = 0 then l\<lparr>lw_backoff := backoff_init (lw_backoff l)\<rparr> else l)
      in if lw_cancelled l1 then Inr (lw_return None l1)
         else if \<not> connects then lw_failed l1
         else if lc_batch_timeout (lw_config l1) = 0 then Inl (Panic ''`period` must be non-zero.'')
         else Inr (l1\<lparr>lw_phase := LwStreaming
                \<lparr>ls_batch = [], ls_next_flush = now,
                 ls_deadline = (if lc_stream_timeout (lw_config l1) > 0
                                then Some (now + lc_stream_timeout (lw_config l1)) else None)\<rparr>\<rparr>))"

datatype lewis_select = LwSelCancelled | LwSelRecv | LwSelFlush | LwSelResponse bool

text \<open>After the loop: the rest of the batch is sent and the answer awaited.\<close>

definition lw_break :: "(nat \<Rightarrow> bool) \<Rightarrow> bool \<Rightarrow> lewis_stream \<Rightarrow> lewis \<Rightarrow> lewis res" where
  "lw_break accepts flushes st l =
     (case send_batch accepts flushes (ls_batch st) l of
        (l1, Some _) \<Rightarrow> lw_failed l1
      | (l1, None) \<Rightarrow> Inr (l1\<lparr>lw_phase := LwClosing\<rparr>))"

text \<open>A full or timed-out batch is sent and the loop goes on; \<open>at\<close> is when the branch resolves.\<close>

definition lw_flush :: "(nat \<Rightarrow> bool) \<Rightarrow> bool \<Rightarrow> instant \<Rightarrow> lewis_stream \<Rightarrow> lewis \<Rightarrow> lewis res" where
  "lw_flush accepts flushes next_flush st l =
     (case send_batch accepts flushes (ls_batch st) l of
        (l1, Some _) \<Rightarrow> lw_failed l1
      | (l1, None) \<Rightarrow> Inr (l1\<lparr>lw_phase := LwStreaming (st\<lparr>ls_batch := [], ls_next_flush := next_flush\<rparr>)\<rparr>))"

text \<open>\<open>MissedTickBehavior::Skip\<close>: the next tick is the next multiple of the period.\<close>

definition next_tick :: "duration \<Rightarrow> instant \<Rightarrow> instant \<Rightarrow> instant" where
  "next_tick period tick now = tick + period * ((now - tick) div period + 1)"

definition stream_select ::
  "instant \<Rightarrow> lewis_select \<Rightarrow> (nat \<Rightarrow> bool) \<Rightarrow> bool \<Rightarrow> lewis_stream \<Rightarrow> lewis \<Rightarrow> lewis res" where
  "stream_select at sel accepts flushes st l =
     (case sel of
        LwSelCancelled \<Rightarrow> if lw_cancelled l then lw_break accepts flushes st l else Inr l
      | LwSelRecv \<Rightarrow>
          (case lw_queue l of
             event # rest \<Rightarrow>
               (let st1 = st\<lparr>ls_batch := ls_batch st @ [event]\<rparr>; l1 = l\<lparr>lw_queue := rest, lw_phase := LwStreaming st1\<rparr>
                in if length (ls_batch st1) \<ge> unat (lc_batch_size_threshold (lw_config l))
                   then lw_flush accepts flushes (at + lc_batch_timeout (lw_config l)) st1 l1 else Inr l1)
           | [] \<Rightarrow> if lw_senders_open l then Inr l else lw_break accepts flushes st l)
      | LwSelFlush \<Rightarrow>
          (if at < ls_next_flush st then Inr l
           else lw_flush accepts flushes (next_tick (lc_batch_timeout (lw_config l)) (ls_next_flush st) at) st l)
      | LwSelResponse True \<Rightarrow>
          (case send_batch accepts flushes (ls_batch st) l of
             (l1, Some _) \<Rightarrow> lw_failed l1
           | (l1, None) \<Rightarrow> Inr (lw_completed l1))
      | LwSelResponse False \<Rightarrow> lw_failed (l\<lparr>lw_lost := lw_lost l @ ls_batch st\<rparr>))"

text \<open>One iteration of the loop of \<open>connect_and_stream\<close>, which begins at \<open>now\<close>.\<close>

definition stream_iteration ::
  "instant \<Rightarrow> instant \<Rightarrow> lewis_select \<Rightarrow> (nat \<Rightarrow> bool) \<Rightarrow> bool \<Rightarrow> lewis_stream \<Rightarrow> lewis \<Rightarrow> lewis res" where
  "stream_iteration now at sel accepts flushes st l =
     (case ls_deadline st of
        Some deadline \<Rightarrow>
          if now \<ge> deadline then lw_break accepts flushes st l else stream_select at sel accepts flushes st l
      | None \<Rightarrow> stream_select at sel accepts flushes st l)"

text \<open>The final answer: \<open>None\<close> is the timeout of five seconds.\<close>

definition final_ack :: "bool option \<Rightarrow> lewis \<Rightarrow> lewis res" where
  "final_ack ack l = (if ack = Some False then lw_failed l else Inr (lw_completed l))"

datatype lewis_step =
    LwReport nat lewis_report
  | LwHandlersDropped
  | LwCancel
  | LwConnect instant bool
  | LwIterate instant instant lewis_select "nat \<Rightarrow> bool" bool
  | LwFinalAck "bool option"
  | LwBackoffOver
  | LwDrain

text \<open>A step that the phase does not allow changes nothing.\<close>

fun lw_step :: "lewis_step \<Rightarrow> lewis \<Rightarrow> lewis res" where
  "lw_step (LwReport ts r) l = Inr (if lw_senders_open l then handle_report ts r l else l)"
| "lw_step LwHandlersDropped l = Inr (l\<lparr>lw_senders_open := False\<rparr>)"
| "lw_step LwCancel l = Inr (l\<lparr>lw_cancelled := True\<rparr>)"
| "lw_step (LwConnect now connects) l = (case lw_phase l of LwTop \<Rightarrow> lw_connect now connects l | _ \<Rightarrow> Inr l)"
| "lw_step (LwIterate now at sel accepts flushes) l =
     (case lw_phase l of LwStreaming st \<Rightarrow> stream_iteration now at sel accepts flushes st l | _ \<Rightarrow> Inr l)"
| "lw_step (LwFinalAck ack) l = (case lw_phase l of LwClosing \<Rightarrow> final_ack ack l | _ \<Rightarrow> Inr l)"
| "lw_step LwBackoffOver l = (case lw_phase l of LwWaiting _ \<Rightarrow> Inr (l\<lparr>lw_phase := LwTop\<rparr>) | _ \<Rightarrow> Inr l)"
| "lw_step LwDrain l =
     (case lw_phase l of
        LwDraining \<Rightarrow>
          (case lw_queue l of
             event # rest \<Rightarrow> Inr (l\<lparr>lw_queue := rest, lw_dropped := lw_dropped l @ [event]\<rparr>)
           | [] \<Rightarrow> if lw_senders_open l then Inr l else Inr (lw_return (Some MaxReconnectAttemptsExceeded) l))
      | _ \<Rightarrow> Inr l)"

fun lw_run :: "lewis_step list \<Rightarrow> lewis \<Rightarrow> lewis res" where
  "lw_run [] l = Inr l"
| "lw_run (x # xs) l = res_bind (lw_step x l) (lw_run xs)"

section \<open>The account of all events\<close>

definition batch_of :: "lewis \<Rightarrow> event_jet list" where
  "batch_of l = (case lw_phase l of LwStreaming st \<Rightarrow> ls_batch st | _ \<Rightarrow> [])"

text \<open>
  The account with an explicit batch: inside a step the batch is held by the step and not by the phase. The events on
  their way keep the order in which they were emitted.
\<close>

definition events_ok :: "lewis_config \<Rightarrow> bool \<Rightarrow> event_jet list \<Rightarrow> event_jet list \<Rightarrow> lewis \<Rightarrow> bool" where
  "events_ok c handlers emitted batch l \<longleftrightarrow>
     mset emitted = mset (lw_sent l) + mset batch + mset (lw_queue l) + mset (lw_dropped l) + mset (lw_lost l) \<and>
     subseq (lw_sent l @ batch @ lw_queue l) emitted \<and> length (lw_queue l) \<le> lc_event_buffer_size c \<and> lw_config l = c \<and>
     initial_interval (lw_backoff l) = lc_reconnect_initial_interval c \<and>
     lw_jet_id l = (case lc_jet_id c of None \<Rightarrow> '''' | Some i \<Rightarrow> i) \<and> lw_senders_open l = handlers"

definition lewis_inv :: "lewis_config \<Rightarrow> bool \<Rightarrow> event_jet list \<Rightarrow> lewis \<Rightarrow> bool" where
  "lewis_inv c handlers emitted l \<longleftrightarrow>
     events_ok c handlers emitted (batch_of l) l \<and> length (batch_of l) < max 1 (unat (lc_batch_size_threshold c))"

text \<open>A configuration with which no step panics.\<close>

definition lewis_config_ok :: "lewis_config \<Rightarrow> bool" where
  "lewis_config_ok c \<longleftrightarrow> 0 < lc_event_buffer_size c \<and> 0 < lc_batch_timeout c \<and>
     lc_reconnect_initial_interval c * 2 ^ 32 \<le> duration_max"

lemma events_ok_phase [simp]:
  "events_ok c h E b (l\<lparr>lw_phase := p\<rparr>) \<longleftrightarrow> events_ok c h E b l" "events_ok c h E b (l\<lparr>lw_attempt := n\<rparr>) \<longleftrightarrow> events_ok c h E b l"
  "events_ok c h E b (l\<lparr>lw_cancelled := x\<rparr>) \<longleftrightarrow> events_ok c h E b l"
  by (simp_all add: events_ok_def)

lemma lewis_inv_streaming:
  "lewis_inv c h E (l\<lparr>lw_phase := LwStreaming st\<rparr>) \<longleftrightarrow>
   events_ok c h E (ls_batch st) l \<and> length (ls_batch st) < max 1 (unat (lc_batch_size_threshold c))"
  by (simp add: lewis_inv_def batch_of_def)

lemma lewis_inv_other:
  "(\<And>st. p \<noteq> LwStreaming st) \<Longrightarrow> events_ok c h E [] l \<Longrightarrow> lewis_inv c h E (l\<lparr>lw_phase := p\<rparr>)"
  by (cases p) (auto simp: lewis_inv_def batch_of_def)

lemma maybe_tick_ok:
  assumes "initial_interval b * 2 ^ 32 \<le> duration_max"
  shows "res_ok (\<lambda>(delay, b'). initial_interval b' = initial_interval b) (maybe_tick b)"
proof (cases "retries b")
  case (Some r)
  have "unat ((2 :: 32 word) ^ unat r) \<le> 2 ^ 32" using unsigned_less [where 'a = nat, of "(2 :: 32 word) ^ unat r"] by simp
  then have "initial_interval b * unat ((2 :: 32 word) ^ unat r) \<le> duration_max"
    using assms by (meson mult_le_mono2 order.trans)
  then show ?thesis using Some by (simp add: maybe_tick_def Let_def)
qed (simp add: maybe_tick_def)

lemma subseq_without:
  assumes "subseq (xs @ ys @ zs) E"
  shows "subseq (xs @ zs) E"
proof -
  have "subseq (xs @ zs) (xs @ ys @ zs)" by (intro list_emb_append_mono list_emb_append2) simp_all
  then show ?thesis using assms by (rule subseq_order.trans)
qed

lemma lw_failed_inv:
  assumes inv: "events_ok c h E [] l" and ok: "lewis_config_ok c"
  shows "res_ok (lewis_inv c h E) (lw_failed l)"
proof -
  have frame: "lewis_inv c h E (l\<lparr>lw_attempt := n, lw_backoff := b, lw_phase := LwWaiting delay\<rparr>)"
    if "initial_interval b = initial_interval (lw_backoff l)" for n b delay
    using inv that by (intro lewis_inv_other) (auto simp: events_ok_def)
  have "initial_interval (lw_backoff l) * 2 ^ 32 \<le> duration_max"
    using inv ok by (simp add: events_ok_def lewis_config_ok_def)
  from maybe_tick_ok [OF this] have "res_ok (lewis_inv c h E) (res_bind (maybe_tick (lw_backoff l)) (\<lambda>(delay, b).
      Inr (l\<lparr>lw_attempt := lw_attempt l + 1, lw_backoff := b, lw_phase := LwWaiting delay\<rparr>)))"
    by (rule res_ok_bind) (use frame in auto)
  moreover have "lewis_inv c h E (l\<lparr>lw_attempt := n, lw_phase := LwDraining\<rparr>)" for n
    using inv by (intro lewis_inv_other) auto
  ultimately show ?thesis by (simp add: lw_failed_def Let_def)
qed

lemma lw_return_inv: "events_ok c h E [] l \<Longrightarrow> lewis_inv c h E (lw_return r l)"
  by (auto simp: lw_return_def lewis_inv_def batch_of_def events_ok_def dest: subseq_without [of _ _ "[]", simplified])

lemma lw_completed_inv: "events_ok c h E [] l \<Longrightarrow> lewis_inv c h E (lw_completed l)"
  unfolding lw_completed_def by (rule lw_return_inv) (simp add: events_ok_def backoff_reset_def)

lemma send_events_append: "send_events accepts i b = (sent, lost) \<Longrightarrow> b = sent @ lost"
  by (induction accepts i b arbitrary: sent lost rule: send_events.induct) (auto split: if_splits prod.splits)

lemma send_batch_inv:
  assumes "events_ok c h E b l" and "send_batch accepts flushes b l = (l', e)"
  shows "events_ok c h E [] l'"
proof (cases "b = []")
  case False
  obtain sent lost where sl: "send_events accepts 0 b = (sent, lost)" by fastforce
  have l': "l' = l\<lparr>lw_sent := lw_sent l @ sent, lw_lost := lw_lost l @ lost\<rparr>"
    using assms(2) False sl by (auto simp: send_batch_def Let_def split: if_splits)
  show ?thesis
    using assms(1) subseq_without [of "lw_sent l @ sent" lost "lw_queue l" E]
    unfolding l' events_ok_def send_events_append [OF sl] by simp
qed (use assms in \<open>simp add: send_batch_def\<close>)

lemma lw_break_inv:
  "events_ok c h E (ls_batch st) l \<Longrightarrow> lewis_config_ok c \<Longrightarrow> res_ok (lewis_inv c h E) (lw_break accepts flushes st l)"
  by (auto simp: lw_break_def intro: lw_failed_inv lewis_inv_other dest: send_batch_inv split: prod.split option.split)

lemma lw_flush_inv:
  "events_ok c h E (ls_batch st) l \<Longrightarrow> lewis_config_ok c \<Longrightarrow> res_ok (lewis_inv c h E) (lw_flush accepts flushes next_flush st l)"
  by (auto simp: lw_flush_def lewis_inv_streaming intro: lw_failed_inv dest: send_batch_inv split: prod.split option.split)

lemma stream_select_inv:
  assumes inv: "lewis_inv c h E l" and st: "lw_phase l = LwStreaming st" and ok: "lewis_config_ok c"
  shows "res_ok (lewis_inv c h E) (stream_select at sel accepts flushes st l)"
proof -
  have ev: "events_ok c h E (ls_batch st) l" using inv st by (simp add: lewis_inv_def batch_of_def)
  have cfg: "lw_config l = c" using ev by (simp add: events_ok_def)
  show ?thesis
  proof (cases sel)
    case LwSelRecv
    have "events_ok c h E (ls_batch st @ [event]) (l\<lparr>lw_queue := rest\<rparr>)" if "lw_queue l = event # rest" for event rest
      using ev that by (simp add: events_ok_def)
    then show ?thesis
      using LwSelRecv inv lw_break_inv [OF ev ok]
      by (auto simp: stream_select_def cfg Let_def lewis_inv_streaming intro!: lw_flush_inv ok split: list.split)
  next
    case (LwSelResponse good)
    have "events_ok c h E [] (l\<lparr>lw_lost := lw_lost l @ ls_batch st\<rparr>)"
      using ev subseq_without [of "lw_sent l" "ls_batch st" "lw_queue l" E] by (simp add: events_ok_def)
    then show ?thesis
      using LwSelResponse ev ok
      by (cases good) (auto simp: stream_select_def intro: lw_failed_inv lw_completed_inv dest: send_batch_inv
          split: prod.split option.split)
  qed (use inv lw_break_inv [OF ev ok] lw_flush_inv [OF ev ok] in \<open>auto simp: stream_select_def\<close>)
qed

lemma emit_inv:
  assumes "lewis_inv c h E l"
  shows "lewis_inv c h (E @ [event]) (emit event l)"
proof -
  have "subseq (as @ bs @ cs @ [event]) (E @ [event])" if "subseq (as @ bs @ cs) E" for as bs cs
    using list_emb_append_mono [OF that, of "[event]" "[event]"] by simp
  moreover have "subseq xs E \<Longrightarrow> subseq xs (E @ [event])" for xs
    using list_emb_append_mono [of _ xs E "[]" "[event]"] by auto
  ultimately show ?thesis using assms unfolding lewis_inv_def events_ok_def emit_def by (simp add: batch_of_def)
qed

lemma emit_all_inv: "lewis_inv c h E l \<Longrightarrow> lewis_inv c h (E @ events) (fold emit events l)"
  by (induction events arbitrary: E l) (simp, use emit_inv in fastforce)

lemma emit_fields [simp]:
  "lw_senders_open (emit e l) = lw_senders_open l" "lw_jet_id (emit e l) = lw_jet_id l" "lw_phase (emit e l) = lw_phase l"
  "lw_sent (emit e l) = lw_sent l"
  by (simp_all add: emit_def)

definition handlers_after :: "lewis_step \<Rightarrow> bool \<Rightarrow> bool" where
  "handlers_after x handlers = (case x of LwHandlersDropped \<Rightarrow> False | _ \<Rightarrow> handlers)"

text \<open>The events the handler emits in a step.\<close>

definition new_events :: "lewis_config \<Rightarrow> bool \<Rightarrow> lewis_step \<Rightarrow> event_jet list" where
  "new_events c handlers x =
     (case x of
        LwReport ts r \<Rightarrow>
          if handlers then report_events (case lc_jet_id c of None \<Rightarrow> '''' | Some i \<Rightarrow> i) ts r else []
      | _ \<Rightarrow> [])"

lemma lw_connect_inv:
  assumes "events_ok c h E [] l" and ok: "lewis_config_ok c"
  shows "res_ok (lewis_inv c h E) (lw_connect now connects l)"
proof -
  define l1 where "l1 = (if lw_attempt l = 0 then l\<lparr>lw_backoff := backoff_init (lw_backoff l)\<rparr> else l)"
  have inv: "events_ok c h E [] l1" using assms(1) by (auto simp: l1_def events_ok_def backoff_init_def)
  then show ?thesis
    using lw_failed_inv [OF inv ok] lw_return_inv [OF inv] ok
    by (auto simp: lw_connect_def Let_def l1_def [symmetric] lewis_inv_streaming lewis_config_ok_def events_ok_def)
qed

lemma lw_step_inv:
  assumes inv: "lewis_inv c h E l" and ok: "lewis_config_ok c"
  shows "res_ok (lewis_inv c (handlers_after x h) (E @ new_events c h x)) (lw_step x l)"
proof (cases x)
  case (LwReport ts r)
  then show ?thesis
    using inv emit_all_inv [OF inv]
    by (auto simp: new_events_def handlers_after_def handle_report_def lewis_inv_def events_ok_def)
next
  case (LwIterate now at sel accepts flushes)
  have "res_ok (lewis_inv c h E) (stream_iteration now at sel accepts flushes st l)" if "lw_phase l = LwStreaming st" for st
    using stream_select_inv [OF inv that ok] lw_break_inv [OF _ ok, of h E st l] inv that
    by (auto simp: stream_iteration_def lewis_inv_def batch_of_def split: option.split)
  then show ?thesis using LwIterate inv by (auto simp: new_events_def handlers_after_def split: lewis_phase.split)
next
  case (LwConnect now connects)
  then show ?thesis
    using inv lw_connect_inv [OF _ ok, of h E l]
    by (auto simp: new_events_def handlers_after_def lewis_inv_def batch_of_def split: lewis_phase.split)
next
  case (LwFinalAck ack)
  then show ?thesis
    using inv lw_failed_inv [OF _ ok, of h E l] lw_completed_inv [of c h E l]
    by (auto simp: new_events_def handlers_after_def final_ack_def lewis_inv_def batch_of_def split: lewis_phase.split)
next
  case LwDrain
  have "events_ok c h E [] l \<Longrightarrow> lw_queue l = e # rest \<Longrightarrow>
      events_ok c h E [] (l\<lparr>lw_queue := rest, lw_dropped := lw_dropped l @ [e]\<rparr>)" for e rest
    using subseq_without [of "lw_sent l" "[e]" rest E] by (simp add: events_ok_def)
  then show ?thesis
    using LwDrain inv lw_return_inv [of c h E l "Some MaxReconnectAttemptsExceeded"]
    by (cases "lw_phase l") (auto simp: new_events_def handlers_after_def lewis_inv_def batch_of_def split: list.split)
next
  case LwHandlersDropped
  then show ?thesis using inv by (simp add: new_events_def handlers_after_def lewis_inv_def batch_of_def events_ok_def)
qed (use inv in \<open>auto simp: new_events_def handlers_after_def lewis_inv_def batch_of_def split: lewis_phase.split\<close>)

fun emitted_events :: "lewis_config \<Rightarrow> bool \<Rightarrow> lewis_step list \<Rightarrow> event_jet list" where
  "emitted_events c handlers [] = []"
| "emitted_events c handlers (x # xs) = new_events c handlers x @ emitted_events c (handlers_after x handlers) xs"

lemma lw_run_inv:
  "lewis_inv c h E l \<Longrightarrow> lewis_config_ok c \<Longrightarrow> \<exists>l' h'. lw_run xs l = Inr l' \<and> lewis_inv c h' (E @ emitted_events c h xs) l'"
proof (induction xs arbitrary: E h l)
  case (Cons x xs)
  obtain l1 where "lw_step x l = Inr l1" "lewis_inv c (handlers_after x h) (E @ new_events c h x) l1"
    using res_okD [OF lw_step_inv [OF Cons.prems, of x]] by blast
  then show ?case using Cons.IH [of "handlers_after x h" "E @ new_events c h x" l1] Cons.prems(2) by simp
qed auto

text \<open>
  C24. The Lewis pipeline accounts for every event. With a usable configuration no sequence of reports, connections, errors
  and timeouts makes it panic, and at every moment the events emitted are, with their multiplicities, those the stream
  accepted, those in the batch and the channel, those dropped and those lost with a failed batch or an ended
  client. The events sent and on their way are in the order of emission; channel and batch keep their bounds.
\<close>

theorem lewis_accounts_for_every_event:
  assumes "create_lewis_pipeline (Some c) = Inr (Some l0)" and "lewis_config_ok c"
  shows "\<exists>l. lw_run xs l0 = Inr l \<and>
    mset (emitted_events c True xs) =
      mset (lw_sent l) + mset (batch_of l) + mset (lw_queue l) + mset (lw_dropped l) + mset (lw_lost l) \<and>
    subseq (lw_sent l @ batch_of l @ lw_queue l) (emitted_events c True xs) \<and>
    length (lw_queue l) \<le> lc_event_buffer_size c \<and> length (batch_of l) < max 1 (unat (lc_batch_size_threshold c))"
proof -
  have "lewis_inv c True [] l0"
    using assms by (auto simp: create_lewis_pipeline_def lewis_inv_def events_ok_def batch_of_def backoff_new_def split: if_splits)
  from lw_run_inv [OF this assms(2), of xs] show ?thesis by (auto simp: lewis_inv_def events_ok_def)
qed

section \<open>The tasks of the relay\<close>

text \<open>
  The end of \<open>run_jet\<close>: all tasks are joined in one set. The first that ends, whichever it is and however it ends, cancels the
  token of all others and stops the RPC servers; then the rest has ten seconds. An empty set leaves the deadline.
\<close>

datatype jet_phase = JetServing | JetShuttingDown instant | JetExited

record jet_tasks =
  jt_running :: "string list"
  jt_phase :: jet_phase
  jt_cancelled :: bool
  jt_servers_up :: bool

definition shutdown_duration :: duration where
  "shutdown_duration = 10 * 1000000000"

definition jet_task_finished :: "instant \<Rightarrow> string \<Rightarrow> jet_tasks \<Rightarrow> jet_tasks" where
  "jet_task_finished now name jt =
     (if name \<notin> set (jt_running jt) then jt
      else
        (let rest = remove1 name (jt_running jt)
         in case jt_phase jt of
              JetServing \<Rightarrow>
                jt\<lparr>jt_running := rest, jt_cancelled := True, jt_servers_up := False,
                   jt_phase := JetShuttingDown (now + shutdown_duration)\<rparr>
            | JetShuttingDown deadline \<Rightarrow>
                jt\<lparr>jt_running := rest, jt_phase := (if rest = [] then JetExited else JetShuttingDown deadline)\<rparr>
            | JetExited \<Rightarrow> jt))"

definition jet_shutdown_deadline :: "instant \<Rightarrow> jet_tasks \<Rightarrow> jet_tasks" where
  "jet_shutdown_deadline now jt =
     (case jt_phase jt of
        JetShuttingDown deadline \<Rightarrow> if deadline \<le> now then jt\<lparr>jt_running := [], jt_phase := JetExited\<rparr> else jt
      | _ \<Rightarrow> jt)"

text \<open>The event pipeline and the set of tasks together; the token of the pipeline is cancelled with that of the relay.\<close>

datatype relay_event =
    RelayLewis lewis_step
  | RelayLewisJoined instant
  | RelayTaskFinished instant string
  | RelayDeadline instant

fun relay_step :: "relay_event \<Rightarrow> lewis \<times> jet_tasks \<Rightarrow> (lewis \<times> jet_tasks) res" where
  "relay_step (RelayLewis x) (l, jt) =
     (if x = LwCancel \<and> \<not> jt_cancelled jt then Inr (l, jt) else res_bind (lw_step x l) (\<lambda>l'. Inr (l', jt)))"
| "relay_step (RelayLewisJoined now) (l, jt) =
     Inr (l, case lw_phase l of LwDone _ \<Rightarrow> jet_task_finished now ''lewis_client'' jt | _ \<Rightarrow> jt)"
| "relay_step (RelayTaskFinished now name) (l, jt) =
     Inr (l, if name = ''lewis_client'' then jt else jet_task_finished now name jt)"
| "relay_step (RelayDeadline now) (l, jt) = Inr (l, jet_shutdown_deadline now jt)"

fun relay_run :: "relay_event list \<Rightarrow> lewis \<times> jet_tasks \<Rightarrow> (lewis \<times> jet_tasks) res" where
  "relay_run [] s = Inr s"
| "relay_run (x # xs) s = res_bind (relay_step x s) (relay_run xs)"

lemma send_events_all: "\<forall>i. accepts i \<Longrightarrow> send_events accepts k b = (b, [])"
  by (induction accepts k b rule: send_events.induct) auto

text \<open>
  C4. The time limit of the event stream stops the whole relay. When the limit has passed, the next iteration of the
  stream ends it; with the last batch sent and the service's answer good or overdue, the client regards this as the
  normal end and returns instead of connecting again. Its task is then the first to finish, which cancels all other
  tasks and shuts the RPC servers down.
\<close>

theorem lewis_timeout_stops_relay:
  assumes "lw_phase l = LwStreaming st" and "ls_deadline st = Some deadline" and "deadline \<le> now"
    and "\<forall>i. accepts i" and "ack \<noteq> Some False"
    and "jt_phase jt = JetServing" and "''lewis_client'' \<in> set (jt_running jt)"
  shows "\<exists>l' jt'. relay_run [RelayLewis (LwIterate now at sel accepts True), RelayLewis (LwFinalAck ack), RelayLewisJoined later] (l, jt)
      = Inr (l', jt') \<and> lw_phase l' = LwDone None \<and>
    jt_cancelled jt' \<and> \<not> jt_servers_up jt' \<and> jt_phase jt' = JetShuttingDown (later + shutdown_duration)"
proof -
  have "snd (send_batch accepts True (ls_batch st) l) = None"
    using send_events_all [OF assms(4), of 0 "ls_batch st"] by (simp add: send_batch_def)
  then obtain l1 where "send_batch accepts True (ls_batch st) l = (l1, None)" by (metis prod.collapse)
  then show ?thesis
    using assms
    by (simp add: stream_iteration_def lw_break_def final_ack_def lw_completed_def lw_return_def jet_task_finished_def Let_def
        del: res_bind_eq_Inr)
qed

section \<open>Witnesses\<close>

abbreviation ex_lewis_start :: lewis where
  "ex_lewis_start \<equiv> \<lparr>lw_config = lewis_config_default ''lewis'', lw_jet_id = '''', lw_queue = [], lw_senders_open = True,
     lw_cancelled = False, lw_attempt = 0, lw_backoff = backoff_new 1000000000 30000000000, lw_phase = LwTop, lw_sent = [],
     lw_dropped = [], lw_lost = []\<rparr>"

lemma ex_lewis_created: "create_lewis_pipeline (Some (lewis_config_default ''lewis'')) = Inr (Some ex_lewis_start)"
  by (simp add: create_lewis_pipeline_def lewis_config_default_def)

lemma ex_lewis_config_ok: "lewis_config_ok (lewis_config_default ''lewis'')"
  by (simp add: lewis_config_ok_def lewis_config_default_def duration_max_def)

theorem lewis_accounts_for_every_event_witness:
  "\<exists>l. lw_run [LwConnect 0 True, LwReport 5 (ReportSkip (Signature 1) (Pubkey 2) 7 []),
       LwIterate 1 1 LwSelRecv (\<lambda>_. True) True, LwIterate 2 2 (LwSelResponse False) (\<lambda>_. True) True] ex_lewis_start = Inr l \<and>
     {#skip_event '''' 5 (Signature 1) (Pubkey 2) 7 []#} =
       mset (lw_sent l) + mset (batch_of l) + mset (lw_queue l) + mset (lw_dropped l) + mset (lw_lost l)"
proof -
  let ?xs = "[LwConnect 0 True, LwReport 5 (ReportSkip (Signature 1) (Pubkey 2) 7 []),
       LwIterate 1 1 LwSelRecv (\<lambda>_. True) True, LwIterate 2 2 (LwSelResponse False) (\<lambda>_. True) True]"
  have events: "emitted_events (lewis_config_default ''lewis'') True ?xs = [skip_event '''' 5 (Signature 1) (Pubkey 2) 7 []]"
    by (simp add: new_events_def handlers_after_def report_events_def lewis_config_default_def)
  show ?thesis
    using lewis_accounts_for_every_event [OF ex_lewis_created ex_lewis_config_ok, of ?xs] unfolding events mset.simps by blast
qed

text \<open>With the default configuration the relay stops after five minutes.\<close>

abbreviation ex_stream :: lewis_stream where
  "ex_stream \<equiv> \<lparr>ls_batch = [], ls_next_flush = 0, ls_deadline = Some 300000000000\<rparr>"

abbreviation ex_lewis_streaming :: lewis where
  "ex_lewis_streaming \<equiv> ex_lewis_start\<lparr>lw_backoff := \<lparr>initial_interval = 1000000000, max_interval = 30000000000, retries = Some 0\<rparr>,
     lw_phase := LwStreaming ex_stream\<rparr>"

abbreviation ex_jet_tasks :: jet_tasks where
  "ex_jet_tasks \<equiv> \<lparr>jt_running = [''quic_gateway'', ''lewis_client''], jt_phase = JetServing, jt_cancelled = False,
     jt_servers_up = True\<rparr>"

lemma ex_lewis_connected: "lw_run [LwConnect 0 True] ex_lewis_start = Inr ex_lewis_streaming"
  by (simp add: lw_connect_def lewis_config_default_def backoff_init_def backoff_new_def del: res_bind_eq_Inr)

theorem lewis_timeout_stops_relay_witness:
  "\<exists>l' jt'. relay_run [RelayLewis (LwIterate 300000000000 300000000000 LwSelFlush (\<lambda>_. True) True), RelayLewis (LwFinalAck None),
      RelayLewisJoined 305000000000] (ex_lewis_streaming, ex_jet_tasks) = Inr (l', jt') \<and> jt_cancelled jt' \<and> \<not> jt_servers_up jt'"
proof -
  have "lw_phase ex_lewis_streaming = LwStreaming ex_stream" by simp
  from lewis_timeout_stops_relay [OF this, where now = 300000000000 and accepts = "\<lambda>_. True" and ack = None
      and jt = ex_jet_tasks and at = 300000000000 and sel = LwSelFlush and later = 305000000000]
  show ?thesis by fastforce
qed

end
