(* ===== verification/Jet_Payload.thy ===== *)
theory Jet_Payload
  imports Jet_Scheduler
begin

text \<open>
  How transactions enter the program: \<open>apps/jet/src/payload.rs\<close> (the two wire formats of the gateway
  protocol), \<open>solana.rs\<close> (decoding a transaction of an RPC request), \<open>transaction_handler.rs\<close>
  (\<open>TransactionHandler\<close>), and its callers in \<open>rpc.rs\<close> (\<open>sendTransaction\<close>) and \<open>grpc_jet.rs\<close>
  (\<open>GrpcTransactionHandler\<close>).

  The codecs are code of other crates: bincode, base58, base64, JSON, the printed form of keys and signatures and
  the check \<open>sanitize\<close> of a transaction. They are the fields of the record \<open>codecs\<close>, and \<open>codecs_ok\<close>
  states what is relied on: what is encoded is decoded again, and a sanitized transaction has a
  signature. The channel to the scheduler is the list of the requests sent on it, with a flag that
  tells whether the receiver is alive; sending on a closed channel panics.

  The lemmas: the round trips of both formats, with what each loses; a handler forwards exactly the requests it
  accepts, each with the signature of its transaction and at most 1232 bytes; and the entry points agree.
\<close>

section \<open>Configuration\<close>

datatype ui_transaction_encoding = UiBinary | UiBase64 | UiBase58 | UiJson | UiJsonParsed

datatype transaction_binary_encoding = BinBase58 | BinBase64

record rpc_send_transaction_config =
  skip_preflight :: bool
  preflight_commitment :: "commitment_level option"
  encoding :: "ui_transaction_encoding option"
  max_retries :: "nat option"
  min_context_slot :: "u64 option"

definition rpc_config_default :: rpc_send_transaction_config where
  "rpc_config_default = \<lparr>skip_preflight = False, preflight_commitment = None, encoding = None,
     max_retries = None, min_context_slot = None\<rparr>"

record jet_rpc_config =
  jc_config :: rpc_send_transaction_config
  jc_forwarding_policies :: "pubkey list"

definition jet_rpc_config_default :: jet_rpc_config where
  "jet_rpc_config_default = \<lparr>jc_config = rpc_config_default, jc_forwarding_policies = []\<rparr>"

text \<open>The two payload formats; \<open>max_retries\<close> is a \<open>uint32\<close> in the new one.\<close>

record legacy_payload =
  lp_transaction :: string
  lp_config :: rpc_send_transaction_config
  lp_timestamp :: "u64 option"

record transaction_config =
  tc_skip_preflight :: bool
  tc_max_retries :: "32 word option"
  tc_forwarding_policies :: "string list"

record transaction_wrapper =
  tw_transaction :: bytes
  tw_config :: "transaction_config option"
  tw_timestamp :: "u64 option"

datatype transaction_payload = Legacy legacy_payload | New transaction_wrapper

text \<open>\<open>PublishTransaction\<close> and \<open>SubscribeTransaction\<close> have the same optional payload.\<close>

datatype proto_payload = LegacyPayload bytes | NewPayload transaction_wrapper

type_synonym proto_transaction = "proto_payload option"

datatype payload_error =
    EmptyPayload
  | LegacyDeserialize string
  | Base58Decode string
  | Base64Decode string
  | PayloadUnsupportedEncoding
  | BincodeError string
  | InvalidPubkey string
  | ProtoConversionError string

fun payload_variant_name :: "payload_error \<Rightarrow> string" where
  "payload_variant_name EmptyPayload = ''EmptyPayload''"
| "payload_variant_name (LegacyDeserialize _) = ''LegacyDeserialize''"
| "payload_variant_name (Base58Decode _) = ''Base58Decode''"
| "payload_variant_name (Base64Decode _) = ''Base64Decode''"
| "payload_variant_name PayloadUnsupportedEncoding = ''UnsupportedEncoding''"
| "payload_variant_name (BincodeError _) = ''BincodeError''"
| "payload_variant_name (InvalidPubkey _) = ''InvalidPubkey''"
| "payload_variant_name (ProtoConversionError _) = ''ProtoConversionError''"

section \<open>Codecs of other crates\<close>

record codecs =
  bincode_serialize :: "versioned_transaction \<Rightarrow> string + bytes"
  bincode_deserialize :: "bytes \<Rightarrow> string + versioned_transaction"
  bincode_deserialize_limited :: "bytes \<Rightarrow> string + versioned_transaction"
  bs58_encode :: "bytes \<Rightarrow> string"
  bs58_decode :: "string \<Rightarrow> string + bytes"
  base64_encode :: "bytes \<Rightarrow> string"
  base64_decode :: "string \<Rightarrow> string + bytes"
  json_to_vec :: "legacy_payload \<Rightarrow> string + bytes"
  json_from_slice :: "bytes \<Rightarrow> string + legacy_payload"
  pubkey_from_str :: "string \<Rightarrow> pubkey option"
  pubkey_to_string :: "pubkey \<Rightarrow> string"
  signature_to_string :: "signature \<Rightarrow> string"
  sanitize :: "versioned_transaction \<Rightarrow> string option"
  into_binary_encoding :: "ui_transaction_encoding \<Rightarrow> transaction_binary_encoding option"

definition codecs_ok :: "codecs \<Rightarrow> bool" where
  "codecs_ok c \<longleftrightarrow>
     (\<forall>tx bs. bincode_serialize c tx = Inr bs \<longrightarrow> bincode_deserialize c bs = Inr tx) \<and>
     (\<forall>bs. bs58_decode c (bs58_encode c bs) = Inr bs) \<and>
     (\<forall>bs. base64_decode c (base64_encode c bs) = Inr bs) \<and>
     (\<forall>p bs. json_to_vec c p = Inr bs \<longrightarrow> json_from_slice c bs = Inr p) \<and>
     (\<forall>k. pubkey_from_str c (pubkey_to_string c k) = Some k) \<and>
     (\<forall>tx. sanitize c tx = None \<longrightarrow> vt_signatures tx \<noteq> [])"

text \<open>\<open>map_err\<close> and the operator \<open>?\<close> on results.\<close>

definition map_err :: "('e \<Rightarrow> 'f) \<Rightarrow> 'e + 'a \<Rightarrow> 'f + 'a" where
  "map_err f r = (case r of Inl e \<Rightarrow> Inl (f e) | Inr a \<Rightarrow> Inr a)"

definition try_bind :: "'e + 'a \<Rightarrow> ('a \<Rightarrow> 'e + 'b) \<Rightarrow> 'e + 'b" where
  "try_bind r f = (case r of Inl e \<Rightarrow> Inl e | Inr a \<Rightarrow> f a)"

definition unwrap_or :: "'a \<Rightarrow> 'a option \<Rightarrow> 'a" where
  "unwrap_or d x = (case x of None \<Rightarrow> d | Some a \<Rightarrow> a)"

lemma map_err_simps [simp]: "map_err f (Inl e) = Inl (f e)" "map_err f (Inr a) = Inr a"
  by (simp_all add: map_err_def)

lemma try_bind_simps [simp]: "try_bind (Inl e) f = Inl e" "try_bind (Inr a) f = f a"
  by (simp_all add: try_bind_def)

lemma unwrap_or_simps [simp]: "unwrap_or d None = d" "unwrap_or d (Some a) = a"
  by (simp_all add: unwrap_or_def)

lemma map_err_Inr_iff [simp]: "map_err f r = Inr a \<longleftrightarrow> r = Inr a"
  by (cases r) simp_all

lemma try_bind_Inr_iff [simp]: "try_bind r f = Inr b \<longleftrightarrow> (\<exists>a. r = Inr a \<and> f a = Inr b)"
  by (cases r) simp_all

section \<open>Building and reading payloads\<close>

definition jet_rpc_config_new ::
  "codecs \<Rightarrow> rpc_send_transaction_config option \<Rightarrow> string list option \<Rightarrow> jet_rpc_config" where
  "jet_rpc_config_new c config forwarding_policies =
     \<lparr>jc_config = unwrap_or rpc_config_default config,
      jc_forwarding_policies = List.map_filter (pubkey_from_str c) (unwrap_or [] forwarding_policies)\<rparr>"

definition deserialize_forwarding_policies :: "codecs \<Rightarrow> string list \<Rightarrow> pubkey list" where
  "deserialize_forwarding_policies c vec = List.map_filter (pubkey_from_str c) vec"

definition encode_transaction ::
  "codecs \<Rightarrow> versioned_transaction \<Rightarrow> ui_transaction_encoding \<Rightarrow> payload_error + string" where
  "encode_transaction c tx enc =
     try_bind (map_err BincodeError (bincode_serialize c tx)) (\<lambda>tx_bytes.
       case enc of
         UiBase58 \<Rightarrow> Inr (bs58_encode c tx_bytes)
       | UiBase64 \<Rightarrow> Inr (base64_encode c tx_bytes)
       | _ \<Rightarrow> Inl PayloadUnsupportedEncoding)"

definition decode_transaction :: "codecs \<Rightarrow> string \<Rightarrow> ui_transaction_encoding \<Rightarrow> payload_error + bytes" where
  "decode_transaction c tx_string enc =
     (case enc of
        UiBase58 \<Rightarrow> map_err Base58Decode (bs58_decode c tx_string)
      | UiBase64 \<Rightarrow> map_err Base64Decode (base64_decode c tx_string)
      | _ \<Rightarrow> Inl PayloadUnsupportedEncoding)"

definition to_legacy ::
  "codecs \<Rightarrow> u64 \<Rightarrow> versioned_transaction \<Rightarrow> jet_rpc_config \<Rightarrow> payload_error + transaction_payload" where
  "to_legacy c now transaction config =
     (let enc = unwrap_or UiBase58 (encoding (jc_config config))
      in if enc \<notin> {UiBase64, UiBase58} then Inl PayloadUnsupportedEncoding
         else try_bind (encode_transaction c transaction enc) (\<lambda>tx_str.
           Inr (Legacy \<lparr>lp_transaction = tx_str, lp_config = jc_config config, lp_timestamp = Some now\<rparr>)))"

text \<open>\<open>TryFrom<(&VersionedTransaction, JetRpcSendTransactionConfig)>\<close>; the cast to \<open>u32\<close> truncates.\<close>

definition to_new ::
  "codecs \<Rightarrow> u64 \<Rightarrow> versioned_transaction \<Rightarrow> jet_rpc_config \<Rightarrow> payload_error + transaction_payload" where
  "to_new c now transaction config =
     try_bind (case encoding (jc_config config) of
        Some enc \<Rightarrow> if enc \<notin> {UiBase58, UiBase64} then Inl PayloadUnsupportedEncoding else Inr ()
      | None \<Rightarrow> Inr ()) (\<lambda>_.
     try_bind (map_err BincodeError (bincode_serialize c transaction)) (\<lambda>tx_bytes.
       Inr (New \<lparr>tw_transaction = tx_bytes,
         tw_config = Some \<lparr>tc_skip_preflight = skip_preflight (jc_config config),
           tc_max_retries = map_option of_nat (max_retries (jc_config config)),
           tc_forwarding_policies = map (pubkey_to_string c) (jc_forwarding_policies config)\<rparr>,
         tw_timestamp = Some now\<rparr>)))"

definition payload_create ::
  "codecs \<Rightarrow> u64 \<Rightarrow> versioned_transaction \<Rightarrow> jet_rpc_config \<Rightarrow> bool \<Rightarrow> payload_error + transaction_payload" where
  "payload_create c now transaction config use_legacy =
     (if use_legacy then to_legacy c now transaction config else to_new c now transaction config)"

text \<open>\<open>to_proto\<close> with the conversions from a wrapper and from bytes, and \<open>TryFrom<SubscribeTransaction>\<close>.\<close>

definition to_proto :: "codecs \<Rightarrow> transaction_payload \<Rightarrow> payload_error + proto_transaction" where
  "to_proto c payload =
     (case payload of
        Legacy legacy \<Rightarrow>
          (case json_to_vec c legacy of
             Inr bytes \<Rightarrow> Inr (Some (LegacyPayload bytes))
           | Inl err \<Rightarrow> Inl (LegacyDeserialize err))
      | New wrapper \<Rightarrow> Inr (Some (NewPayload wrapper)))"

definition payload_from_proto :: "codecs \<Rightarrow> proto_transaction \<Rightarrow> payload_error + transaction_payload" where
  "payload_from_proto c tx =
     (case tx of
        Some (LegacyPayload bytes) \<Rightarrow> try_bind (map_err LegacyDeserialize (json_from_slice c bytes)) (\<lambda>legacy. Inr (Legacy legacy))
      | Some (NewPayload wrapper) \<Rightarrow> Inr (New wrapper)
      | None \<Rightarrow> Inl EmptyPayload)"

text \<open>\<open>TryFrom<&TransactionConfig>\<close> never fails; the other fields of the configuration are reset.\<close>

definition config_from_proto :: "codecs \<Rightarrow> transaction_config \<Rightarrow> jet_rpc_config" where
  "config_from_proto c proto_config =
     jet_rpc_config_new c
       (Some \<lparr>skip_preflight = tc_skip_preflight proto_config, preflight_commitment = None, encoding = None,
              max_retries = map_option unat (tc_max_retries proto_config), min_context_slot = None\<rparr>)
       (Some (tc_forwarding_policies proto_config))"

definition payload_decode ::
  "codecs \<Rightarrow> transaction_payload \<Rightarrow> payload_error + (versioned_transaction \<times> jet_rpc_config option)" where
  "payload_decode c payload =
     (case payload of
        Legacy legacy \<Rightarrow>
          (let enc = unwrap_or UiBase58 (encoding (lp_config legacy))
           in try_bind (decode_transaction c (lp_transaction legacy) enc) (\<lambda>tx_bytes.
              try_bind (map_err BincodeError (bincode_deserialize c tx_bytes)) (\<lambda>tx.
                Inr (tx, Some (jet_rpc_config_new c (Some (lp_config legacy)) None)))))
      | New wrapper \<Rightarrow>
          try_bind (map_err BincodeError (bincode_deserialize c (tw_transaction wrapper))) (\<lambda>tx.
            Inr (tx, map_option (config_from_proto c) (tw_config wrapper))))"

section \<open>Decoding the transaction of an RPC request\<close>

definition packet_data_size :: nat where
  "packet_data_size = 1232"

definition max_base58_size :: nat where
  "max_base58_size = 1683"

definition max_base64_size :: nat where
  "max_base64_size = 1644"

datatype decode_error =
    Base58SizeExceeded nat
  | InvalidBase58 string
  | Base64SizeExceeded nat
  | InvalidBase64 string
  | DecodedSizeExceeded nat
  | DeserializeFailed string

definition decode_and_deserialize ::
  "codecs \<Rightarrow> string \<Rightarrow> transaction_binary_encoding \<Rightarrow> decode_error + (bytes \<times> versioned_transaction)" where
  "decode_and_deserialize c encoded enc =
     try_bind
       (case enc of
          BinBase58 \<Rightarrow>
            if length encoded > max_base58_size then Inl (Base58SizeExceeded (length encoded))
            else map_err InvalidBase58 (bs58_decode c encoded)
        | BinBase64 \<Rightarrow>
            if length encoded > max_base64_size then Inl (Base64SizeExceeded (length encoded))
            else map_err InvalidBase64 (base64_decode c encoded))
       (\<lambda>wire_output.
          if length wire_output > packet_data_size then Inl (DecodedSizeExceeded (length wire_output))
          else try_bind (map_err DeserializeFailed (bincode_deserialize_limited c wire_output))
                 (\<lambda>output. Inr (wire_output, output)))"

section \<open>The transaction handler\<close>

text \<open>The messages of the errors are kept as the data they print.\<close>

datatype invalid_reason = SanitizeFailed string | SizeExceeds nat

datatype params_reason = DecodeFailed decode_error | RawDeserializeFailed string

datatype handler_error =
    InvalidTransaction invalid_reason
  | SerializationFailed string
  | PreflightNotSupported
  | InvalidParams params_reason
  | UnsupportedEncoding

fun handler_variant_name :: "handler_error \<Rightarrow> string" where
  "handler_variant_name (InvalidTransaction _) = ''InvalidTransaction''"
| "handler_variant_name (SerializationFailed _) = ''SerializationFailed''"
| "handler_variant_name PreflightNotSupported = ''PreflightNotSupported''"
| "handler_variant_name (InvalidParams _) = ''InvalidParams''"
| "handler_variant_name UnsupportedEncoding = ''UnsupportedEncoding''"

record tx_handler =
  th_sink :: "send_transaction_request list"
  th_sink_open :: bool

definition sanitize_check :: "codecs \<Rightarrow> versioned_transaction \<Rightarrow> handler_error + unit" where
  "sanitize_check c tx = (case sanitize c tx of Some e \<Rightarrow> Inl (InvalidTransaction (SanitizeFailed e)) | None \<Rightarrow> Inr ())"

text \<open>
  The end of every handler: \<open>signatures[0]\<close> panics on a transaction without signatures, the send panics on a
  closed channel, and otherwise the signature is returned in its printed form.
\<close>

definition forward ::
  "codecs \<Rightarrow> versioned_transaction \<Rightarrow> bytes \<Rightarrow> jet_rpc_config \<Rightarrow> tx_handler \<Rightarrow> (tx_handler \<times> (handler_error + string)) res" where
  "forward c transaction wire_transaction config h =
     (case vt_signatures transaction of
        [] \<Rightarrow> Inl (Panic ''index out of bounds'')
      | signature # _ \<Rightarrow>
          if \<not> th_sink_open h then Inl (Panic ''transaction sink closed'')
          else Inr (h\<lparr>th_sink := th_sink h @
                  [\<lparr>str_signature = signature, str_transaction = transaction, str_wire_transaction = wire_transaction,
                    str_max_retries = max_retries (jc_config config), str_policies = jc_forwarding_policies config\<rparr>]\<rparr>,
                Inr (signature_to_string c signature)))"

text \<open>A check that fails ends the handler with its error and no request.\<close>

definition checked ::
  "handler_error + 'a \<Rightarrow> tx_handler \<Rightarrow> ('a \<Rightarrow> (tx_handler \<times> (handler_error + string)) res)
     \<Rightarrow> (tx_handler \<times> (handler_error + string)) res" where
  "checked r h f = (case r of Inl e \<Rightarrow> Inr (h, Inl e) | Inr a \<Rightarrow> f a)"

definition handle_versioned_transaction ::
  "codecs \<Rightarrow> versioned_transaction \<Rightarrow> jet_rpc_config \<Rightarrow> tx_handler \<Rightarrow> (tx_handler \<times> (handler_error + string)) res" where
  "handle_versioned_transaction c transaction config h =
     checked
       (if \<not> skip_preflight (jc_config config) then Inl PreflightNotSupported
        else try_bind (sanitize_check c transaction) (\<lambda>_.
             try_bind (map_err SerializationFailed (bincode_serialize c transaction)) (\<lambda>wire_transaction.
             if length wire_transaction > packet_data_size then Inl (InvalidTransaction (SizeExceeds (length wire_transaction)))
             else Inr wire_transaction)))
       h (\<lambda>wire_transaction. forward c transaction wire_transaction config h)"

definition handle_raw_transaction ::
  "codecs \<Rightarrow> bytes \<Rightarrow> jet_rpc_config \<Rightarrow> tx_handler \<Rightarrow> (tx_handler \<times> (handler_error + string)) res" where
  "handle_raw_transaction c wire_transaction config h =
     checked
       (if length wire_transaction > packet_data_size then Inl (InvalidTransaction (SizeExceeds (length wire_transaction)))
        else try_bind (map_err (\<lambda>e. InvalidParams (RawDeserializeFailed e)) (bincode_deserialize c wire_transaction)) (\<lambda>transaction.
             try_bind (sanitize_check c transaction) (\<lambda>_. Inr transaction)))
       h (\<lambda>transaction. forward c transaction wire_transaction config h)"

definition prepare_transaction ::
  "codecs \<Rightarrow> string \<Rightarrow> rpc_send_transaction_config \<Rightarrow> handler_error + (bytes \<times> versioned_transaction)" where
  "prepare_transaction c data config =
     try_bind (case into_binary_encoding c (unwrap_or UiBase58 (encoding config)) of
                 None \<Rightarrow> Inl UnsupportedEncoding | Some enc \<Rightarrow> Inr enc) (\<lambda>enc.
     try_bind (map_err (\<lambda>e. InvalidParams (DecodeFailed e)) (decode_and_deserialize c data enc)) (\<lambda>(wire_transaction, transaction).
       if \<not> skip_preflight config then Inl PreflightNotSupported
       else try_bind (sanitize_check c transaction) (\<lambda>_. Inr (wire_transaction, transaction))))"

definition handle_transaction ::
  "codecs \<Rightarrow> string \<Rightarrow> jet_rpc_config option \<Rightarrow> tx_handler \<Rightarrow> (tx_handler \<times> (handler_error + string)) res" where
  "handle_transaction c data config_opt h =
     (let config = unwrap_or jet_rpc_config_default config_opt
      in checked (prepare_transaction c data (jc_config config)) h
           (\<lambda>(wire_transaction, transaction). forward c transaction wire_transaction config h))"

section \<open>The callers: JSON RPC and the gateway stream\<close>

datatype rpc_error = RpcUnsupportedEncoding | RpcInvalidParams decode_error | RpcInternal handler_error

definition handle_internal_transaction ::
  "codecs \<Rightarrow> versioned_transaction \<Rightarrow> jet_rpc_config \<Rightarrow> tx_handler \<Rightarrow> (tx_handler \<times> (rpc_error + string)) res" where
  "handle_internal_transaction c transaction config h =
     res_bind (handle_versioned_transaction c transaction config h) (\<lambda>(h', r). Inr (h', map_err RpcInternal r))"

definition send_transaction ::
  "codecs \<Rightarrow> string \<Rightarrow> jet_rpc_config option \<Rightarrow> tx_handler \<Rightarrow> (tx_handler \<times> (rpc_error + string)) res" where
  "send_transaction c data config_opt h =
     (let config = unwrap_or jet_rpc_config_default config_opt
      in case try_bind (case into_binary_encoding c (unwrap_or UiBase58 (encoding (jc_config config))) of
                          None \<Rightarrow> Inl RpcUnsupportedEncoding | Some enc \<Rightarrow> Inr enc)
                (\<lambda>enc. map_err RpcInvalidParams (decode_and_deserialize c data enc)) of
           Inl e \<Rightarrow> Inr (h, Inl e)
         | Inr (_, transaction) \<Rightarrow> handle_internal_transaction c transaction config h)"

datatype grpc_handler_error = PayloadParseError payload_error | DecodeError payload_error | SendError rpc_error

definition grpc_handle_transaction ::
  "codecs \<Rightarrow> proto_transaction \<Rightarrow> tx_handler \<Rightarrow> (tx_handler \<times> (grpc_handler_error + unit)) res" where
  "grpc_handle_transaction c tx h =
     (case try_bind (map_err PayloadParseError (payload_from_proto c tx))
             (\<lambda>payload. map_err DecodeError (payload_decode c payload)) of
        Inl e \<Rightarrow> Inr (h, Inl e)
      | Inr (transaction, config_option) \<Rightarrow>
          res_bind (handle_internal_transaction c transaction (unwrap_or jet_rpc_config_default config_option) h)
            (\<lambda>(h', r). Inr (h', map_err SendError (map_sum (\<lambda>e. e) (\<lambda>_. ()) r))))"

section \<open>Round trips\<close>

lemma codecs_okD:
  assumes "codecs_ok c"
  shows "bincode_serialize c tx = Inr bs \<Longrightarrow> bincode_deserialize c bs = Inr tx"
    and "bs58_decode c (bs58_encode c bs) = Inr bs" and "base64_decode c (base64_encode c bs) = Inr bs"
    and "json_to_vec c p = Inr bs \<Longrightarrow> json_from_slice c bs = Inr p"
    and "pubkey_from_str c (pubkey_to_string c k) = Some k"
    and "sanitize c tx = None \<Longrightarrow> vt_signatures tx \<noteq> []"
  using assms unfolding codecs_ok_def by blast+

lemma map_filter_printed_keys:
  "codecs_ok c \<Longrightarrow> List.map_filter (pubkey_from_str c) (map (pubkey_to_string c) ks) = ks"
  by (induction ks) (simp_all add: List.map_filter_simps codecs_okD(5))

lemma decode_encode_transaction:
  assumes "codecs_ok c" and "encode_transaction c tx enc = Inr str"
  shows "try_bind (decode_transaction c str enc) (\<lambda>bs. map_err BincodeError (bincode_deserialize c bs)) = Inr tx"
  using assms
  by (cases enc) (auto simp: encode_transaction_def decode_transaction_def codecs_okD)

lemma decode_new:
  assumes "codecs_ok c" and "to_new c now tx config = Inr p"
  shows "\<exists>w. p = New w \<and> payload_decode c p = Inr (tx, Some
    \<lparr>jc_config = \<lparr>skip_preflight = skip_preflight (jc_config config), preflight_commitment = None, encoding = None,
       max_retries = map_option (\<lambda>n. n mod 2 ^ 32) (max_retries (jc_config config)), min_context_slot = None\<rparr>,
     jc_forwarding_policies = jc_forwarding_policies config\<rparr>)"
  using assms
  by (auto simp: to_new_def payload_decode_def codecs_okD(1) config_from_proto_def jet_rpc_config_new_def
      map_filter_printed_keys option.map_comp comp_def unat_of_nat take_bit_eq_mod)

lemma decode_legacy:
  assumes "codecs_ok c" and "to_legacy c now tx config = Inr p"
  shows "\<exists>l. p = Legacy l \<and> payload_decode c p = Inr (tx, Some \<lparr>jc_config = jc_config config, jc_forwarding_policies = []\<rparr>)"
proof -
  let ?enc = "unwrap_or UiBase58 (encoding (jc_config config))"
  obtain str where str: "encode_transaction c tx ?enc = Inr str"
    and p: "p = Legacy \<lparr>lp_transaction = str, lp_config = jc_config config, lp_timestamp = Some now\<rparr>"
    using assms(2) by (auto simp: to_legacy_def Let_def split: if_splits)
  from decode_encode_transaction [OF assms(1) str] show ?thesis
    by (auto simp: p payload_decode_def jet_rpc_config_new_def List.map_filter_simps)
qed

text \<open>
  C21. A transaction that is packed in either format, sent as a protocol message and read by the receiver arrives
  unchanged. The new format keeps the preflight flag and the forwarding policies, drops encoding, commitment
  and context slot, and reduces the number of retries modulo \<open>2 ^ 32\<close>; the legacy format keeps the whole
  configuration but drops the forwarding policies.
\<close>

theorem payload_round_trip:
  assumes "codecs_ok c" and "payload_create c now tx config use_legacy = Inr p" and "to_proto c p = Inr msg"
  shows "try_bind (payload_from_proto c msg) (payload_decode c) = Inr (tx, Some
    (if use_legacy then \<lparr>jc_config = jc_config config, jc_forwarding_policies = []\<rparr>
     else \<lparr>jc_config = \<lparr>skip_preflight = skip_preflight (jc_config config), preflight_commitment = None, encoding = None,
             max_retries = map_option (\<lambda>n. n mod 2 ^ 32) (max_retries (jc_config config)), min_context_slot = None\<rparr>,
           jc_forwarding_policies = jc_forwarding_policies config\<rparr>))"
proof (cases use_legacy)
  case True
  with assms(2) have "to_legacy c now tx config = Inr p" by (simp add: payload_create_def)
  from decode_legacy [OF assms(1) this] obtain l where p: "p = Legacy l"
    and dec: "payload_decode c p = Inr (tx, Some \<lparr>jc_config = jc_config config, jc_forwarding_policies = []\<rparr>)" by blast
  have "payload_from_proto c msg = Inr p"
    using assms(3) p by (auto simp: to_proto_def payload_from_proto_def codecs_okD(4) [OF assms(1)] split: sum.splits)
  then show ?thesis using dec True by simp
next
  case False
  with assms(2) have "to_new c now tx config = Inr p" by (simp add: payload_create_def)
  from decode_new [OF assms(1) this] obtain w where p: "p = New w"
    and dec: "payload_decode c p = Inr (tx, Some
      \<lparr>jc_config = \<lparr>skip_preflight = skip_preflight (jc_config config), preflight_commitment = None, encoding = None,
         max_retries = map_option (\<lambda>n. n mod 2 ^ 32) (max_retries (jc_config config)), min_context_slot = None\<rparr>,
       jc_forwarding_policies = jc_forwarding_policies config\<rparr>)" by blast
  have "payload_from_proto c msg = Inr p"
    using assms(3) p by (auto simp: to_proto_def payload_from_proto_def)
  then show ?thesis using dec False by simp
qed

section \<open>What the handlers forward\<close>

text \<open>The outcome a handler promises: a request for an accepted transaction, nothing otherwise.\<close>

definition handled ::
  "codecs \<Rightarrow> jet_rpc_config \<Rightarrow> tx_handler \<Rightarrow> (tx_handler \<times> ('e + string)) res \<Rightarrow> bool" where
  "handled c config h out \<longleftrightarrow>
     (case out of
        Inl _ \<Rightarrow> False
      | Inr (h', Inl _) \<Rightarrow> h' = h
      | Inr (h', Inr text) \<Rightarrow>
          (case drop (length (th_sink h)) (th_sink h') of
             [req] \<Rightarrow>
               th_sink h' = th_sink h @ [req] \<and> vt_signatures (str_transaction req) \<noteq> [] \<and>
               str_signature req = hd (vt_signatures (str_transaction req)) \<and>
               text = signature_to_string c (str_signature req) \<and> sanitize c (str_transaction req) = None \<and>
               length (str_wire_transaction req) \<le> 1232 \<and> str_max_retries req = max_retries (jc_config config) \<and>
               str_policies req = jc_forwarding_policies config
           | _ \<Rightarrow> False))"

lemma forward_handled:
  assumes "codecs_ok c" and "th_sink_open h" and "sanitize c tx = None" and "length wire \<le> packet_data_size"
  shows "handled c config h (forward c tx wire config h)"
  using assms codecs_okD(6) [OF assms(1,3)]
  by (cases "vt_signatures tx") (simp_all add: forward_def handled_def packet_data_size_def)

lemma checked_handled:
  assumes "\<And>a. r = Inr a \<Longrightarrow> handled c config h (f a)"
  shows "handled c config h (checked r h f)"
  using assms by (cases r) (simp_all add: checked_def handled_def)

lemma sanitize_check_Inr [simp]: "sanitize_check c tx = Inr u \<longleftrightarrow> sanitize c tx = None"
  by (simp add: sanitize_check_def split: option.split)

lemma decode_and_deserialize_size:
  "decode_and_deserialize c data enc = Inr (wire, tx) \<Longrightarrow> length wire \<le> packet_data_size"
  by (auto simp: decode_and_deserialize_def split: if_splits)

lemma handlers_handled:
  assumes "codecs_ok c" and "th_sink_open h"
  shows "handled c config h (handle_versioned_transaction c tx config h)"
    and "handled c config h (handle_raw_transaction c wire config h)"
    and "handled c config h (handle_transaction c data (Some config) h)"
proof -
  show "handled c config h (handle_versioned_transaction c tx config h)"
    unfolding handle_versioned_transaction_def
    by (intro checked_handled forward_handled [OF assms]) (auto split: if_splits)
  show "handled c config h (handle_raw_transaction c wire config h)"
    unfolding handle_raw_transaction_def
    by (intro checked_handled forward_handled [OF assms]) (auto split: if_splits)
  show "handled c config h (handle_transaction c data (Some config) h)"
    unfolding handle_transaction_def Let_def unwrap_or_simps
  proof (intro checked_handled)
    fix a assume "prepare_transaction c data (jc_config config) = Inr a"
    then obtain wire tx where "a = (wire, tx)" "sanitize c tx = None" "length wire \<le> packet_data_size"
      by (auto simp: prepare_transaction_def split: if_splits option.splits dest: decode_and_deserialize_size)
    then show "handled c config h (case a of (wire, tx) \<Rightarrow> forward c tx wire config h)"
      by (simp add: forward_handled [OF assms])
  qed
qed

text \<open>
  C22. Each of the three entry points of the handler, over an open channel, returns without a panic. If it
  returns an error, no request was sent. If it returns a text, exactly one request was sent: for a
  sanitized transaction, under its first signature, whose printed form is the text; with at most 1232
  wire bytes, and with the retries and policies of the caller's configuration.
\<close>

theorem handlers_forward_exactly_accepted:
  assumes "codecs_ok c" and "th_sink_open h"
  shows "handled c config h (handle_versioned_transaction c tx config h) \<and>
    handled c config h (handle_raw_transaction c wire config h) \<and>
    handled c config h (handle_transaction c data (Some config) h)"
  using handlers_handled [OF assms] by blast

text \<open>The channel and the reply, without telling errors apart.\<close>

definition outcome :: "(tx_handler \<times> ('e + 'a)) res \<Rightarrow> (tx_handler \<times> 'a option) res" where
  "outcome r = res_bind r (\<lambda>(h, x). Inr (h, case x of Inl _ \<Rightarrow> None | Inr a \<Rightarrow> Some a))"

lemma outcome_simps [simp]:
  "outcome (Inl p) = Inl p" "outcome (Inr (h, Inl e)) = Inr (h, None)" "outcome (Inr (h, Inr a)) = Inr (h, Some a)"
  by (simp_all add: outcome_def)

lemma outcome_internal: "outcome (handle_internal_transaction c tx config h) = outcome (handle_versioned_transaction c tx config h)"
  by (auto simp: handle_internal_transaction_def outcome_def res_bind_def map_err_def split: sum.split)

lemma outcome_checked:
  "outcome (checked r h f) = (case r of Inl e \<Rightarrow> Inr (h, None) | Inr a \<Rightarrow> outcome (f a))"
  by (cases r) (simp_all add: checked_def)

text \<open>
  The same transaction has the same fate whichever way it comes in, if its wire bytes are what the
  serializer produces: \<open>sendTransaction\<close> of the RPC server, the text handler of the HTTP interface, the raw
  handler and a message of the gateway stream leave the same channel and give the same reply, with the
  same configuration that skips preflight. Without that flag all but the raw handler refuse it.
\<close>

theorem entry_points_agree:
  assumes "codecs_ok c" and "into_binary_encoding c (unwrap_or UiBase58 (encoding (jc_config config))) = Some enc"
    and "decode_and_deserialize c data enc = Inr (wire, tx)" and "bincode_serialize c tx = Inr wire"
    and "config_from_proto c pc = config" and "tw_transaction w = wire" and "tw_config w = Some pc"
  shows "outcome (send_transaction c data (Some config) h) = outcome (handle_versioned_transaction c tx config h) \<and>
    outcome (handle_transaction c data (Some config) h) = outcome (handle_versioned_transaction c tx config h) \<and>
    (skip_preflight (jc_config config) \<longrightarrow>
       outcome (handle_raw_transaction c wire config h) = outcome (handle_versioned_transaction c tx config h)) \<and>
    map_sum (\<lambda>p. p) (map_prod (\<lambda>h. h) (map_option (\<lambda>_. ()))) (outcome (handle_versioned_transaction c tx config h)) =
      outcome (grpc_handle_transaction c (Some (NewPayload w)) h) \<and>
    (\<not> skip_preflight (jc_config config) \<longrightarrow>
       outcome (handle_versioned_transaction c tx config h) = Inr (h, None))"
proof (intro conjI impI)
  have size: "length wire \<le> packet_data_size" by (rule decode_and_deserialize_size [OF assms(3)])
  show "outcome (send_transaction c data (Some config) h) = outcome (handle_versioned_transaction c tx config h)"
    by (simp add: send_transaction_def assms(2,3) outcome_internal)
  show "outcome (handle_transaction c data (Some config) h) = outcome (handle_versioned_transaction c tx config h)"
    using size assms(2-4)
    by (auto simp: handle_transaction_def handle_versioned_transaction_def prepare_transaction_def outcome_checked
        sanitize_check_def split: option.split)
  show "outcome (handle_raw_transaction c wire config h) = outcome (handle_versioned_transaction c tx config h)"
    if "skip_preflight (jc_config config)"
    using that size assms(4) codecs_okD(1) [OF assms(1,4)]
    by (auto simp: handle_raw_transaction_def handle_versioned_transaction_def outcome_checked sanitize_check_def
        split: option.split)
  show "outcome (handle_versioned_transaction c tx config h) = Inr (h, None)" if "\<not> skip_preflight (jc_config config)"
    using that by (simp add: handle_versioned_transaction_def outcome_checked)
  have dec: "payload_decode c (New w) = Inr (tx, Some config)"
    using assms(5-7) codecs_okD(1) [OF assms(1,4)] by (simp add: payload_decode_def)
  show "map_sum (\<lambda>p. p) (map_prod (\<lambda>h. h) (map_option (\<lambda>_. ()))) (outcome (handle_versioned_transaction c tx config h)) =
      outcome (grpc_handle_transaction c (Some (NewPayload w)) h)"
    by (cases "handle_versioned_transaction c tx config h")
      (auto simp: grpc_handle_transaction_def payload_from_proto_def dec handle_internal_transaction_def map_err_def
        outcome_def split: sum.split)
qed

text \<open>Codecs for the witnesses: one transaction, and byte strings written as text one character per byte.\<close>

definition ex_tx :: versioned_transaction where
  "ex_tx = \<lparr>vt_signatures = [Signature 7], vt_recent_blockhash = Hash 1\<rparr>"

definition ex_legacy :: legacy_payload where
  "ex_legacy = \<lparr>lp_transaction = ''AB'', lp_config = rpc_config_default, lp_timestamp = Some 5\<rparr>"

definition ex_codecs :: codecs where
  "ex_codecs =
     \<lparr>bincode_serialize = (\<lambda>tx. if tx = ex_tx then Inr [65, 66] else Inl ''unknown''),
      bincode_deserialize = (\<lambda>bs. if bs = [65, 66] then Inr ex_tx else Inl ''unknown''),
      bincode_deserialize_limited = (\<lambda>bs. if bs = [65, 66] then Inr ex_tx else Inl ''unknown''),
      bs58_encode = map (\<lambda>b. char_of (unat b)), bs58_decode = (\<lambda>s. Inr (map (\<lambda>ch. of_nat (of_char ch)) s)),
      base64_encode = map (\<lambda>b. char_of (unat b)), base64_decode = (\<lambda>s. Inr (map (\<lambda>ch. of_nat (of_char ch)) s)),
      json_to_vec = (\<lambda>p. if p = ex_legacy then Inr [123] else Inl ''unknown''),
      json_from_slice = (\<lambda>bs. if bs = [123] then Inr ex_legacy else Inl ''unknown''),
      pubkey_from_str = (\<lambda>s. Some (Pubkey (length s))), pubkey_to_string = (\<lambda>k. case k of Pubkey n \<Rightarrow> replicate n (CHR ''k'')),
      signature_to_string = (\<lambda>s. case s of Signature n \<Rightarrow> replicate n (CHR ''s'')),
      sanitize = (\<lambda>tx. if vt_signatures tx = [] then Some ''no signature'' else None),
      into_binary_encoding = (\<lambda>e. case e of UiBase58 \<Rightarrow> Some BinBase58 | UiBase64 \<Rightarrow> Some BinBase64 | _ \<Rightarrow> None)\<rparr>"

lemma of_nat_unat_byte: "(of_nat (unat (b :: 8 word) mod 256) :: 8 word) = b"
proof -
  have "unat b < 2 ^ LENGTH(8)" by (rule unsigned_less)
  then show ?thesis by simp
qed

lemma ex_codecs_ok: "codecs_ok ex_codecs"
  by (auto simp: codecs_ok_def ex_codecs_def comp_def of_nat_unat_byte split: if_splits pubkey.split)

definition ex_config :: jet_rpc_config where
  "ex_config = \<lparr>jc_config = rpc_config_default\<lparr>skip_preflight := True, max_retries := Some 4294967299\<rparr>,
     jc_forwarding_policies = [Pubkey 2]\<rparr>"

theorem payload_round_trip_witness:
  "codecs_ok ex_codecs \<and>
   (\<exists>p msg. payload_create ex_codecs 5 ex_tx ex_config False = Inr p \<and> to_proto ex_codecs p = Inr msg \<and>
      try_bind (payload_from_proto ex_codecs msg) (payload_decode ex_codecs) = Inr (ex_tx, Some
        (ex_config\<lparr>jc_config := (jc_config ex_config)\<lparr>max_retries := Some 3\<rparr>\<rparr>)))"
proof -
  obtain p where p: "payload_create ex_codecs 5 ex_tx ex_config False = Inr p"
    by (simp add: payload_create_def to_new_def ex_codecs_def ex_config_def rpc_config_default_def)
  obtain msg where msg: "to_proto ex_codecs p = Inr msg"
    using p by (auto simp: payload_create_def to_new_def to_proto_def)
  from payload_round_trip [OF ex_codecs_ok p msg] p msg ex_codecs_ok show ?thesis
    by (simp add: ex_config_def rpc_config_default_def)
qed

lemma ex_decode: "decode_and_deserialize ex_codecs ''AB'' BinBase58 = Inr ([65, 66], ex_tx)"
  by (simp add: decode_and_deserialize_def ex_codecs_def max_base58_size_def packet_data_size_def)

theorem handlers_forward_exactly_accepted_witness:
  "codecs_ok ex_codecs \<and> (let h = \<lparr>th_sink = [], th_sink_open = True\<rparr>
    in th_sink_open h \<and> handled ex_codecs ex_config h (handle_transaction ex_codecs ''AB'' (Some ex_config) h) \<and>
       map_option length (case handle_transaction ex_codecs ''AB'' (Some ex_config) h of
         Inr (h', Inr text) \<Rightarrow> Some (th_sink h') | _ \<Rightarrow> None) = Some 1)"
proof -
  let ?h = "\<lparr>th_sink = [], th_sink_open = True\<rparr>"
  have "into_binary_encoding ex_codecs UiBase58 = Some BinBase58" "sanitize ex_codecs ex_tx = None"
    by (simp_all add: ex_codecs_def ex_tx_def)
  then have eq: "handle_transaction ex_codecs ''AB'' (Some ex_config) ?h = forward ex_codecs ex_tx [65, 66] ex_config ?h"
    by (simp add: handle_transaction_def prepare_transaction_def checked_def ex_decode ex_config_def
        rpc_config_default_def sanitize_check_def)
  have "map_option length (case handle_transaction ex_codecs ''AB'' (Some ex_config) ?h of
      Inr (h', Inr text) \<Rightarrow> Some (th_sink h') | _ \<Rightarrow> None) = Some 1"
    unfolding eq by (simp add: forward_def ex_tx_def)
  then show ?thesis
    using handlers_forward_exactly_accepted [OF ex_codecs_ok, of ?h ex_config ex_tx "[]" "''AB''"] ex_codecs_ok
    by (simp add: Let_def)
qed

text \<open>The configuration that a message with 3 retries carries.\<close>

definition ex_proto_config :: transaction_config where
  "ex_proto_config = \<lparr>tc_skip_preflight = True, tc_max_retries = Some 3, tc_forwarding_policies = []\<rparr>"

theorem entry_points_agree_witness:
  "outcome (send_transaction ex_codecs ''AB'' (Some (config_from_proto ex_codecs ex_proto_config)) \<lparr>th_sink = [], th_sink_open = True\<rparr>) =
   outcome (handle_raw_transaction ex_codecs [65, 66] (config_from_proto ex_codecs ex_proto_config) \<lparr>th_sink = [], th_sink_open = True\<rparr>)"
proof -
  have enc: "into_binary_encoding ex_codecs (unwrap_or UiBase58
      (encoding (jc_config (config_from_proto ex_codecs ex_proto_config)))) = Some BinBase58"
    and ser: "bincode_serialize ex_codecs ex_tx = Inr [65, 66]"
    and skip: "skip_preflight (jc_config (config_from_proto ex_codecs ex_proto_config))"
    by (simp_all add: ex_codecs_def config_from_proto_def jet_rpc_config_new_def ex_proto_config_def)
  show ?thesis
    using entry_points_agree [OF ex_codecs_ok enc ex_decode ser refl,
        of "\<lparr>tw_transaction = [65, 66], tw_config = Some ex_proto_config, tw_timestamp = None\<rparr>"
           "\<lparr>th_sink = [], th_sink_open = True\<rparr>"] skip by simp
qed

end
