(* ===== verification/Jet_Challenger.thy ===== *)
theory Jet_Challenger
  imports Jet_Prelude
begin

text \<open>
  \<open>apps/jet/src/pubkey_challenger.rs\<close>: the challenge by which a client of the gateway protocol proves that it owns a
  public key, and the one-time tokens it gets for that.

  \<open>SigChallenger\<close> is the record \<open>challenger\<close>; the in-memory store of tokens is a hash map. Signatures, the
  serializers and base58 are code of other crates: the record \<open>'k sig_scheme\<close> has signing and verification over a
  type \<open>'k\<close> of key pairs, \<open>challenge_codecs\<close> the encodings, and \<open>sig_scheme_ok\<close>, \<open>challenge_codecs_ok\<close> say what is
  relied on. Random identifiers (\<open>Uuid::new_v4\<close>) and the readings of the two clocks are arguments. Times are in
  nanoseconds, the system time since the Unix epoch.

  The trait \<open>OneTimeAuthTokenStore\<close> is the locale \<open>one_time_token_store\<close>, interpreted on the in-memory store.
  The lemmas: an honestly answered challenge gives a token that can be claimed once; no token is claimed
  more often than it was issued; and a shortcoming: the answer for one key gives a token for any other.
\<close>

section \<open>Data\<close>

datatype verify_answer_error = InvalidChallengeFormat | InvalidChallenge | InvalidChallengeeSignature | ChallengeExpired

datatype claim_error = ClaimNotFound | ClaimPubkeyMismatch

record sig_challenge =
  sc_pubkey_to_verify :: pubkey
  sc_timestamp :: u64
  sc_nonce :: bytes

datatype signed_sig_challenge = SignedSigChallenge signature bytes

record one_time_auth_token =
  ot_pubkey :: pubkey
  ot_nonce :: bytes

type_synonym token_map = "(one_time_auth_token, pubkey \<times> instant) hmap"

record 'k challenger =
  ch_signer :: 'k
  ch_token_store :: token_map
  ch_token_ttl :: duration

definition challenger_new :: "'k \<Rightarrow> token_map \<Rightarrow> duration \<Rightarrow> 'k challenger" where
  "challenger_new signer store ttl = \<lparr>ch_signer = signer, ch_token_store = store, ch_token_ttl = ttl\<rparr>"

definition nanos_per_sec :: nat where
  "nanos_per_sec = 1000000000"

definition default_sig_challenger :: "'k \<Rightarrow> 'k challenger" where
  "default_sig_challenger keypair = challenger_new keypair [] (300 * nanos_per_sec)"

record 'k sig_scheme =
  pubkey_of :: "'k \<Rightarrow> pubkey"
  sign_message :: "'k \<Rightarrow> bytes \<Rightarrow> signature"
  sig_verify :: "signature \<Rightarrow> pubkey \<Rightarrow> bytes \<Rightarrow> bool"

definition sig_scheme_ok :: "'k sig_scheme \<Rightarrow> bool" where
  "sig_scheme_ok sch \<longleftrightarrow> (\<forall>k m. sig_verify sch (sign_message sch k m) (pubkey_of sch k) m)"

record challenge_codecs =
  ser_challenge :: "sig_challenge \<Rightarrow> bytes option"
  deser_challenge :: "bytes \<Rightarrow> sig_challenge option"
  ser_signed :: "signed_sig_challenge \<Rightarrow> bytes option"
  deser_signed :: "bytes \<Rightarrow> signed_sig_challenge option"
  b58_encode :: "bytes \<Rightarrow> string"
  b58_decode :: "string \<Rightarrow> bytes option"

definition challenge_codecs_ok :: "challenge_codecs \<Rightarrow> bool" where
  "challenge_codecs_ok c \<longleftrightarrow>
     (\<forall>x. \<exists>bs. ser_challenge c x = Some bs \<and> deser_challenge c bs = Some x) \<and>
     (\<forall>x. \<exists>bs. ser_signed c x = Some bs \<and> deser_signed c bs = Some x) \<and>
     (\<forall>bs. b58_decode c (b58_encode c bs) = Some bs)"

definition str_bytes :: "string \<Rightarrow> bytes" where
  "str_bytes s = map (\<lambda>ch. of_nat (of_char ch)) s"

section \<open>The token store\<close>

text \<open>Garbage collection: \<open>deadline.elapsed()\<close> is the saturating difference to the present.\<close>

definition collect_expired :: "instant \<Rightarrow> token_map \<Rightarrow> token_map" where
  "collect_expired now m = hm_retain (\<lambda>_ (_, deadline). now - deadline = 0) m"

definition generate_new :: "bytes \<Rightarrow> pubkey \<Rightarrow> duration \<Rightarrow> instant \<Rightarrow> instant \<Rightarrow> token_map \<Rightarrow> (token_map \<times> one_time_auth_token) res" where
  "generate_new uuid pubkey ttl now later m =
     (let token = \<lparr>ot_pubkey = pubkey, ot_nonce = uuid\<rparr>;
          expire_at = now + ttl
      in case hm_get m token of
           Some old \<Rightarrow> Inl (Panic ''Token collision'')
         | None \<Rightarrow> Inr (collect_expired later (hm_insert token (pubkey, expire_at) m), token))"

definition claim :: "one_time_auth_token \<Rightarrow> instant \<Rightarrow> instant \<Rightarrow> token_map \<Rightarrow> token_map \<times> (claim_error + unit)" where
  "claim token now later m =
     (case hm_get m token of
        Some (actual_bound_pubkey, deadline) \<Rightarrow>
          (let m1 = hm_remove token m
           in if deadline < now then (m1, Inl ClaimNotFound)
              else if actual_bound_pubkey \<noteq> ot_pubkey token then (m1, Inl ClaimPubkeyMismatch)
              else (collect_expired later m1, Inr ()))
      | None \<Rightarrow> (m, Inl ClaimNotFound))"

section \<open>The challenge\<close>

definition append_nonce_and_sign :: "'k sig_scheme \<Rightarrow> 'k \<Rightarrow> string \<Rightarrow> bytes \<Rightarrow> signature" where
  "append_nonce_and_sign sch signer challenge nonce = sign_message sch signer (str_bytes challenge @ nonce)"

definition create_challenge ::
  "'k sig_scheme \<Rightarrow> challenge_codecs \<Rightarrow> bytes \<Rightarrow> nat \<Rightarrow> pubkey \<Rightarrow> 'k challenger \<Rightarrow> string res" where
  "create_challenge sch c uuid system_now pubkey_to_verify chal =
     (let challenge = \<lparr>sc_pubkey_to_verify = pubkey_to_verify, sc_timestamp = of_nat (system_now div nanos_per_sec), sc_nonce = uuid\<rparr>
      in res_bind (expect ''serialize challenge'' (ser_challenge c challenge)) (\<lambda>ser.
           let signature = sign_message sch (ch_signer chal) ser
           in res_bind (expect ''serialize signed challenge'' (ser_signed c (SignedSigChallenge signature ser))) (\<lambda>signed.
                Inr (b58_encode c signed))))"

text \<open>
  The checks of \<open>verify_answer\<close>: the key the challenge was made for, an error, or the panic of \<open>duration_since\<close> on a
  challenge from the future.
\<close>

definition check_answer ::
  "'k sig_scheme \<Rightarrow> challenge_codecs \<Rightarrow> nat \<Rightarrow> string \<Rightarrow> signature \<Rightarrow> bytes \<Rightarrow> 'k challenger \<Rightarrow> (verify_answer_error + pubkey) res" where
  "check_answer sch c system_now challenge challengee_signature challengee_nonce chal =
     (case Option.bind (b58_decode c challenge) (deser_signed c) of
        None \<Rightarrow> Inr (Inl InvalidChallengeFormat)
      | Some (SignedSigChallenge sig payload) \<Rightarrow>
          (case deser_challenge c payload of
             None \<Rightarrow> Inr (Inl InvalidChallengeFormat)
           | Some sc \<Rightarrow>
               if \<not> sig_verify sch sig (pubkey_of sch (ch_signer chal)) payload then Inr (Inl InvalidChallenge)
               else let created_at = unat (sc_timestamp sc) * nanos_per_sec
                    in if system_now < created_at then Inl (Panic ''time'')
                       else if system_now - created_at > ch_token_ttl chal then Inr (Inl ChallengeExpired)
                       else if \<not> sig_verify sch challengee_signature (sc_pubkey_to_verify sc) (str_bytes challenge @ challengee_nonce)
                       then Inr (Inl InvalidChallengeeSignature)
                       else Inr (Inr (sc_pubkey_to_verify sc))))"

definition verify_answer ::
  "'k sig_scheme \<Rightarrow> challenge_codecs \<Rightarrow> bytes \<Rightarrow> nat \<Rightarrow> instant \<Rightarrow> instant \<Rightarrow> pubkey \<Rightarrow> string \<Rightarrow> signature \<Rightarrow> bytes
     \<Rightarrow> 'k challenger \<Rightarrow> ('k challenger \<times> (verify_answer_error + one_time_auth_token)) res" where
  "verify_answer sch c uuid system_now now later pubkey_to_verify challenge challengee_signature challengee_nonce chal =
     res_bind (check_answer sch c system_now challenge challengee_signature challengee_nonce chal) (\<lambda>checked.
       case checked of
         Inl e \<Rightarrow> Inr (chal, Inl e)
       | Inr _ \<Rightarrow>
           res_bind (generate_new uuid pubkey_to_verify (ch_token_ttl chal) now later (ch_token_store chal)) (\<lambda>(m, token).
             Inr (chal\<lparr>ch_token_store := m\<rparr>, Inr token)))"

definition use_one_time_auth_token :: "one_time_auth_token \<Rightarrow> instant \<Rightarrow> instant \<Rightarrow> 'k challenger \<Rightarrow> 'k challenger \<times> bool" where
  "use_one_time_auth_token token now later chal =
     (let (m, result) = claim token now later (ch_token_store chal)
      in (chal\<lparr>ch_token_store := m\<rparr>, case result of Inr _ \<Rightarrow> True | Inl _ \<Rightarrow> False))"

section \<open>The contract of a token store\<close>

definition claimable :: "token_map \<Rightarrow> one_time_auth_token \<Rightarrow> instant \<Rightarrow> bool" where
  "claimable m token now \<longleftrightarrow> (\<exists>deadline. hm_get m token = Some (ot_pubkey token, deadline) \<and> now \<le> deadline)"

locale one_time_token_store =
  fixes ok :: "'s \<Rightarrow> bool"
    and can_claim :: "'s \<Rightarrow> 't \<Rightarrow> instant \<Rightarrow> bool"
    and claim_op :: "'t \<Rightarrow> instant \<Rightarrow> instant \<Rightarrow> 's \<Rightarrow> 's \<times> ('e + unit)"
  assumes claim_iff: "ok s \<Longrightarrow> snd (claim_op tok now later s) = Inr () \<longleftrightarrow> can_claim s tok now"
    and claim_uses_up: "ok s \<Longrightarrow> \<not> can_claim (fst (claim_op tok now later s)) tok t"
    and claim_creates_nothing: "ok s \<Longrightarrow> can_claim (fst (claim_op tok now later s)) tok' t \<Longrightarrow> can_claim s tok' t"
    and claim_ok: "ok s \<Longrightarrow> ok (fst (claim_op tok now later s))"
begin

lemma stays_used_up:
  assumes "ok s" and "\<And>t. \<not> can_claim s tok t"
  shows "ok (fold (\<lambda>(tok', now, later) s. fst (claim_op tok' now later s)) ops s) \<and>
    \<not> can_claim (fold (\<lambda>(tok', now, later) s. fst (claim_op tok' now later s)) ops s) tok t"
  using assms
proof (induction ops arbitrary: s)
  case (Cons op rest)
  obtain tok' now later where op: "op = (tok', now, later)" by (metis prod_cases3)
  have "\<not> can_claim (fst (claim_op tok' now later s)) tok t" for t
    using claim_creates_nothing [OF Cons.prems(1)] Cons.prems(2) by blast
  from Cons.IH [OF claim_ok [OF Cons.prems(1)] this] show ?case by (simp add: op)
qed simp

text \<open>A token that was presented is refused afterwards, whatever is presented in between.\<close>

lemma presented_once:
  assumes "ok s"
  shows "snd (claim_op tok now' later' (fold (\<lambda>(tok', now, later) s. fst (claim_op tok' now later s)) ops
    (fst (claim_op tok now later s)))) \<noteq> Inr ()"
proof -
  let ?s = "fst (claim_op tok now later s)"
  have "ok ?s" "\<not> can_claim ?s tok t" for t using assms claim_ok claim_uses_up by blast+
  from stays_used_up [OF this] show ?thesis using claim_iff by blast
qed

end

lemma hm_get_collect: "hm_wf m \<Longrightarrow> hm_get (collect_expired now m) tok =
    (case hm_get m tok of None \<Rightarrow> None | Some (pk, d) \<Rightarrow> if now \<le> d then Some (pk, d) else None)"
  by (simp add: collect_expired_def hm_get_retain split: option.split prod.split)

lemma hm_wf_collect: "hm_wf m \<Longrightarrow> hm_wf (collect_expired now m)"
  by (simp add: collect_expired_def)

interpretation memory_store: one_time_token_store hm_wf claimable claim
proof unfold_locales
  fix s :: token_map and tok now later t tok'
  assume wf: "hm_wf s"
  show "snd (claim tok now later s) = Inr () \<longleftrightarrow> claimable s tok now"
    by (auto simp: claim_def claimable_def Let_def split: option.splits)
  show "\<not> claimable (fst (claim tok now later s)) tok t"
    using wf by (auto simp: claim_def claimable_def Let_def hm_get_collect split: option.splits)
  show "claimable s tok' t" if "claimable (fst (claim tok now later s)) tok' t"
    using that wf by (auto simp: claim_def claimable_def Let_def hm_get_collect split: option.splits if_splits)
  show "hm_wf (fst (claim tok now later s))"
    using wf by (auto simp: claim_def Let_def hm_wf_collect split: option.splits)
qed

section \<open>An answered challenge\<close>

lemma challenge_codecs_okD:
  assumes "challenge_codecs_ok c"
  shows "\<exists>bs. ser_challenge c x = Some bs \<and> deser_challenge c bs = Some x"
    and "\<exists>bs. ser_signed c y = Some bs \<and> deser_signed c bs = Some y"
    and "b58_decode c (b58_encode c bs) = Some bs"
  using assms unfolding challenge_codecs_ok_def by blast+

text \<open>A challenge of ours: how it decodes.\<close>

lemma create_challenge_decodes:
  assumes "challenge_codecs_ok c" and "sig_scheme_ok sch"
  shows "\<exists>ch sig payload. create_challenge sch c uuid t0 pk chal = Inr ch \<and>
    Option.bind (b58_decode c ch) (deser_signed c) = Some (SignedSigChallenge sig payload) \<and>
    deser_challenge c payload = Some \<lparr>sc_pubkey_to_verify = pk, sc_timestamp = of_nat (t0 div nanos_per_sec), sc_nonce = uuid\<rparr> \<and>
    sig_verify sch sig (pubkey_of sch (ch_signer chal)) payload"
proof -
  let ?sc = "\<lparr>sc_pubkey_to_verify = pk, sc_timestamp = of_nat (t0 div nanos_per_sec), sc_nonce = uuid\<rparr>"
  obtain payload where payload: "ser_challenge c ?sc = Some payload" "deser_challenge c payload = Some ?sc"
    using challenge_codecs_okD(1) [OF assms(1)] by blast
  let ?sig = "sign_message sch (ch_signer chal) payload"
  obtain signed where signed: "ser_signed c (SignedSigChallenge ?sig payload) = Some signed"
    "deser_signed c signed = Some (SignedSigChallenge ?sig payload)"
    using challenge_codecs_okD(2) [OF assms(1)] by blast
  have "create_challenge sch c uuid t0 pk chal = Inr (b58_encode c signed)"
    using payload(1) signed(1) by (simp add: create_challenge_def Let_def)
  then show ?thesis
    using payload(2) signed(2) challenge_codecs_okD(3) [OF assms(1)] assms(2) by (auto simp: sig_scheme_ok_def)
qed

lemma create_challenge_created_at:
  assumes "t0 < 2 ^ 64" and "t0 \<le> t1" and "t1 - t0 + nanos_per_sec \<le> ttl"
  shows "unat (of_nat (t0 div nanos_per_sec) :: u64) * nanos_per_sec \<le> t1"
    and "t1 - unat (of_nat (t0 div nanos_per_sec) :: u64) * nanos_per_sec \<le> ttl"
proof -
  have "t0 div nanos_per_sec \<le> t0" by simp
  with assms(1) have "t0 div nanos_per_sec < 2 ^ 64" by linarith
  then have u: "unat (of_nat (t0 div nanos_per_sec) :: u64) = t0 div nanos_per_sec"
    by (simp add: unat_of_nat take_bit_nat_eq_self)
  have le: "t0 div nanos_per_sec * nanos_per_sec \<le> t0" by simp
  have "t0 mod nanos_per_sec < nanos_per_sec" by (simp add: nanos_per_sec_def)
  then have ge: "t0 < t0 div nanos_per_sec * nanos_per_sec + nanos_per_sec" by (metis div_mult_mod_eq nat_add_left_cancel_less)
  show "unat (of_nat (t0 div nanos_per_sec) :: u64) * nanos_per_sec \<le> t1" unfolding u using le assms(2) by linarith
  show "t1 - unat (of_nat (t0 div nanos_per_sec) :: u64) * nanos_per_sec \<le> ttl" unfolding u using ge assms(2,3) by linarith
qed

lemma answer_checked:
  assumes "challenge_codecs_ok c" and "sig_scheme_ok sch" and "t0 < 2 ^ 64" and "t0 \<le> t1"
    and "t1 - t0 + nanos_per_sec \<le> ch_token_ttl chal'" and "ch_signer chal' = ch_signer chal"
    and "create_challenge sch c uuid t0 (pubkey_of sch k) chal = Inr ch"
  shows "check_answer sch c t1 ch (append_nonce_and_sign sch k ch nonce) nonce chal' = Inr (Inr (pubkey_of sch k))"
proof -
  obtain sig payload where dec: "Option.bind (b58_decode c ch) (deser_signed c) = Some (SignedSigChallenge sig payload)"
    "deser_challenge c payload = Some \<lparr>sc_pubkey_to_verify = pubkey_of sch k, sc_timestamp = of_nat (t0 div nanos_per_sec), sc_nonce = uuid\<rparr>"
    "sig_verify sch sig (pubkey_of sch (ch_signer chal)) payload"
    using create_challenge_decodes [OF assms(1,2), of uuid t0 "pubkey_of sch k" chal] assms(7) by auto
  note time = create_challenge_created_at [OF assms(3-5)]
  have "sig_verify sch (append_nonce_and_sign sch k ch nonce) (pubkey_of sch k) (str_bytes ch @ nonce)"
    using assms(2) by (simp add: append_nonce_and_sign_def sig_scheme_ok_def)
  then show ?thesis using dec time assms(6) by (simp add: check_answer_def Let_def)
qed

lemma generate_new_claimable:
  assumes "hm_wf m" and "hm_get m \<lparr>ot_pubkey = pk, ot_nonce = uuid\<rparr> = None" and "now \<le> later" and "later \<le> now + ttl"
  shows "\<exists>m'. generate_new uuid pk ttl now later m = Inr (m', \<lparr>ot_pubkey = pk, ot_nonce = uuid\<rparr>) \<and> hm_wf m' \<and>
    (\<forall>t \<le> now + ttl. claimable m' \<lparr>ot_pubkey = pk, ot_nonce = uuid\<rparr> t)"
  using assms by (auto simp: generate_new_def Let_def claimable_def hm_get_collect hm_wf_collect)

text \<open>
  C25. A client that answers a challenge for its own key, within the time to live less the second to which time stamps are
  rounded, gets a token for that key; the first use of the token within its time to live succeeds, and every later use
  fails, whatever other tokens are used in between.
\<close>

theorem challenge_answered_once:
  assumes "challenge_codecs_ok c" and "sig_scheme_ok sch" and "t0 < 2 ^ 64" and "t0 \<le> t1"
    and "t1 - t0 + nanos_per_sec \<le> ch_token_ttl chal" and "hm_wf (ch_token_store chal)"
    and "hm_get (ch_token_store chal) \<lparr>ot_pubkey = pubkey_of sch k, ot_nonce = uuid'\<rparr> = None"
    and "now \<le> later" and "later \<le> now + ch_token_ttl chal" and "used \<le> now + ch_token_ttl chal"
    and "create_challenge sch c uuid t0 (pubkey_of sch k) chal = Inr ch"
  shows "\<exists>chal' token. verify_answer sch c uuid' t1 now later (pubkey_of sch k) ch
      (append_nonce_and_sign sch k ch nonce) nonce chal = Inr (chal', Inr token) \<and>
    ot_pubkey token = pubkey_of sch k \<and> snd (use_one_time_auth_token token used used' chal') \<and>
    \<not> snd (use_one_time_auth_token token again again' (chal'\<lparr>ch_token_store :=
        fold (\<lambda>(tok, n, l) m. fst (claim tok n l m)) others
          (ch_token_store (fst (use_one_time_auth_token token used used' chal')))\<rparr>))"
proof -
  let ?tok = "\<lparr>ot_pubkey = pubkey_of sch k, ot_nonce = uuid'\<rparr>"
  have check: "check_answer sch c t1 ch (append_nonce_and_sign sch k ch nonce) nonce chal = Inr (Inr (pubkey_of sch k))"
    by (rule answer_checked [OF assms(1-5) refl assms(11)])
  obtain m' where m': "generate_new uuid' (pubkey_of sch k) (ch_token_ttl chal) now later (ch_token_store chal) = Inr (m', ?tok)"
    "hm_wf m'" "claimable m' ?tok used"
    using generate_new_claimable [OF assms(6,7,8,9)] assms(10) by blast
  have first: "snd (claim ?tok used used' m') = Inr ()" using memory_store.claim_iff [OF m'(2)] m'(3) by blast
  have second: "snd (claim ?tok again again' (fold (\<lambda>(tok, n, l) m. fst (claim tok n l m)) others (fst (claim ?tok used used' m')))) \<noteq> Inr ()"
    by (rule memory_store.presented_once [OF m'(2)])
  have run: "verify_answer sch c uuid' t1 now later (pubkey_of sch k) ch (append_nonce_and_sign sch k ch nonce) nonce chal =
      Inr (chal\<lparr>ch_token_store := m'\<rparr>, Inr ?tok)"
    by (simp add: verify_answer_def check m'(1))
  show ?thesis
    by (rule exI [of _ "chal\<lparr>ch_token_store := m'\<rparr>"], rule exI [of _ ?tok])
      (use run first second in \<open>auto simp: use_one_time_auth_token_def Let_def case_prod_beta split: sum.splits\<close>)
qed

text \<open>
  C26. The challenge does not authenticate the key it gives a token for. A client that answers a challenge for its own key
  and names another key in the answer gets a token for that other key: the signature is checked against the key in
  the challenge, and the token is made for the key in the answer, and the two are never compared.
\<close>

theorem answer_gives_token_for_other_key:
  assumes "challenge_codecs_ok c" and "sig_scheme_ok sch" and "t0 < 2 ^ 64" and "t0 \<le> t1"
    and "t1 - t0 + nanos_per_sec \<le> ch_token_ttl chal" and "hm_wf (ch_token_store chal)"
    and "hm_get (ch_token_store chal) \<lparr>ot_pubkey = victim, ot_nonce = uuid'\<rparr> = None"
    and "now \<le> later" and "later \<le> now + ch_token_ttl chal"
    and "create_challenge sch c uuid t0 (pubkey_of sch k) chal = Inr ch"
  shows "\<exists>chal' token. verify_answer sch c uuid' t1 now later victim ch
      (append_nonce_and_sign sch k ch nonce) nonce chal = Inr (chal', Inr token) \<and>
    ot_pubkey token = victim \<and> snd (use_one_time_auth_token token later later chal')"
proof -
  let ?tok = "\<lparr>ot_pubkey = victim, ot_nonce = uuid'\<rparr>"
  have check: "check_answer sch c t1 ch (append_nonce_and_sign sch k ch nonce) nonce chal = Inr (Inr (pubkey_of sch k))"
    by (rule answer_checked [OF assms(1-5) refl assms(10)])
  obtain m' where m': "generate_new uuid' victim (ch_token_ttl chal) now later (ch_token_store chal) = Inr (m', ?tok)"
    "hm_wf m'" "claimable m' ?tok later"
    using generate_new_claimable [OF assms(6,7,8,9)] assms(9) by blast
  have "snd (claim ?tok later later m') = Inr ()" using memory_store.claim_iff [OF m'(2)] m'(3) by blast
  moreover have "verify_answer sch c uuid' t1 now later victim ch (append_nonce_and_sign sch k ch nonce) nonce chal =
      Inr (chal\<lparr>ch_token_store := m'\<rparr>, Inr ?tok)"
    by (simp add: verify_answer_def check m'(1))
  ultimately show ?thesis by (auto simp: use_one_time_auth_token_def Let_def case_prod_beta)
qed

text \<open>Unary encodings and a signature that is the number of its key, for the witnesses.\<close>

definition unary :: "nat \<Rightarrow> bytes \<Rightarrow> bytes" where
  "unary n bs = replicate n 1 @ 0 # bs"

definition un_unary :: "bytes \<Rightarrow> nat \<times> bytes" where
  "un_unary bs = (length (takeWhile (\<lambda>b. b = 1) bs), tl (dropWhile (\<lambda>b. b = 1) bs))"

lemma un_unary [simp]: "un_unary (unary n bs) = (n, bs)"
proof -
  have "takeWhile (\<lambda>b. b = 1) (unary n bs) = replicate n (1 :: 8 word) \<and> dropWhile (\<lambda>b. b = 1) (unary n bs) = 0 # bs"
    unfolding unary_def by (induction n) simp_all
  then show ?thesis by (simp add: un_unary_def)
qed

definition ex_challenge_codecs :: challenge_codecs where
  "ex_challenge_codecs =
     \<lparr>ser_challenge = (\<lambda>sc. case sc_pubkey_to_verify sc of Pubkey n \<Rightarrow> Some (unary n (unary (unat (sc_timestamp sc)) (sc_nonce sc)))),
      deser_challenge = (\<lambda>bs. let (n, r) = un_unary bs; (t, r') = un_unary r
        in Some \<lparr>sc_pubkey_to_verify = Pubkey n, sc_timestamp = of_nat t, sc_nonce = r'\<rparr>),
      ser_signed = (\<lambda>x. case x of SignedSigChallenge (Signature n) bs \<Rightarrow> Some (unary n bs)),
      deser_signed = (\<lambda>bs. let (n, r) = un_unary bs in Some (SignedSigChallenge (Signature n) r)),
      b58_encode = map (\<lambda>b. char_of (unat b)), b58_decode = (\<lambda>s. Some (map (\<lambda>ch. of_nat (of_char ch)) s))\<rparr>"

definition ex_scheme :: "nat sig_scheme" where
  "ex_scheme = \<lparr>pubkey_of = Pubkey, sign_message = (\<lambda>k _. Signature k), sig_verify = (\<lambda>s pk _. case s of Signature n \<Rightarrow> pk = Pubkey n)\<rparr>"

lemma ex_scheme_ok: "sig_scheme_ok ex_scheme"
  by (simp add: sig_scheme_ok_def ex_scheme_def)

lemma ex_challenge_codecs_ok: "challenge_codecs_ok ex_challenge_codecs"
  unfolding challenge_codecs_ok_def
proof (intro conjI allI)
  fix x :: sig_challenge
  obtain n t bs where "x = \<lparr>sc_pubkey_to_verify = Pubkey n, sc_timestamp = t, sc_nonce = bs\<rparr>"
    by (metis sig_challenge.cases pubkey.exhaust)
  then show "\<exists>bs. ser_challenge ex_challenge_codecs x = Some bs \<and> deser_challenge ex_challenge_codecs bs = Some x"
    by (simp add: ex_challenge_codecs_def)
next
  fix x :: signed_sig_challenge
  obtain n bs where "x = SignedSigChallenge (Signature n) bs" by (metis signed_sig_challenge.exhaust signature.exhaust)
  then show "\<exists>bs. ser_signed ex_challenge_codecs x = Some bs \<and> deser_signed ex_challenge_codecs bs = Some x"
    by (simp add: ex_challenge_codecs_def)
next
  fix bs :: bytes
  have "unat b < 2 ^ LENGTH(8)" for b :: "8 word" by (rule unsigned_less)
  then show "b58_decode ex_challenge_codecs (b58_encode ex_challenge_codecs bs) = Some bs"
    by (simp add: ex_challenge_codecs_def comp_def map_idI)
qed

lemma ex_challenge: "\<exists>ch. create_challenge ex_scheme ex_challenge_codecs [1] 5 (pubkey_of ex_scheme 3) (default_sig_challenger 9) = Inr ch"
  using create_challenge_decodes [OF ex_challenge_codecs_ok ex_scheme_ok] by blast

theorem challenge_answered_once_witness:
  "\<exists>ch chal' token. create_challenge ex_scheme ex_challenge_codecs [1] 5 (Pubkey 3) (default_sig_challenger 9) = Inr ch \<and>
     verify_answer ex_scheme ex_challenge_codecs [2] 6 0 1 (Pubkey 3) ch (append_nonce_and_sign ex_scheme 3 ch []) []
       (default_sig_challenger 9) = Inr (chal', Inr token) \<and>
     ot_pubkey token = Pubkey 3 \<and> snd (use_one_time_auth_token token 2 3 chal')"
proof -
  obtain ch where ch: "create_challenge ex_scheme ex_challenge_codecs [1] 5 (pubkey_of ex_scheme 3) (default_sig_challenger 9) = Inr ch"
    using ex_challenge by blast
  have pk: "pubkey_of ex_scheme 3 = Pubkey 3" by (simp add: ex_scheme_def)
  from challenge_answered_once [OF ex_challenge_codecs_ok ex_scheme_ok _ _ _ _ _ _ _ _ ch, of 6 "[2]" 0 1 2] ch show ?thesis
    by (fastforce simp: pk default_sig_challenger_def challenger_new_def nanos_per_sec_def)
qed

theorem answer_gives_token_for_other_key_witness:
  "\<exists>ch chal' token. create_challenge ex_scheme ex_challenge_codecs [1] 5 (Pubkey 3) (default_sig_challenger 9) = Inr ch \<and>
     verify_answer ex_scheme ex_challenge_codecs [2] 6 0 1 (Pubkey 8) ch (append_nonce_and_sign ex_scheme 3 ch []) []
       (default_sig_challenger 9) = Inr (chal', Inr token) \<and> ot_pubkey token = Pubkey 8"
proof -
  obtain ch where ch: "create_challenge ex_scheme ex_challenge_codecs [1] 5 (pubkey_of ex_scheme 3) (default_sig_challenger 9) = Inr ch"
    using ex_challenge by blast
  have pk: "pubkey_of ex_scheme 3 = Pubkey 3" by (simp add: ex_scheme_def)
  from answer_gives_token_for_other_key [OF ex_challenge_codecs_ok ex_scheme_ok _ _ _ _ _ _ _ ch, of 6 "Pubkey 8" "[2]" 0 1] ch
  show ?thesis by (fastforce simp: pk default_sig_challenger_def challenger_new_def nanos_per_sec_def)
qed

end
