(* ===== verification/Jet_Rpc.thy ===== *)
theory Jet_Rpc
  imports Jet_Prelude
begin

text \<open>
  \<open>apps/jet/src/solana_rpc_utils.rs\<close> and its copy \<open>crates/tpu-client/src/rpc/solana_rpc_utils.rs\<close>: which errors of a call to
  a node are transient, and the sender that repeats a call after them.

  The error kinds are those \<open>is_transient\<close> distinguishes, with what it looks at: the status of an HTTP error and
  whether an RPC error is one for the user. The wrapped sender is a function from the number of the attempt to
  its answer. The delays of the crate \<open>retry\<close> are a parameter of the exponential strategy: \<open>exponential base exp i\<close> is the
  \<open>i\<close>-th delay. What the loop slept is part of the result.
\<close>

datatype rpc_request_error = RpcForUser string | RpcOtherError string

datatype client_error =
    ErrIo
  | ErrReqwest "nat option"
  | ErrMiddleware
  | ErrRpcError rpc_request_error
  | ErrSerdeJson
  | ErrSigningError
  | ErrTransactionError
  | ErrCustom string

definition is_server_error :: "nat \<Rightarrow> bool" where
  "is_server_error status \<longleftrightarrow> 500 \<le> status \<and> status < 600"

fun is_transient :: "client_error \<Rightarrow> bool" where
  "is_transient ErrIo = True"
| "is_transient (ErrReqwest status) =
     (case status of Some status \<Rightarrow> is_server_error status \<or> status = 429 | None \<Rightarrow> True)"
| "is_transient ErrMiddleware = False"
| "is_transient (ErrRpcError rpc_error) = (case rpc_error of RpcForUser _ \<Rightarrow> False | _ \<Rightarrow> True)"
| "is_transient ErrSerdeJson = False"
| "is_transient ErrSigningError = False"
| "is_transient ErrTransactionError = False"
| "is_transient (ErrCustom _) = False"

datatype 'f retry_strategy = FixedDelay duration nat | ExponentialBackoff duration 'f nat

definition nanos_per_milli :: nat where
  "nanos_per_milli = 1000000"

fun retry_intervals :: "(nat \<Rightarrow> 'f \<Rightarrow> nat \<Rightarrow> duration) \<Rightarrow> 'f retry_strategy \<Rightarrow> duration list" where
  "retry_intervals exponential (FixedDelay delay max_retries) =
     replicate max_retries (delay div nanos_per_milli * nanos_per_milli)"
| "retry_intervals exponential (ExponentialBackoff base exp max_retries) =
     map (exponential (base div nanos_per_milli) exp) [0..<max_retries]"

definition max_retries_of :: "'f retry_strategy \<Rightarrow> nat" where
  "max_retries_of strategy = (case strategy of FixedDelay _ n \<Rightarrow> n | ExponentialBackoff _ _ n \<Rightarrow> n)"

text \<open>The loop of \<open>send\<close>, from attempt \<open>i\<close> on, with the intervals that are left; the delays it slept.\<close>

fun retry_loop_from :: "(nat \<Rightarrow> client_error + 'v) \<Rightarrow> nat \<Rightarrow> duration list \<Rightarrow> (client_error + 'v) \<times> duration list" where
  "retry_loop_from rpc_sender i intervals =
     (case rpc_sender i of
        Inr response \<Rightarrow> (Inr response, [])
      | Inl error \<Rightarrow>
          (if \<not> is_transient error then (Inl error, [])
           else case intervals of
                  interval # rest \<Rightarrow>
                    (let (result, slept) = retry_loop_from rpc_sender (Suc i) rest in (result, interval # slept))
                | [] \<Rightarrow> (Inl error, [])))"

definition retry_send ::
  "(nat \<Rightarrow> 'f \<Rightarrow> nat \<Rightarrow> duration) \<Rightarrow> 'f retry_strategy \<Rightarrow> (nat \<Rightarrow> client_error + 'v) \<Rightarrow> (client_error + 'v) \<times> duration list" where
  "retry_send exponential strategy rpc_sender = retry_loop_from rpc_sender 0 (retry_intervals exponential strategy)"

section \<open>The answer of the retrying sender\<close>

definition gives_up :: "client_error + 'v \<Rightarrow> bool" where
  "gives_up answer \<longleftrightarrow> (case answer of Inl error \<Rightarrow> \<not> is_transient error | Inr _ \<Rightarrow> True)"

lemma retry_intervals_length [simp]: "length (retry_intervals exponential strategy) = max_retries_of strategy"
  by (cases strategy) (simp_all add: max_retries_of_def)

declare retry_loop_from.simps [simp del]

lemma retry_loop_from_stops:
  "gives_up (rpc i) \<or> intervals = [] \<Longrightarrow> retry_loop_from rpc i intervals = (rpc i, [])"
  by (subst retry_loop_from.simps) (auto simp: gives_up_def split: sum.splits)

lemma retry_loop_from_again:
  "\<not> gives_up (rpc i) \<Longrightarrow> retry_loop_from rpc i (d # ds) =
     (fst (retry_loop_from rpc (Suc i) ds), d # snd (retry_loop_from rpc (Suc i) ds))"
  by (subst retry_loop_from.simps) (auto simp: gives_up_def case_prod_beta split: sum.splits)

lemma retry_loop_from_spec:
  "\<exists>k \<le> length intervals. retry_loop_from rpc i intervals = (rpc (i + k), take k intervals) \<and>
     (\<forall>j < k. \<not> gives_up (rpc (i + j))) \<and> (gives_up (rpc (i + k)) \<or> k = length intervals)"
proof (induction intervals arbitrary: i)
  case Nil
  then show ?case by (simp add: retry_loop_from_stops)
next
  case (Cons d ds)
  show ?case
  proof (cases "gives_up (rpc i)")
    case True
    then show ?thesis by (intro exI [of _ 0]) (simp add: retry_loop_from_stops)
  next
    case False
    obtain k where k: "k \<le> length ds" "retry_loop_from rpc (Suc i) ds = (rpc (Suc i + k), take k ds)"
      "\<forall>j < k. \<not> gives_up (rpc (Suc i + j))" "gives_up (rpc (Suc i + k)) \<or> k = length ds"
      using Cons.IH [of "Suc i"] by blast
    have "\<forall>j < Suc k. \<not> gives_up (rpc (i + j))" using k(3) False by (auto simp: less_Suc_eq_0_disj)
    then show ?thesis using k by (intro exI [of _ "Suc k"]) (simp add: retry_loop_from_again [where rpc = rpc and i = i, OF False])
  qed
qed

text \<open>
  A call through the retrying sender returns, after at most \<open>max_retries + 1\<close> attempts: with the answer of the first
  attempt that is a success or an error that is not transient, or with the last transient error when the retries are used
  up. It sleeps exactly the delays of the strategy between the attempts it made.
\<close>

theorem retry_sender_answer:
  "\<exists>k \<le> max_retries_of strategy.
     retry_send exponential strategy rpc = (rpc k, take k (retry_intervals exponential strategy)) \<and>
     {j. j < k} \<inter> {j. gives_up (rpc j)} = {} \<and>
     (k = max_retries_of strategy \<or> gives_up (rpc k))"
  using retry_loop_from_spec [of "retry_intervals exponential strategy" rpc 0]
  by (auto simp: retry_send_def)

theorem retry_sender_answer_witness:
  "retry_send (\<lambda>base (exp :: nat) i. base * exp ^ i) (ExponentialBackoff 10000000 2 3)
     (\<lambda>i. if i < 2 then Inl ErrIo else Inr i) = (Inr 2, [10, 20])"
proof -
  obtain k where k: "k \<le> 3" "retry_send (\<lambda>base (exp :: nat) i. base * exp ^ i) (ExponentialBackoff 10000000 2 3)
     (\<lambda>i. if i < 2 then Inl ErrIo else Inr i) = ((if k < 2 then Inl ErrIo else Inr k), take k [10, 20, 40])"
    "{j. j < k} \<inter> {j :: nat. gives_up (if j < 2 then Inl ErrIo else Inr j)} = {}"
    "k = 3 \<or> gives_up (if k < 2 then Inl ErrIo else Inr k)"
    using retry_sender_answer [of "ExponentialBackoff 10000000 (2 :: nat) 3" "\<lambda>base exp i. base * exp ^ i"
        "\<lambda>i. if i < 2 then Inl ErrIo else Inr i"]
    by (auto simp: max_retries_of_def nanos_per_milli_def upt_rec)
  have "\<not> k < 2" using k(4) by (auto simp: gives_up_def)
  moreover have "\<not> 2 < k" using k(3) by (auto simp: gives_up_def)
  ultimately have "k = 2" by simp
  then show ?thesis using k(2) by simp
qed

end
