(* ===== verification/Jet_Float.thy ===== *)
theory Jet_Float
  imports Complex_Main "HOL-Library.Log_Nat"
begin

text \<open>
  Floating point numbers of Rust (\<open>f64\<close>), as far as the limits of \<open>stake.rs\<close> use them: conversion from an unsigned
  integer, product and quotient of non-negative numbers, and truncation back to an integer. A finite \<open>f64\<close> is a
  rational number; every operation is the exact one followed by rounding to the nearest number with 53 significant
  bits, ties to even. The numbers that occur lie between \<open>2 ^ -64\<close> and \<open>2 ^ 82\<close>, far from the ends of the range
  of exponents, so there is no overflow and no subnormal number.
\<close>

definition round_half_even :: "rat \<Rightarrow> int" where
  "round_half_even y =
     (let f = \<lfloor>y\<rfloor>; r = y - of_int f
      in if r < 1 / 2 then f else if 1 / 2 < r then f + 1 else if even f then f else f + 1)"

text \<open>The exponent: the integer \<open>e\<close> with \<open>2 powi e \<le> x < 2 powi (e + 1)\<close>.\<close>

definition f64_exponent :: "rat \<Rightarrow> int" where
  "f64_exponent x =
     (let (n, d) = quotient_of x; k = bitlen n - bitlen d
      in if 2 powi k \<le> x then k else k - 1)"

definition f64_round :: "rat \<Rightarrow> rat" where
  "f64_round x =
     (if x = 0 then 0
      else let ulp = 2 powi (f64_exponent x - 52) in of_int (round_half_even (x / ulp)) * ulp)"

definition f64_of_nat :: "nat \<Rightarrow> rat" where
  "f64_of_nat n = f64_round (of_nat n)"

definition f64_mult :: "rat \<Rightarrow> rat \<Rightarrow> rat" where
  "f64_mult x y = f64_round (x * y)"

definition f64_div :: "rat \<Rightarrow> rat \<Rightarrow> rat" where
  "f64_div x y = f64_round (x / y)"

text \<open>The cast of a non-negative \<open>f64\<close> to an unsigned integer, which saturates at the width \<open>w\<close>.\<close>

definition f64_to_uint :: "nat \<Rightarrow> rat \<Rightarrow> nat" where
  "f64_to_uint w x = min (nat \<lfloor>x\<rfloor>) (2 ^ w - 1)"

section \<open>Rounding\<close>

lemma round_half_even_of_int [simp]: "round_half_even (of_int k) = k"
  by (simp add: round_half_even_def Let_def)

lemma round_half_even_bounds: "\<lfloor>y\<rfloor> \<le> round_half_even y" "round_half_even y \<le> \<lfloor>y\<rfloor> + 1"
  by (simp_all add: round_half_even_def Let_def)

lemma round_half_even_mono:
  assumes "x \<le> y" shows "round_half_even x \<le> round_half_even y"
proof (cases "\<lfloor>x\<rfloor> = \<lfloor>y\<rfloor>")
  case True
  then show ?thesis using assms by (auto simp: round_half_even_def Let_def)
next
  case False
  then have "\<lfloor>x\<rfloor> + 1 \<le> \<lfloor>y\<rfloor>" using floor_mono [OF assms] by linarith
  then show ?thesis using round_half_even_bounds [of x] round_half_even_bounds [of y] by linarith
qed

lemma bitlen_powi:
  fixes n :: int assumes "0 < n"
  shows "(2 :: rat) powi (bitlen n - 1) \<le> of_int n" and "of_int n < (2 :: rat) powi bitlen n"
proof -
  have b: "2 ^ nat (bitlen n - 1) \<le> n \<and> n < 2 ^ nat (bitlen n)" by (rule bitlen_bounds [OF assms])
  have pos: "1 \<le> bitlen n" using assms bitlen_eq_zero_iff [of n] bitlen_nonneg [of n] by linarith
  have "(2 :: rat) powi (bitlen n - 1) = of_int (2 ^ nat (bitlen n - 1))" using pos by (simp add: power_int_def)
  then show "(2 :: rat) powi (bitlen n - 1) \<le> of_int n" using b by (simp only: of_int_le_iff)
  have "(2 :: rat) powi bitlen n = of_int (2 ^ nat (bitlen n))" using pos by (simp add: power_int_def)
  then show "of_int n < (2 :: rat) powi bitlen n" using b by (simp only: of_int_less_iff)
qed

lemma f64_exponent_bounds:
  assumes "0 < x"
  shows "2 powi f64_exponent x \<le> x" and "x < 2 powi (f64_exponent x + 1)"
proof -
  obtain n d where q: "quotient_of x = (n, d)" by fastforce
  have x: "x = of_int n / of_int d" and d: "0 < d" using quotient_of_div [OF q] quotient_of_denom_pos [OF q] by simp_all
  then have n: "0 < n" using assms by (simp add: zero_less_divide_iff)
  note bn = bitlen_powi [OF n] and bd = bitlen_powi [OF d]
  have dr: "(0 :: rat) < of_int d" using d by simp
  have two: "(2 :: rat) powi (a + b) = 2 powi a * 2 powi b" for a b by (rule power_int_add) simp
  have low: "2 powi (bitlen n - bitlen d - 1) \<le> x"
  proof -
    have "2 powi (bitlen n - bitlen d - 1) * of_int d \<le> 2 powi (bitlen n - bitlen d - 1) * (2 :: rat) powi bitlen d"
      using bd(2) by (intro mult_left_mono) simp_all
    also have "\<dots> = 2 powi (bitlen n - 1)" by (simp add: two [symmetric])
    also have "\<dots> \<le> of_int n" by (rule bn(1))
    finally show ?thesis unfolding x using dr by (simp add: le_divide_eq)
  qed
  have high: "x < 2 powi (bitlen n - bitlen d + 1)"
  proof -
    have "(of_int n :: rat) < 2 powi bitlen n" by (rule bn(2))
    also have "\<dots> = 2 powi (bitlen n - bitlen d + 1) * 2 powi (bitlen d - 1)" by (simp add: two [symmetric])
    also have "\<dots> \<le> 2 powi (bitlen n - bitlen d + 1) * of_int d" using bd(1) by (intro mult_left_mono) simp_all
    finally show ?thesis unfolding x using dr by (simp add: divide_less_eq)
  qed
  show "2 powi f64_exponent x \<le> x" "x < 2 powi (f64_exponent x + 1)"
    using low high by (auto simp: f64_exponent_def q Let_def)
qed

lemma powi_two_mono: "a \<le> b \<Longrightarrow> (2 :: rat) powi a \<le> 2 powi b"
  by (rule power_int_increasing) simp_all

text \<open>A rounded number stays within the powers of two around it.\<close>

lemma f64_round_bounds:
  assumes "0 < x"
  shows "2 powi f64_exponent x \<le> f64_round x" and "f64_round x \<le> 2 powi (f64_exponent x + 1)"
proof -
  let ?e = "f64_exponent x" and ?ulp = "(2 :: rat) powi (f64_exponent x - 52)"
  have ulp: "0 < ?ulp" by simp
  have lo: "2 powi ?e = of_int (2 ^ 52) * ?ulp" and hi: "2 powi (?e + 1) = of_int (2 ^ 53) * ?ulp"
    by (simp_all add: power_int_diff power_int_add)
  note b = f64_exponent_bounds [OF assms]
  have "of_int (2 ^ 52) \<le> x / ?ulp" "x / ?ulp \<le> of_int (2 ^ 53)"
    using b unfolding lo hi by (simp_all add: pos_le_divide_eq [OF ulp] pos_divide_le_eq [OF ulp])
  from this [THEN round_half_even_mono]
  have "2 ^ 52 \<le> round_half_even (x / ?ulp)" "round_half_even (x / ?ulp) \<le> 2 ^ 53" by (simp_all only: round_half_even_of_int)
  then have "(of_int (2 ^ 52) :: rat) \<le> of_int (round_half_even (x / ?ulp))" "of_int (round_half_even (x / ?ulp)) \<le> (of_int (2 ^ 53) :: rat)"
    by (simp_all only: of_int_le_iff)
  from this [THEN mult_right_mono, OF less_imp_le [OF ulp]]
  show "2 powi ?e \<le> f64_round x" "f64_round x \<le> 2 powi (?e + 1)"
    unfolding lo hi using assms by (simp_all add: f64_round_def Let_def)
qed

lemma f64_round_pos: "0 < x \<Longrightarrow> 0 < f64_round x"
  using f64_round_bounds(1) [of x] by (meson less_le_trans zero_less_power_int zero_less_numeral)

lemma f64_round_nonneg: "0 \<le> x \<Longrightarrow> 0 \<le> f64_round x"
  using f64_round_pos [of x] by (cases "x = 0") (auto simp: f64_round_def)

lemma f64_round_mono:
  assumes "0 \<le> x" and "x \<le> y" shows "f64_round x \<le> f64_round y"
proof (cases "x = 0")
  case True
  then show ?thesis using f64_round_nonneg [of y] assms(2) by (simp add: f64_round_def)
next
  case False
  then have pos: "0 < x" "0 < y" using assms by simp_all
  have le: "f64_exponent x \<le> f64_exponent y"
  proof (rule ccontr)
    assume "\<not> ?thesis"
    then have "(2 :: rat) powi (f64_exponent y + 1) \<le> 2 powi f64_exponent x" by (intro powi_two_mono) simp
    then show False using f64_exponent_bounds(2) [OF pos(2)] f64_exponent_bounds(1) [OF pos(1)] assms(2) by linarith
  qed
  show ?thesis
  proof (cases "f64_exponent x = f64_exponent y")
    case True
    have "x / 2 powi (f64_exponent y - 52) \<le> y / 2 powi (f64_exponent y - 52)" using assms(2) by (intro divide_right_mono) simp_all
    from round_half_even_mono [OF this] show ?thesis using True pos by (simp add: f64_round_def Let_def)
  next
    case False
    have "f64_round x \<le> 2 powi (f64_exponent x + 1)" by (rule f64_round_bounds(2) [OF pos(1)])
    also have "\<dots> \<le> 2 powi f64_exponent y" using False le by (intro powi_two_mono) simp
    also have "\<dots> \<le> f64_round y" by (rule f64_round_bounds(1) [OF pos(2)])
    finally show ?thesis .
  qed
qed

text \<open>Integers of at most 53 bits are not rounded.\<close>

lemma f64_exponent_le:
  assumes "0 < x" and "x < 2 powi e" shows "f64_exponent x < e"
proof (rule ccontr)
  assume "\<not> ?thesis"
  then have "(2 :: rat) powi e \<le> 2 powi f64_exponent x" by (intro powi_two_mono) simp
  then show False using f64_exponent_bounds(1) [OF assms(1)] assms(2) by linarith
qed

lemma f64_round_nat:
  assumes "n < 2 ^ 53" shows "f64_round (of_nat n) = of_nat n"
proof (cases "n = 0")
  case False
  let ?e = "f64_exponent (of_nat n)"
  have "(of_nat n :: rat) < of_nat (2 ^ 53)" using assms by (simp only: of_nat_less_iff)
  then have "?e < 53" using False by (intro f64_exponent_le) (simp_all add: power_int_def)
  then have "0 \<le> 52 - ?e" by simp
  then obtain k where "52 - ?e = int k" by (rule nonneg_int_cases)
  then have k: "?e - 52 = - int k" by simp
  have "of_nat n / (2 :: rat) powi (?e - 52) = of_int (int n * 2 ^ k)"
    unfolding k by (simp add: power_int_minus field_simps)
  then have "round_half_even (of_nat n / (2 :: rat) powi (?e - 52)) = int n * 2 ^ k" by (simp only: round_half_even_of_int)
  then show ?thesis using False unfolding k by (simp add: f64_round_def Let_def k power_int_minus field_simps)
qed (simp add: f64_round_def)

text \<open>The relative error of rounding.\<close>

lemma f64_round_error:
  assumes "0 \<le> x"
  shows "f64_round x \<le> x * (1 + 1 / 2 ^ 52)" and "x * (1 - 1 / 2 ^ 52) \<le> f64_round x"
proof -
  have "f64_round x \<le> x * (1 + 1 / 2 ^ 52) \<and> x * (1 - 1 / 2 ^ 52) \<le> f64_round x"
  proof (cases "x = 0")
    case False
    then have pos: "0 < x" using assms by simp
    let ?ulp = "(2 :: rat) powi (f64_exponent x - 52)" and ?y = "x / 2 powi (f64_exponent x - 52)"
    have ulp: "0 < ?ulp" by simp
    have small: "?ulp \<le> x / 2 ^ 52" using f64_exponent_bounds(1) [OF pos] by (simp add: power_int_diff divide_right_mono)
    have "of_int (round_half_even ?y) \<le> (of_int (\<lfloor>?y\<rfloor> + 1) :: rat)" "(of_int \<lfloor>?y\<rfloor> :: rat) \<le> of_int (round_half_even ?y)"
      using round_half_even_bounds [of ?y] by (simp_all only: of_int_le_iff)
    moreover have "of_int \<lfloor>?y\<rfloor> \<le> ?y" "?y \<le> of_int \<lfloor>?y\<rfloor> + 1" by linarith+
    ultimately have "of_int (round_half_even ?y) \<le> ?y + 1" "?y - 1 \<le> of_int (round_half_even ?y)"
      unfolding of_int_add of_int_1 by linarith+
    from this [THEN mult_right_mono, OF less_imp_le [OF ulp]]
    have "f64_round x \<le> x + ?ulp" "x - ?ulp \<le> f64_round x"
      using pos by (simp_all add: f64_round_def Let_def algebra_simps)
    then show ?thesis using small by (simp add: algebra_simps)
  qed (simp add: f64_round_def)
  then show "f64_round x \<le> x * (1 + 1 / 2 ^ 52)" "x * (1 - 1 / 2 ^ 52) \<le> f64_round x" by simp_all
qed

section \<open>Monotone operations\<close>

lemma f64_of_nat_mono: "m \<le> n \<Longrightarrow> f64_of_nat m \<le> f64_of_nat n"
  unfolding f64_of_nat_def by (rule f64_round_mono) simp_all

lemma f64_of_nat_nonneg: "0 \<le> f64_of_nat n"
  unfolding f64_of_nat_def by (rule f64_round_nonneg) simp

lemma f64_of_nat_pos: "0 < n \<Longrightarrow> 0 < f64_of_nat n"
  unfolding f64_of_nat_def by (rule f64_round_pos) simp

lemma f64_mult_mono: "0 \<le> x \<Longrightarrow> x \<le> x' \<Longrightarrow> 0 \<le> y \<Longrightarrow> y \<le> y' \<Longrightarrow> f64_mult x y \<le> f64_mult x' y'"
  unfolding f64_mult_def by (rule f64_round_mono) (simp_all add: mult_mono)

lemma f64_mult_nonneg: "0 \<le> x \<Longrightarrow> 0 \<le> y \<Longrightarrow> 0 \<le> f64_mult x y"
  unfolding f64_mult_def by (rule f64_round_nonneg) simp

lemma f64_div_mono: "0 \<le> x \<Longrightarrow> x \<le> x' \<Longrightarrow> 0 < y \<Longrightarrow> f64_div x y \<le> f64_div x' y"
  unfolding f64_div_def by (rule f64_round_mono) (simp_all add: divide_right_mono)

lemma f64_div_nonneg: "0 \<le> x \<Longrightarrow> 0 < y \<Longrightarrow> 0 \<le> f64_div x y"
  unfolding f64_div_def by (rule f64_round_nonneg) simp

lemma f64_to_uint_mono: "x \<le> y \<Longrightarrow> f64_to_uint w x \<le> f64_to_uint w y"
  unfolding f64_to_uint_def by (intro min.mono nat_mono floor_mono) simp_all

end
