(* ===== verification/Jet_Stake.thy ===== *)
theory Jet_Stake
  imports Jet_Rpc Jet_Float
begin

text \<open>
  \<open>apps/jet/src/stake.rs\<close>: the limits that follow from a stake, the cache of the stakes of all validators and the task that
  refreshes it; and the copy of the cache in \<open>crates/tpu-client/src/rpc/stake.rs\<close>, which keeps its old values where the
  first one panics.

  The shared table is the record \<open>stake_inner\<close>, the task with its table \<open>stake_task\<close>; \<open>stake_step\<close> is one iteration of its
  loop with the answers of the node it gets in it. The lock around the table is never poisoned, since nothing
  panics while holding it. Floating point arithmetic is that of \<open>Jet_Float\<close>. The numbers of
  streams (\<open>solana_quic_definitions\<close>) are the parameter \<open>quic_limits\<close>, and the parser of keys is a parameter.
\<close>

section \<open>Limits\<close>

record quic_limits =
  min_staked_streams :: nat
  max_staked_streams :: nat
  total_staked_streams :: nat
  max_unstaked_streams :: nat

definition quic_limits_ok :: "quic_limits \<Rightarrow> bool" where
  "quic_limits_ok q \<longleftrightarrow> min_staked_streams q \<le> max_staked_streams q \<and> min_staked_streams q \<le> total_staked_streams q"

datatype connection_peer_type = UnstakedPeer | StakedPeer u64

definition compute_max_allowed_uni_streams :: "quic_limits \<Rightarrow> connection_peer_type \<Rightarrow> u64 \<Rightarrow> nat" where
  "compute_max_allowed_uni_streams q peer_type total_stake =
     (case peer_type of
        StakedPeer peer_stake \<Rightarrow>
          (if total_stake = 0 \<or> peer_stake > total_stake then min_staked_streams q
           else let delta = f64_of_nat (total_staked_streams q - min_staked_streams q);
                    ratio = f64_div (f64_of_nat (unat peer_stake)) (f64_of_nat (unat total_stake));
                    streams = f64_to_uint 64 (f64_mult ratio delta) + min_staked_streams q
                in max (min_staked_streams q) (min streams (max_staked_streams q)))
      | UnstakedPeer \<Rightarrow> max_unstaked_streams q)"

definition stake_to_per100ms_limit :: "u64 \<Rightarrow> u64 \<Rightarrow> nat" where
  "stake_to_per100ms_limit stake total_stake =
     (if stake = 0 \<or> total_stake = 0 \<or> stake > total_stake then 10
      else f64_to_uint 64
        (of_int \<lfloor>f64_div (f64_mult 160000 (f64_of_nat (unat stake))) (f64_of_nat (unat total_stake))\<rfloor>))"

definition stake_to_max_stream :: "quic_limits \<Rightarrow> u64 \<Rightarrow> u64 \<Rightarrow> nat" where
  "stake_to_max_stream q stake total_stake =
     (if stake = 0 then max_unstaked_streams q
      else compute_max_allowed_uni_streams q (StakedPeer stake) total_stake)"

section \<open>The table\<close>

record vote_account_info =
  va_node_pubkey :: string
  va_activated_stake :: u64

record vote_account_status =
  vs_current :: "vote_account_info list"
  vs_delinquent :: "vote_account_info list"

record stake_inner =
  si_mapping :: "(pubkey, u64) hmap"
  si_total_stake :: u64

fun parse_accounts :: "(string \<Rightarrow> pubkey option) \<Rightarrow> vote_account_info list \<Rightarrow> (pubkey \<times> u64) list option" where
  "parse_accounts parse [] = Some []"
| "parse_accounts parse (info # rest) =
     (case parse (va_node_pubkey info) of
        None \<Rightarrow> None
      | Some pubkey \<Rightarrow> map_option ((#) (pubkey, va_activated_stake info)) (parse_accounts parse rest))"

definition extract_node_stake_mapping :: "(string \<Rightarrow> pubkey option) \<Rightarrow> vote_account_status \<Rightarrow> (pubkey, u64) hmap res" where
  "extract_node_stake_mapping parse status =
     expect ''Failed to parse validator accounts''
       (map_option hm_of_list (parse_accounts parse (vs_current status @ vs_delinquent status)))"

record validator_stake_limits =
  vl_max_streams :: nat
  vl_per100ms_limit :: nat

definition limits_unstaked :: "quic_limits \<Rightarrow> validator_stake_limits" where
  "limits_unstaked q = \<lparr>vl_max_streams = max_unstaked_streams q, vl_per100ms_limit = 10\<rparr>"

definition get_stake_info :: "stake_inner \<Rightarrow> pubkey \<Rightarrow> u64 option" where
  "get_stake_info inner validator_identity = hm_get (si_mapping inner) validator_identity"

definition get_stake_info_with_total_stake :: "stake_inner \<Rightarrow> pubkey \<Rightarrow> (u64 \<times> u64) option" where
  "get_stake_info_with_total_stake inner validator_identity =
     map_option (\<lambda>stake. (stake, si_total_stake inner)) (hm_get (si_mapping inner) validator_identity)"

definition get_stake_limits :: "quic_limits \<Rightarrow> stake_inner \<Rightarrow> pubkey \<Rightarrow> validator_stake_limits" where
  "get_stake_limits q inner validator_identity =
     (case hm_get (si_mapping inner) validator_identity of
        Some stake \<Rightarrow> \<lparr>vl_max_streams = stake_to_max_stream q stake (si_total_stake inner),
                       vl_per100ms_limit = stake_to_per100ms_limit stake (si_total_stake inner)\<rparr>
      | None \<Rightarrow> limits_unstaked q)"

definition get_total_stake :: "stake_inner \<Rightarrow> u64" where
  "get_total_stake inner = si_total_stake inner"

definition stake_inner_of :: "(pubkey, u64) hmap \<Rightarrow> stake_inner" where
  "stake_inner_of mapping = \<lparr>si_mapping = mapping, si_total_stake = sum_list (hm_values mapping)\<rparr>"

definition stake_constant :: "(pubkey \<times> u64) list \<Rightarrow> stake_inner" where
  "stake_constant entries = stake_inner_of (hm_of_list entries)"

definition stake_empty :: stake_inner where
  "stake_empty = stake_constant []"

text \<open>The limit the gRPC client of \<open>grpc_jet.rs\<close> announces: the configured one, unless the stake allows less.\<close>

definition messages_per100ms :: "nat option \<Rightarrow> validator_stake_limits \<Rightarrow> nat" where
  "messages_per100ms configured limits =
     (case configured of
        Some proposed \<Rightarrow> (if proposed \<le> vl_per100ms_limit limits then proposed else vl_per100ms_limit limits)
      | None \<Rightarrow> vl_per100ms_limit limits)"

section \<open>The refresh task\<close>

datatype stake_command = ManualRefresh | StopRefresh

record stake_task =
  sk_last_refresh :: instant
  sk_interval :: duration
  sk_shared :: stake_inner
  sk_current_epoch :: u64
  sk_callbacks :: nat
  sk_running :: bool

text \<open>What the node answers during one refresh, and the times at its start and end.\<close>

record stake_answers =
  an_started :: instant
  an_epoch :: "client_error + u64"
  an_votes :: "client_error + vote_account_status"
  an_finished :: instant

definition refresh :: "(string \<Rightarrow> pubkey option) \<Rightarrow> bool \<Rightarrow> stake_answers \<Rightarrow> stake_task \<Rightarrow> stake_task res" where
  "refresh parse force answers t =
     (let t1 = t\<lparr>sk_last_refresh := an_started answers\<rparr>
      in case an_epoch answers of
           Inl err \<Rightarrow> if is_transient err then Inr t1 else Inl (Panic ''Failed to get epoch info'')
         | Inr current_epoch \<Rightarrow>
             if sk_current_epoch t1 = current_epoch \<and> \<not> force then Inr t1
             else let t2 = t1\<lparr>sk_current_epoch := current_epoch\<rparr>
                  in res_bind
                       (case an_votes answers of
                          Inr resp \<Rightarrow>
                            res_bind (extract_node_stake_mapping parse resp) (\<lambda>stake_mappings.
                              Inr (t2\<lparr>sk_shared := stake_inner_of stake_mappings\<rparr>))
                        | Inl err \<Rightarrow> if is_transient err then Inr t2 else Inl (Panic ''Failed to get vote accounts''))
                       (\<lambda>t3. Inr (t3\<lparr>sk_last_refresh := an_finished answers\<rparr>)))"

datatype stake_event =
    RefreshDue stake_answers
  | RefreshCancelled
  | CommandReceived stake_command stake_answers
  | CommandsClosed

text \<open>
  One iteration of \<open>run\<close>. The timer does not fire before the next refresh is due.
\<close>

definition stake_step :: "(string \<Rightarrow> pubkey option) \<Rightarrow> stake_event \<Rightarrow> stake_task \<Rightarrow> stake_task res" where
  "stake_step parse ev t =
     (if \<not> sk_running t then Inr t
      else case ev of
        RefreshDue answers \<Rightarrow>
          if an_started answers < sk_last_refresh t + sk_interval t then Inr t else refresh parse False answers t
      | RefreshCancelled \<Rightarrow> Inr (t\<lparr>sk_running := False\<rparr>)
      | CommandReceived command answers \<Rightarrow>
          (case command of
             ManualRefresh \<Rightarrow>
               res_bind (refresh parse True answers t) (\<lambda>t1. Inr (t1\<lparr>sk_callbacks := sk_callbacks t1 + 1\<rparr>))
           | StopRefresh \<Rightarrow> Inr (t\<lparr>sk_running := False\<rparr>))
      | CommandsClosed \<Rightarrow> Inr (t\<lparr>sk_running := False\<rparr>))"

fun stake_run :: "(string \<Rightarrow> pubkey option) \<Rightarrow> stake_event list \<Rightarrow> stake_task \<Rightarrow> stake_task res" where
  "stake_run parse [] t = Inr t"
| "stake_run parse (ev # evs) t = res_bind (stake_step parse ev t) (stake_run parse evs)"

definition spawn_cache_stake_info_map ::
  "(string \<Rightarrow> pubkey option) \<Rightarrow> client_error + vote_account_status \<Rightarrow> client_error + u64 \<Rightarrow> instant \<Rightarrow> duration \<Rightarrow> stake_task res" where
  "spawn_cache_stake_info_map parse votes epoch_info now interval =
     (case votes of
        Inl _ \<Rightarrow> Inl (Panic ''Failed to get vote accounts'')
      | Inr initial_value \<Rightarrow>
          (case epoch_info of
             Inl _ \<Rightarrow> Inl (Panic ''Failed to get epoch info'')
           | Inr current_epoch \<Rightarrow>
               res_bind (extract_node_stake_mapping parse initial_value) (\<lambda>initial_stake_mappings.
                 Inr \<lparr>sk_last_refresh = now, sk_interval = interval, sk_shared = stake_inner_of initial_stake_mappings,
                      sk_current_epoch = current_epoch, sk_callbacks = 0, sk_running = True\<rparr>)))"

section \<open>The cache of the TPU client\<close>

definition tpu_extract_node_stake_mapping :: "(string \<Rightarrow> pubkey option) \<Rightarrow> vote_account_status \<Rightarrow> (pubkey, u64) hmap" where
  "tpu_extract_node_stake_mapping parse status =
     hm_of_list (List.map_filter
       (\<lambda>info. map_option (\<lambda>pubkey. (pubkey, va_activated_stake info)) (parse (va_node_pubkey info)))
       (vs_current status @ vs_delinquent status))"

definition tpu_refresh :: "(string \<Rightarrow> pubkey option) \<Rightarrow> bool \<Rightarrow> stake_answers \<Rightarrow> stake_task \<Rightarrow> stake_task" where
  "tpu_refresh parse force answers t =
     (let t1 = t\<lparr>sk_last_refresh := an_started answers\<rparr>
      in case an_epoch answers of
           Inl err \<Rightarrow> t1
         | Inr current_epoch \<Rightarrow>
             if sk_current_epoch t1 = current_epoch \<and> \<not> force then t1
             else let t2 = t1\<lparr>sk_current_epoch := current_epoch\<rparr>;
                      t3 = (case an_votes answers of
                              Inr resp \<Rightarrow> t2\<lparr>sk_shared := stake_inner_of (tpu_extract_node_stake_mapping parse resp)\<rparr>
                            | Inl err \<Rightarrow> t2)
                  in t3\<lparr>sk_last_refresh := an_finished answers\<rparr>)"

definition tpu_stake_step :: "(string \<Rightarrow> pubkey option) \<Rightarrow> stake_event \<Rightarrow> stake_task \<Rightarrow> stake_task" where
  "tpu_stake_step parse ev t =
     (if \<not> sk_running t then t
      else case ev of
        RefreshDue answers \<Rightarrow>
          if an_started answers < sk_last_refresh t + sk_interval t then t else tpu_refresh parse False answers t
      | RefreshCancelled \<Rightarrow> t\<lparr>sk_running := False\<rparr>
      | CommandReceived command answers \<Rightarrow>
          (case command of
             ManualRefresh \<Rightarrow> let t1 = tpu_refresh parse True answers t in t1\<lparr>sk_callbacks := sk_callbacks t1 + 1\<rparr>
           | StopRefresh \<Rightarrow> t\<lparr>sk_running := False\<rparr>)
      | CommandsClosed \<Rightarrow> t\<lparr>sk_running := False\<rparr>)"

definition build_validator_stake_info_service ::
  "(string \<Rightarrow> pubkey option) \<Rightarrow> client_error + vote_account_status \<Rightarrow> client_error + u64 \<Rightarrow> instant \<Rightarrow> duration \<Rightarrow> client_error + stake_task" where
  "build_validator_stake_info_service parse votes epoch_info now interval =
     (case votes of
        Inl err \<Rightarrow> Inl err
      | Inr initial_value \<Rightarrow>
          (case epoch_info of
             Inl err \<Rightarrow> Inl err
           | Inr current_epoch \<Rightarrow>
               Inr \<lparr>sk_last_refresh = now, sk_interval = interval,
                    sk_shared = stake_inner_of (tpu_extract_node_stake_mapping parse initial_value),
                    sk_current_epoch = current_epoch, sk_callbacks = 0, sk_running = True\<rparr>))"

section \<open>Limits are monotone and bounded\<close>

lemma staked_streams_bounds:
  assumes "quic_limits_ok q"
  shows "min_staked_streams q \<le> compute_max_allowed_uni_streams q (StakedPeer s) tot"
    and "compute_max_allowed_uni_streams q (StakedPeer s) tot \<le> max_staked_streams q"
  using assms by (auto simp: compute_max_allowed_uni_streams_def quic_limits_ok_def Let_def)

lemma unat_word_le: "(s :: u64) \<le> t \<Longrightarrow> unat s \<le> unat t"
  by (simp add: word_le_nat_alt)

lemma unat_word_pos: "(s :: u64) \<noteq> 0 \<Longrightarrow> 0 < unat s"
  by (simp add: unat_gt_0)

lemma staked_streams_mono:
  assumes "s \<le> s'" and "s' \<le> tot"
  shows "compute_max_allowed_uni_streams q (StakedPeer s) tot \<le> compute_max_allowed_uni_streams q (StakedPeer s') tot"
proof (cases "tot = 0")
  case False
  let ?t = "f64_of_nat (unat tot)" and ?d = "f64_of_nat (total_staked_streams q - min_staked_streams q)"
  have t: "0 < ?t" using unat_word_pos [OF False] by (rule f64_of_nat_pos)
  have "f64_of_nat (unat s) \<le> f64_of_nat (unat s')" using assms(1) by (intro f64_of_nat_mono unat_word_le)
  then have "f64_div (f64_of_nat (unat s)) ?t \<le> f64_div (f64_of_nat (unat s')) ?t"
    using t f64_of_nat_nonneg by (intro f64_div_mono)
  then have "f64_mult (f64_div (f64_of_nat (unat s)) ?t) ?d \<le> f64_mult (f64_div (f64_of_nat (unat s')) ?t) ?d"
    using t f64_of_nat_nonneg by (intro f64_mult_mono f64_div_nonneg order_refl)
  from f64_to_uint_mono [OF this, of 64]
  have "max (min_staked_streams q) (min (f64_to_uint 64 (f64_mult (f64_div (f64_of_nat (unat s)) ?t) ?d) + min_staked_streams q) (max_staked_streams q))
      \<le> max (min_staked_streams q) (min (f64_to_uint 64 (f64_mult (f64_div (f64_of_nat (unat s')) ?t) ?d) + min_staked_streams q) (max_staked_streams q))"
    by (intro max.mono min.mono) simp_all
  then show ?thesis using assms False by (simp add: compute_max_allowed_uni_streams_def Let_def)
qed (simp add: compute_max_allowed_uni_streams_def)

text \<open>The quotient behind the limit per 100 ms, before it is rounded down.\<close>

definition per100ms_quotient :: "u64 \<Rightarrow> u64 \<Rightarrow> rat" where
  "per100ms_quotient s tot = f64_div (f64_mult 160000 (f64_of_nat (unat s))) (f64_of_nat (unat tot))"

lemma per100ms_limit_eq:
  assumes "s \<noteq> 0" and "s \<le> tot"
  shows "stake_to_per100ms_limit s tot = f64_to_uint 64 (of_int \<lfloor>per100ms_quotient s tot\<rfloor>)"
proof -
  have "tot \<noteq> 0" using unat_word_pos [OF assms(1)] unat_word_le [OF assms(2)] by auto
  moreover have "\<not> s > tot" using assms(2) by (rule leD)
  ultimately show ?thesis using assms(1) by (simp add: stake_to_per100ms_limit_def per100ms_quotient_def)
qed

lemma per100ms_quotient_nonneg: "tot \<noteq> 0 \<Longrightarrow> 0 \<le> per100ms_quotient s tot"
  unfolding per100ms_quotient_def
  by (intro f64_div_nonneg f64_mult_nonneg f64_of_nat_nonneg f64_of_nat_pos unat_word_pos) simp_all

lemma per100ms_quotient_mono:
  assumes "s \<le> s'" and "tot \<noteq> 0" shows "per100ms_quotient s tot \<le> per100ms_quotient s' tot"
  unfolding per100ms_quotient_def using assms
  by (intro f64_div_mono f64_mult_mono f64_mult_nonneg f64_of_nat_mono f64_of_nat_nonneg f64_of_nat_pos unat_word_le unat_word_pos) simp_all

text \<open>An upper bound for the quotient: three roundings up and one down, each by less than one part in \<open>2 ^ 52\<close>.\<close>

lemma per100ms_quotient_le:
  assumes "tot \<noteq> 0" and "of_nat (unat s) \<le> c * (of_nat (unat tot) :: rat)" and "0 \<le> c"
  shows "per100ms_quotient s tot \<le> c * (320001 / 2)"
proof -
  let ?e = "1 / 2 ^ 52 :: rat"
  define S T where "S = (of_nat (unat s) :: rat)" and "T = (of_nat (unat tot) :: rat)"
  have s: "0 \<le> S" unfolding S_def by (rule of_nat_0_le_iff)
  let ?sf = "f64_of_nat (unat s)" and ?tf = "f64_of_nat (unat tot)"
  have t: "0 < T" unfolding T_def using unat_word_pos [OF assms(1)] by (simp only: of_nat_0_less_iff)
  have tf: "0 < ?tf" using unat_word_pos [OF assms(1)] by (rule f64_of_nat_pos)
  have "?sf \<le> S * (1 + ?e)" unfolding f64_of_nat_def S_def by (rule f64_round_error) (rule of_nat_0_le_iff)
  moreover have "f64_mult 160000 ?sf \<le> 160000 * ?sf * (1 + ?e)"
    unfolding f64_mult_def by (rule f64_round_error) (simp add: f64_of_nat_nonneg)
  moreover have "160000 * ?sf * (1 + ?e) \<le> 160000 * (S * (1 + ?e)) * (1 + ?e)" using calculation(1) by (intro mult_right_mono mult_left_mono) simp_all
  ultimately have num: "f64_mult 160000 ?sf \<le> 160000 * S * (1 + ?e) ^ 2" by (simp add: power2_eq_square mult_ac)
  have "T * (1 - ?e) \<le> ?tf" unfolding f64_of_nat_def T_def by (rule f64_round_error) (rule of_nat_0_le_iff)
  then have den: "f64_mult 160000 ?sf / ?tf \<le> 160000 * S * (1 + ?e) ^ 2 / (T * (1 - ?e))"
    using num t s by (intro frac_le) (simp_all add: f64_mult_nonneg f64_of_nat_nonneg)
  have "per100ms_quotient s tot \<le> f64_mult 160000 ?sf / ?tf * (1 + ?e)"
    unfolding per100ms_quotient_def f64_div_def using tf
    by (intro f64_round_error divide_nonneg_pos) (simp_all add: f64_mult_nonneg f64_of_nat_nonneg)
  also have "\<dots> \<le> 160000 * S * (1 + ?e) ^ 2 / (T * (1 - ?e)) * (1 + ?e)" using den by (rule mult_right_mono) simp
  also have "\<dots> = S / T * (160000 * (1 + ?e) ^ 3 / (1 - ?e))" by (simp add: power3_eq_cube power2_eq_square)
  also have "\<dots> \<le> c * (160000 * (1 + ?e) ^ 3 / (1 - ?e))"
    using assms(2) [folded S_def T_def] t by (intro mult_right_mono) (simp_all add: divide_le_eq)
  also have "\<dots> \<le> c * (320001 / 2)" using assms(3) by (intro mult_left_mono) (simp_all add: power3_eq_cube divide_le_eq)
  finally show ?thesis .
qed

lemma f64_to_uint_le: "x < of_nat (Suc n) \<Longrightarrow> 0 \<le> x \<Longrightarrow> f64_to_uint w x \<le> n"
proof -
  assume "x < of_nat (Suc n)" "0 \<le> x"
  then have "\<lfloor>x\<rfloor> < int (Suc n)" by (simp only: floor_less_iff of_int_of_nat_eq)
  then have "nat \<lfloor>x\<rfloor> \<le> n" by linarith
  then show ?thesis by (simp add: f64_to_uint_def)
qed

lemma per100ms_limit_le:
  assumes "s \<noteq> 0" and "s \<le> tot" and "per100ms_quotient s tot < of_nat (Suc n)"
  shows "stake_to_per100ms_limit s tot \<le> n"
proof -
  have "tot \<noteq> 0" using unat_word_pos [OF assms(1)] unat_word_le [OF assms(2)] by auto
  then have nonneg: "0 \<le> per100ms_quotient s tot" by (rule per100ms_quotient_nonneg)
  then have "(0 :: rat) \<le> of_int \<lfloor>per100ms_quotient s tot\<rfloor>" "of_int \<lfloor>per100ms_quotient s tot\<rfloor> < (of_nat (Suc n) :: rat)"
    using assms(3) by (simp, meson of_int_floor_le le_less_trans)
  then show ?thesis unfolding per100ms_limit_eq [OF assms(1,2)] by (intro f64_to_uint_le)
qed

text \<open>
  C27. The limits of a validator grow with its stake: of two validators with a stake the one with more gets at least as many
  streams and at least as many messages per 100 ms, rounding of floating point numbers included. The streams lie
  between the two bounds for staked connections, the messages are at most 160000.
\<close>

theorem stake_limits_monotone:
  assumes "quic_limits_ok q" and "s \<noteq> 0" and "s \<le> s'" and "s' \<le> tot"
  shows "stake_to_max_stream q s tot \<le> stake_to_max_stream q s' tot \<and>
    min_staked_streams q \<le> stake_to_max_stream q s tot \<and> stake_to_max_stream q s' tot \<le> max_staked_streams q \<and>
    stake_to_per100ms_limit s tot \<le> stake_to_per100ms_limit s' tot \<and> stake_to_per100ms_limit s' tot \<le> 160000"
proof -
  have s': "s' \<noteq> 0" using unat_word_pos [OF assms(2)] unat_word_le [OF assms(3)] by auto
  have tot: "tot \<noteq> 0" using unat_word_pos [OF s'] unat_word_le [OF assms(4)] by auto
  have le: "s \<le> tot" using assms(3,4) by (rule order_trans)
  have "stake_to_per100ms_limit s tot \<le> stake_to_per100ms_limit s' tot"
    unfolding per100ms_limit_eq [OF assms(2) le] per100ms_limit_eq [OF s' assms(4)]
    using per100ms_quotient_mono [OF assms(3) tot] by (intro f64_to_uint_mono) (simp add: floor_mono)
  moreover have "per100ms_quotient s' tot \<le> 1 * (320001 / 2)"
    using unat_word_le [OF assms(4)] by (intro per100ms_quotient_le tot) (simp_all only: mult_1 of_nat_le_iff zero_le_one)
  then have "per100ms_quotient s' tot < of_nat (Suc 160000)" by simp
  ultimately show ?thesis
    using staked_streams_bounds [OF assms(1)] staked_streams_mono [OF assms(3,4)] assms(2) s' per100ms_limit_le [OF s' assms(4)]
    by (simp add: stake_to_max_stream_def)
qed

text \<open>
  A small stake is worse than none: a validator with at most one part in 320000 of the total stake gets no messages
  at all, while one without stake gets ten per 100 ms.
\<close>

theorem small_stake_gets_nothing:
  assumes "s \<noteq> 0" and "320000 * unat s \<le> unat tot"
  shows "stake_to_per100ms_limit s tot = 0 \<and> stake_to_per100ms_limit 0 tot = 10 \<and>
    messages_per100ms configured
      (get_stake_limits q \<lparr>si_mapping = [(validator, s)], si_total_stake = tot\<rparr> validator) = 0 \<and>
    messages_per100ms None (get_stake_limits q \<lparr>si_mapping = [], si_total_stake = tot\<rparr> validator) = 10"
proof -
  have le: "s \<le> tot" using assms(2) by (simp add: word_le_nat_alt)
  have tot: "tot \<noteq> 0" using unat_word_pos [OF assms(1)] unat_word_le [OF le] by auto
  have "(of_nat (320000 * unat s) :: rat) \<le> of_nat (unat tot)" using assms(2) by (simp only: of_nat_le_iff)
  then have "of_nat (unat s) \<le> 1 / 320000 * (of_nat (unat tot) :: rat)" by simp
  from per100ms_quotient_le [OF tot this] have "per100ms_quotient s tot < of_nat (Suc 0)" by simp
  from per100ms_limit_le [OF assms(1) le this] have "stake_to_per100ms_limit s tot = 0" by simp
  then show ?thesis
    by (simp add: messages_per100ms_def get_stake_limits_def limits_unstaked_def stake_to_per100ms_limit_def split: option.split)
qed

definition ex_quic_limits :: quic_limits where
  "ex_quic_limits = \<lparr>min_staked_streams = 128, max_staked_streams = 512, total_staked_streams = 100000, max_unstaked_streams = 128\<rparr>"

theorem stake_limits_monotone_witness:
  "quic_limits_ok ex_quic_limits \<and>
   stake_to_max_stream ex_quic_limits 5 100 \<le> stake_to_max_stream ex_quic_limits 7 100 \<and>
   stake_to_per100ms_limit 5 100 \<le> stake_to_per100ms_limit 7 100"
proof -
  have ok: "quic_limits_ok ex_quic_limits" by (simp add: quic_limits_ok_def ex_quic_limits_def)
  from stake_limits_monotone [OF ok, of 5 7 100] ok show ?thesis by simp
qed

theorem small_stake_gets_nothing_witness:
  "stake_to_per100ms_limit 1 400000 = 0 \<and> stake_to_per100ms_limit 0 400000 = 10"
  using small_stake_gets_nothing [of 1 400000] by simp

section \<open>The cache\<close>

fun answered_votes :: "stake_event \<Rightarrow> vote_account_status set" where
  "answered_votes (RefreshDue answers) = {votes. an_votes answers = Inr votes}"
| "answered_votes (CommandReceived _ answers) = {votes. an_votes answers = Inr votes}"
| "answered_votes _ = {}"

text \<open>The table is the whole of one answer of the node.\<close>

definition table_of :: "(string \<Rightarrow> pubkey option) \<Rightarrow> vote_account_status \<Rightarrow> stake_inner \<Rightarrow> bool" where
  "table_of parse votes inner \<longleftrightarrow>
     (\<exists>mapping. extract_node_stake_mapping parse votes = Inr mapping \<and> inner = stake_inner_of mapping)"

lemma refresh_table:
  assumes "refresh parse force answers t = Inr t'"
  shows "sk_shared t' = sk_shared t \<or> (\<exists>votes. an_votes answers = Inr votes \<and> table_of parse votes (sk_shared t'))"
    and "sk_running t' = sk_running t"
  using assms by (auto simp: refresh_def table_of_def Let_def split: sum.splits if_splits)

lemma stake_step_table:
  assumes "stake_step parse ev t = Inr t'"
  shows "sk_shared t' = sk_shared t \<or> (\<exists>votes \<in> answered_votes ev. table_of parse votes (sk_shared t'))"
  using assms by (cases ev) (auto simp: stake_step_def dest!: refresh_table(1) split: if_splits stake_command.splits)

lemma stake_run_table:
  assumes "stake_run parse evs t = Inr t'" and "\<exists>votes \<in> V. table_of parse votes (sk_shared t)"
  shows "\<exists>votes \<in> V \<union> (\<Union>ev \<in> set evs. answered_votes ev). table_of parse votes (sk_shared t')"
  using assms
proof (induction evs arbitrary: t V)
  case (Cons ev evs)
  then obtain t1 where t1: "stake_step parse ev t = Inr t1" "stake_run parse evs t1 = Inr t'" by auto
  have "\<exists>votes \<in> V \<union> answered_votes ev. table_of parse votes (sk_shared t1)"
    using stake_step_table [OF t1(1)] Cons.prems(2) by auto
  from Cons.IH [OF t1(2) this] show ?case by (simp add: Un_assoc)
qed simp

text \<open>
  The stake table is consistent at every moment: it holds all entries of one answer of the node and nothing of any other
  answer, each validator once, and the total stake is the sum of exactly these entries.
\<close>

theorem stake_table_consistent:
  assumes "spawn_cache_stake_info_map parse (Inr votes) epoch_info now interval = Inr t0"
    and "stake_run parse evs t0 = Inr t"
  shows "\<exists>votes' \<in> insert votes (\<Union>ev \<in> set evs. answered_votes ev).
    extract_node_stake_mapping parse votes' = Inr (si_mapping (sk_shared t)) \<and>
    hm_wf (si_mapping (sk_shared t)) \<and> get_total_stake (sk_shared t) = sum_list (hm_values (si_mapping (sk_shared t)))"
proof -
  have "\<exists>votes' \<in> {votes}. table_of parse votes' (sk_shared t0)"
    using assms(1) by (auto simp: spawn_cache_stake_info_map_def table_of_def split: sum.splits)
  from stake_run_table [OF assms(2) this] obtain votes' mapping
    where v: "votes' \<in> insert votes (\<Union>ev \<in> set evs. answered_votes ev)"
      "extract_node_stake_mapping parse votes' = Inr mapping" "sk_shared t = stake_inner_of mapping"
    unfolding table_of_def by auto
  have "hm_wf mapping" using v(2) by (auto simp: extract_node_stake_mapping_def hm_wf_of_list)
  with v show ?thesis by (auto simp: stake_inner_of_def get_total_stake_def)
qed

section \<open>A missed refresh\<close>

text \<open>An event of the timer during the given epoch.\<close>

definition timer_in_epoch :: "u64 \<Rightarrow> stake_event \<Rightarrow> bool" where
  "timer_in_epoch epoch ev \<longleftrightarrow> (case ev of RefreshDue answers \<Rightarrow> an_epoch answers = Inr epoch | _ \<Rightarrow> False)"

lemma timer_skips:
  assumes "timer_in_epoch epoch ev" and "sk_current_epoch t = epoch"
  shows "\<exists>t'. stake_step parse ev t = Inr t' \<and> tpu_stake_step parse ev t = t' \<and> sk_shared t' = sk_shared t \<and> sk_current_epoch t' = epoch"
  using assms by (auto simp: timer_in_epoch_def stake_step_def tpu_stake_step_def refresh_def tpu_refresh_def split: stake_event.splits)

lemma timers_skip:
  assumes "list_all (timer_in_epoch epoch) evs" and "sk_current_epoch t = epoch"
  shows "\<exists>t'. stake_run parse evs t = Inr t' \<and> fold (tpu_stake_step parse) evs t = t' \<and> sk_shared t' = sk_shared t"
  using assms
proof (induction evs arbitrary: t)
  case (Cons ev evs)
  obtain t1 where "stake_step parse ev t = Inr t1" "tpu_stake_step parse ev t = t1" "sk_shared t1 = sk_shared t" "sk_current_epoch t1 = epoch"
    using timer_skips [of epoch ev t parse] Cons.prems by auto
  then show ?case using Cons.IH [of t1] Cons.prems(1) by auto
qed simp

text \<open>
  C28. A refresh that fails is not made up for. The task notes the new epoch before it asks for the stakes; when that
  call fails with a transient error, every later refresh by the timer in the same epoch is skipped, and the stakes of the
  previous epoch stay in use until the epoch ends, in both versions of the cache.
\<close>

theorem failed_refresh_not_repeated:
  assumes "sk_running t" and "sk_last_refresh t + sk_interval t \<le> an_started answers"
    and "an_epoch answers = Inr epoch" and "sk_current_epoch t \<noteq> epoch"
    and "an_votes answers = Inl err" and "is_transient err"
    and "list_all (timer_in_epoch epoch) evs"
  shows "\<exists>t'. stake_run parse (RefreshDue answers # evs) t = Inr t' \<and> sk_shared t' = sk_shared t \<and>
    sk_shared (fold (tpu_stake_step parse) (RefreshDue answers # evs) t) = sk_shared t"
proof -
  let ?t = "t\<lparr>sk_last_refresh := an_finished answers, sk_current_epoch := epoch\<rparr>"
  have "stake_step parse (RefreshDue answers) t = Inr ?t" "tpu_stake_step parse (RefreshDue answers) t = ?t"
    using assms by (simp_all add: stake_step_def tpu_stake_step_def refresh_def tpu_refresh_def)
  then show ?thesis using timers_skip [OF assms(7), of ?t parse] by auto
qed

section \<open>The two versions agree\<close>

lemma parse_accounts_map_filter:
  "parse_accounts parse infos = Some entries \<Longrightarrow>
     entries = List.map_filter (\<lambda>info. map_option (\<lambda>pubkey. (pubkey, va_activated_stake info)) (parse (va_node_pubkey info))) infos"
  by (induction infos arbitrary: entries) (auto simp: map_filter_simps split: option.splits)

lemma extract_agrees:
  "extract_node_stake_mapping parse status = Inr mapping \<Longrightarrow> tpu_extract_node_stake_mapping parse status = mapping"
  using parse_accounts_map_filter [of parse "vs_current status @ vs_delinquent status"]
  by (auto simp: extract_node_stake_mapping_def tpu_extract_node_stake_mapping_def)

lemma refresh_agrees: "refresh parse force answers t = Inr t' \<Longrightarrow> tpu_refresh parse force answers t = t'"
  by (auto simp: refresh_def tpu_refresh_def Let_def extract_agrees split: sum.splits if_splits)

lemma stake_step_agrees: "stake_step parse ev t = Inr t' \<Longrightarrow> tpu_stake_step parse ev t = t'"
  by (cases ev) (auto simp: stake_step_def tpu_stake_step_def Let_def dest!: refresh_agrees split: if_splits stake_command.splits)

text \<open>
  The cache of the TPU client does what the one of the relay does whenever that one does not panic, from its
  creation on and for every run.
\<close>

theorem stake_caches_agree:
  assumes "spawn_cache_stake_info_map parse votes epoch_info now interval = Inr t0" and "stake_run parse evs t0 = Inr t"
  shows "\<exists>t1. build_validator_stake_info_service parse votes epoch_info now interval = Inr t1 \<and>
    fold (tpu_stake_step parse) evs t1 = t"
proof -
  have "fold (tpu_stake_step parse) evs t0 = t" using assms(2)
    by (induction evs arbitrary: t0) (auto dest!: stake_step_agrees)
  moreover have "build_validator_stake_info_service parse votes epoch_info now interval = Inr t0"
    using assms(1) by (auto simp: spawn_cache_stake_info_map_def build_validator_stake_info_service_def extract_agrees split: sum.splits)
  ultimately show ?thesis by blast
qed

section \<open>A concrete run\<close>

definition ex_parse_key :: "string \<Rightarrow> pubkey option" where
  "ex_parse_key s = (if s = ''a'' then Some (Pubkey 1) else if s = ''b'' then Some (Pubkey 2) else None)"

definition ex_votes :: "u64 \<Rightarrow> vote_account_status" where
  "ex_votes n = \<lparr>vs_current = [\<lparr>va_node_pubkey = ''a'', va_activated_stake = n\<rparr>],
                 vs_delinquent = [\<lparr>va_node_pubkey = ''b'', va_activated_stake = 7\<rparr>]\<rparr>"

definition ex_answers :: "instant \<Rightarrow> u64 \<Rightarrow> client_error + vote_account_status \<Rightarrow> stake_answers" where
  "ex_answers now epoch votes = \<lparr>an_started = now, an_epoch = Inr epoch, an_votes = votes, an_finished = now + 1\<rparr>"

definition ex_stake_task :: stake_task where
  "ex_stake_task = \<lparr>sk_last_refresh = 0, sk_interval = 10,
     sk_shared = \<lparr>si_mapping = [(Pubkey 1, 5), (Pubkey 2, 7)], si_total_stake = 12\<rparr>,
     sk_current_epoch = 3, sk_callbacks = 0, sk_running = True\<rparr>"

lemmas stake_eval = ex_parse_key_def ex_votes_def ex_answers_def ex_stake_task_def stake_step_def refresh_def
  extract_node_stake_mapping_def hm_of_list_def stake_inner_of_def spawn_cache_stake_info_map_def
  tpu_stake_step_def tpu_refresh_def tpu_extract_node_stake_mapping_def build_validator_stake_info_service_def map_filter_simps

lemma ex_stake_spawn: "spawn_cache_stake_info_map ex_parse_key (Inr (ex_votes 5)) (Inr 3) 0 10 = Inr ex_stake_task"
  by (simp add: stake_eval)

lemma ex_stake_run:
  "stake_run ex_parse_key [RefreshDue (ex_answers 20 4 (Inr (ex_votes 6)))] ex_stake_task =
     Inr (ex_stake_task\<lparr>sk_last_refresh := 21, sk_current_epoch := 4,
       sk_shared := \<lparr>si_mapping = [(Pubkey 1, 6), (Pubkey 2, 7)], si_total_stake = 13\<rparr>\<rparr>)"
  by (simp add: stake_eval)

theorem stake_table_consistent_witness:
  "\<exists>t. stake_run ex_parse_key [RefreshDue (ex_answers 20 4 (Inr (ex_votes 6)))] ex_stake_task = Inr t \<and>
     get_total_stake (sk_shared t) = sum_list (hm_values (si_mapping (sk_shared t))) \<and> get_total_stake (sk_shared t) = 13"
  using stake_table_consistent [OF ex_stake_spawn ex_stake_run] ex_stake_run by (auto simp: get_total_stake_def)

theorem failed_refresh_not_repeated_witness:
  "\<exists>t'. stake_run ex_parse_key [RefreshDue (ex_answers 20 4 (Inl ErrIo)), RefreshDue (ex_answers 40 4 (Inr (ex_votes 6)))]
     ex_stake_task = Inr t' \<and> sk_shared t' = sk_shared ex_stake_task"
proof -
  have "list_all (timer_in_epoch 4) [RefreshDue (ex_answers 40 4 (Inr (ex_votes 6)))]"
    by (simp add: timer_in_epoch_def ex_answers_def)
  from failed_refresh_not_repeated [OF _ _ _ _ _ _ this, of ex_stake_task "ex_answers 20 4 (Inl ErrIo)" ErrIo ex_parse_key]
  show ?thesis by (simp add: ex_stake_task_def ex_answers_def) blast
qed

theorem stake_caches_agree_witness:
  "\<exists>t1 t. build_validator_stake_info_service ex_parse_key (Inr (ex_votes 5)) (Inr 3) 0 10 = Inr t1 \<and>
     fold (tpu_stake_step ex_parse_key) [RefreshDue (ex_answers 20 4 (Inr (ex_votes 6)))] t1 = t \<and> get_total_stake (sk_shared t) = 13"
  using stake_caches_agree [OF ex_stake_spawn ex_stake_run] by (auto simp: get_total_stake_def)

end
