(* ===== verification/Tpu_Schedule.thy ===== *)
theory Tpu_Schedule
  imports Jet_Rpc
begin

text \<open>
  Slots and leaders in the TPU client: \<open>crates/tpu-client/src/slot.rs\<close>, \<open>yellowstone_grpc/slot_tracker.rs\<close>,
  \<open>rpc/schedule.rs\<close> and \<open>yellowstone_grpc/schedule.rs\<close>.

  \<open>AtomicSlotTracker\<close> is the record \<open>slot_tracker\<close>; its task is a run over the streams it was given, each with what
  it delivered and with the attempts it took to reconnect. The leader schedule of two epochs is the record
  \<open>managed_schedule\<close>, the task that keeps it \<open>schedule_task\<close>; one round of its loop is \<open>schedule_check\<close>, with the answers
  of the node in that round. Dropping the task, by a panic or a shutdown, marks the schedule as failed.

  The number of slots of an epoch (\<open>DEFAULT_SLOTS_PER_EPOCH\<close> of \<open>solana_clock\<close>) is the parameter \<open>spe\<close> and the
  parser of keys the parameter \<open>parse\<close>; the program relies on \<open>epoch_size_ok\<close>: an epoch has whole windows of four slots.
\<close>

section \<open>The slot tracker\<close>

record slot_tracker =
  st_slot :: slot
  st_closed :: bool

definition tracker_new :: "slot \<Rightarrow> slot_tracker" where
  "tracker_new initial_slot = \<lparr>st_slot = initial_slot, st_closed = False\<rparr>"

datatype tracker_poison_error = TrackerPoisonError slot

definition tracker_load :: "slot_tracker \<Rightarrow> tracker_poison_error + slot" where
  "tracker_load t = (if st_closed t then Inl (TrackerPoisonError (st_slot t)) else Inr (st_slot t))"

definition mark_tracker_unavailable :: "slot_tracker \<Rightarrow> slot_tracker" where
  "mark_tracker_unavailable t = t\<lparr>st_closed := True\<rparr>"

definition store_slot :: "slot \<Rightarrow> slot_tracker \<Rightarrow> slot_tracker" where
  "store_slot slot t = t\<lparr>st_slot := slot, st_closed := False\<rparr>"

text \<open>What a stream delivers: an update with a payload or without, or an error, which ends it.\<close>

datatype update_oneof = UpdateSlot slot | UpdateOther

datatype stream_item = StreamUpdate "update_oneof option" | StreamError string

datatype stream_exit = StreamEnded | StreamFailed string

fun wait_for_next_slot :: "stream_item list \<Rightarrow> (string + slot option) \<times> stream_item list" where
  "wait_for_next_slot [] = (Inr None, [])"
| "wait_for_next_slot (StreamError err # rest) = (Inl err, rest)"
| "wait_for_next_slot (StreamUpdate update # rest) =
     (case update of Some (UpdateSlot slot) \<Rightarrow> (Inr (Some slot), rest) | _ \<Rightarrow> wait_for_next_slot rest)"

fun process_slots :: "stream_item list \<Rightarrow> slot \<Rightarrow> slot_tracker \<Rightarrow> slot_tracker \<times> stream_exit" where
  "process_slots [] current_slot shared = (shared, StreamEnded)"
| "process_slots (StreamError err # rest) current_slot shared = (shared, StreamFailed err)"
| "process_slots (StreamUpdate update # rest) current_slot shared =
     (case update of
        Some (UpdateSlot slot) \<Rightarrow>
          (if slot \<le> current_slot then process_slots rest current_slot shared
           else process_slots rest slot (store_slot slot shared))
      | _ \<Rightarrow> process_slots rest current_slot shared)"

definition process_slot_tracker_stream :: "stream_item list \<Rightarrow> slot_tracker \<Rightarrow> slot_tracker \<times> stream_exit" where
  "process_slot_tracker_stream dm_slot_stream shared = process_slots dm_slot_stream (st_slot shared) shared"

definition reconnect_initial_backoff :: duration where
  "reconnect_initial_backoff = 200 * nanos_per_milli"

definition reconnect_max_backoff :: duration where
  "reconnect_max_backoff = 5000 * nanos_per_milli"

text \<open>The inner loop: \<open>n\<close> failed attempts to subscribe, then a successful one; the delays slept before them.\<close>

fun reconnect_delays :: "nat \<Rightarrow> duration \<Rightarrow> duration list" where
  "reconnect_delays 0 reconnect_backoff = [reconnect_backoff]"
| "reconnect_delays (Suc n) reconnect_backoff =
     reconnect_backoff # reconnect_delays n (min (2 * reconnect_backoff) reconnect_max_backoff)"

text \<open>
  The outer loop over the streams it gets, each with the failed attempts before it. While no stream is open the tracker is
  unavailable; the run ends after the last stream of the list with the task in its inner loop.
\<close>

fun slot_tracker_reconnect_loop ::
  "(nat \<times> stream_item list) list \<Rightarrow> stream_item list \<Rightarrow> slot_tracker \<Rightarrow> slot_tracker \<times> duration list" where
  "slot_tracker_reconnect_loop streams dm_slot_stream shared =
     (let (shared1, _) = process_slot_tracker_stream dm_slot_stream shared;
          shared2 = mark_tracker_unavailable shared1
      in case streams of
           [] \<Rightarrow> (shared2, [])
         | (failures, stream) # rest \<Rightarrow>
             (let (shared3, delays) = slot_tracker_reconnect_loop rest stream shared2
              in (shared3, reconnect_delays failures reconnect_initial_backoff @ delays)))"

text \<open>The creation of a tracker from its first stream: the tracker and what is left of the stream.\<close>

definition atomic_slot_tracker :: "string + stream_item list \<Rightarrow> string + (slot_tracker \<times> stream_item list) option" where
  "atomic_slot_tracker subscribed =
     (case subscribed of
        Inl err \<Rightarrow> Inl err
      | Inr stream \<Rightarrow>
          (case wait_for_next_slot stream of
             (Inl err, _) \<Rightarrow> Inl err
           | (Inr None, _) \<Rightarrow> Inr None
           | (Inr (Some initial_slot), rest) \<Rightarrow> Inr (Some (tracker_new initial_slot, rest))))"

section \<open>The schedule of an epoch\<close>

definition epoch_size_ok :: "u64 \<Rightarrow> bool" where
  "epoch_size_ok spe \<longleftrightarrow> 0 < unat spe \<and> 4 dvd unat spe"

record compact_schedule =
  cs_first_slot :: slot
  cs_schedule :: "pubkey list"

definition last_slot :: "u64 \<Rightarrow> compact_schedule \<Rightarrow> slot" where
  "last_slot spe s = cs_first_slot s + spe - 1"

definition vec_get :: "'a list \<Rightarrow> nat \<Rightarrow> 'a option" where
  "vec_get xs i = (if i < length xs then Some (xs ! i) else None)"

definition compact_get :: "u64 \<Rightarrow> compact_schedule \<Rightarrow> slot \<Rightarrow> pubkey option" where
  "compact_get spe s slot =
     (let first_slot = cs_first_slot s; max_slot = first_slot + spe
      in if slot < first_slot \<or> slot \<ge> max_slot then None
         else vec_get (cs_schedule s) (unat (u64_saturating_sub slot first_slot div 4)))"

definition iter_unnested_schedule :: "compact_schedule \<Rightarrow> (slot \<times> pubkey) list" where
  "iter_unnested_schedule s =
     concat (map (\<lambda>(slot_idx, pubk). map (\<lambda>i. (cs_first_slot s + (of_nat slot_idx * 4) + i, pubk)) [0, 1, 2, 3])
       (List.enumerate 0 (cs_schedule s)))"

type_synonym leader_schedule_resp = "(string \<times> nat list) list"

definition default_pubkey :: pubkey where
  "default_pubkey = Pubkey 0"

text \<open>Assignment to an element of a vector panics when the index is out of range.\<close>

definition vec_set :: "nat \<Rightarrow> 'a \<Rightarrow> 'a list \<Rightarrow> 'a list res" where
  "vec_set i x xs = (if i < length xs then Inr (xs[i := x]) else Inl (Panic ''index out of bounds''))"

fun set_windows :: "pubkey \<Rightarrow> nat list \<Rightarrow> pubkey list \<Rightarrow> pubkey list res" where
  "set_windows pubkey [] ret = Inr ret"
| "set_windows pubkey (slot_idx # rest) ret = res_bind (vec_set slot_idx pubkey ret) (set_windows pubkey rest)"

fun unnest_entries :: "(string \<Rightarrow> pubkey option) \<Rightarrow> leader_schedule_resp \<Rightarrow> pubkey list \<Rightarrow> pubkey list res" where
  "unnest_entries parse [] ret = Inr ret"
| "unnest_entries parse ((pubkey_str, sorted_slot_idx) # rest) ret =
     (case parse pubkey_str of
        None \<Rightarrow> unnest_entries parse rest ret
      | Some pubkey \<Rightarrow>
          res_bind (set_windows pubkey (map (\<lambda>s. s div 4) (filter (\<lambda>s. s mod 4 = 0) sorted_slot_idx)) ret)
            (unnest_entries parse rest))"

definition unnest_rpc_get_leader_schedule_resp ::
  "u64 \<Rightarrow> (string \<Rightarrow> pubkey option) \<Rightarrow> slot \<Rightarrow> leader_schedule_resp \<Rightarrow> compact_schedule res" where
  "unnest_rpc_get_leader_schedule_resp spe parse slot resp =
     res_bind (unnest_entries parse resp (replicate (unat spe div 4) default_pubkey)) (\<lambda>ret.
       let epoch = slot div spe in Inr \<lparr>cs_first_slot = epoch * spe, cs_schedule = ret\<rparr>)"

text \<open>The node: the epoch and the absolute slot it reports, and the schedule it gives for a slot.\<close>

record schedule_rpc =
  rpc_epoch_info :: "client_error + (u64 \<times> slot)"
  rpc_get_leader_schedule :: "slot \<Rightarrow> client_error + leader_schedule_resp option"

definition get_unnested_leader_schedule ::
  "u64 \<Rightarrow> (string \<Rightarrow> pubkey option) \<Rightarrow> schedule_rpc \<Rightarrow> slot option \<Rightarrow> (client_error + compact_schedule option) res" where
  "get_unnested_leader_schedule spe parse rpc slot_ctx =
     (case (case slot_ctx of Some slot \<Rightarrow> Inr slot | None \<Rightarrow> map_sum id snd (rpc_epoch_info rpc)) of
        Inl err \<Rightarrow> Inr (Inl err)
      | Inr referenced_slot \<Rightarrow>
          (case rpc_get_leader_schedule rpc referenced_slot of
             Inl err \<Rightarrow> Inr (Inl err)
           | Inr None \<Rightarrow> Inr (Inr None)
           | Inr (Some nested) \<Rightarrow>
               res_bind (unnest_rpc_get_leader_schedule_resp spe parse referenced_slot nested) (\<lambda>s. Inr (Inr (Some s)))))"

section \<open>The managed schedule\<close>

record managed_schedule =
  ms_buffer0 :: compact_schedule
  ms_buffer1 :: compact_schedule
  ms_fail :: bool

datatype schedule_poison_error = SchedulePoisonError

definition get_leader_from_schedules :: "u64 \<Rightarrow> managed_schedule \<Rightarrow> slot \<Rightarrow> pubkey option" where
  "get_leader_from_schedules spe m slot =
     compact_get spe (if slot \<ge> cs_first_slot (ms_buffer1 m) then ms_buffer1 m else ms_buffer0 m) slot"

definition get_leader :: "u64 \<Rightarrow> managed_schedule \<Rightarrow> slot \<Rightarrow> schedule_poison_error + pubkey option" where
  "get_leader spe m slot =
     (if ms_fail m then Inl SchedulePoisonError else Inr (get_leader_from_schedules spe m slot))"

definition get_leaders_for_slots :: "u64 \<Rightarrow> managed_schedule \<Rightarrow> slot list \<Rightarrow> schedule_poison_error + pubkey option list" where
  "get_leaders_for_slots spe m slots =
     (if ms_fail m then Inl SchedulePoisonError else Inr (map (get_leader_from_schedules spe m) slots))"

definition u64_saturating_add :: "u64 \<Rightarrow> u64 \<Rightarrow> u64" where
  "u64_saturating_add a b = (if a + b < a then - 1 else a + b)"

text \<open>The range \<open>(from..to).step_by(4)\<close>.\<close>

definition range_step_by_4 :: "u64 \<Rightarrow> u64 \<Rightarrow> u64 list" where
  "range_step_by_4 from to = map (\<lambda>k. from + 4 * of_nat k) [0..<(unat to - unat from + 3) div 4]"

fun push_unique :: "('b \<Rightarrow> 'a option) \<Rightarrow> 'b list \<Rightarrow> 'a list \<Rightarrow> 'a list" where
  "push_unique look [] leaders = leaders"
| "push_unique look (slot # rest) leaders =
     push_unique look rest
       (case look slot of
          Some leader \<Rightarrow> (if leader \<in> set leaders then leaders else leaders @ [leader])
        | None \<Rightarrow> leaders)"

definition get_unique_leaders_for_slot_fanout ::
  "u64 \<Rightarrow> managed_schedule \<Rightarrow> slot \<Rightarrow> u64 \<Rightarrow> schedule_poison_error + pubkey list" where
  "get_unique_leaders_for_slot_fanout spe m current_slot fanout_slots =
     (if ms_fail m then Inl SchedulePoisonError
      else let end_slot = u64_saturating_add current_slot fanout_slots
           in Inr (push_unique (get_leader_from_schedules spe m) (range_step_by_4 current_slot end_slot) []))"

section \<open>The task of the managed schedule\<close>

record schedule_task =
  mt_shared :: managed_schedule
  mt_current_epoch :: u64
  mt_running :: bool

text \<open>One round of \<open>auto_leader_schedule_loop\<close> after its sleep.\<close>

definition schedule_check :: "u64 \<Rightarrow> (string \<Rightarrow> pubkey option) \<Rightarrow> schedule_rpc \<Rightarrow> schedule_task \<Rightarrow> schedule_task res" where
  "schedule_check spe parse rpc t =
     (case rpc_epoch_info rpc of
        Inl err \<Rightarrow> Inr t
      | Inr (epoch, _) \<Rightarrow>
          (if epoch = mt_current_epoch t
           then let next_epoch_first_slot = (mt_current_epoch t + 1) * spe
                in res_bind (get_unnested_leader_schedule spe parse rpc (Some next_epoch_first_slot)) (\<lambda>answer.
                     case answer of
                       Inr (Some next_schedule) \<Rightarrow> Inr (t\<lparr>mt_shared := (mt_shared t)\<lparr>ms_buffer1 := next_schedule\<rparr>\<rparr>)
                     | _ \<Rightarrow> Inr t)
           else let first_slot_current_epoch = epoch * spe; next_epoch_first_slot = (epoch + 1) * spe
                in res_bind (get_unnested_leader_schedule spe parse rpc (Some first_slot_current_epoch)) (\<lambda>current.
                   res_bind (get_unnested_leader_schedule spe parse rpc (Some next_epoch_first_slot)) (\<lambda>next.
                     case (current, next) of
                       (Inr (Some current_schedule), Inr (Some next_schedule)) \<Rightarrow>
                         Inr (t\<lparr>mt_shared := (mt_shared t)\<lparr>ms_buffer0 := current_schedule, ms_buffer1 := next_schedule\<rparr>,
                                mt_current_epoch := epoch\<rparr>)
                     | _ \<Rightarrow> Inr t))))"

text \<open>Whatever ends the task drops the guard that marks the schedule as failed.\<close>

definition mark_failed_on_drop :: "schedule_task \<Rightarrow> schedule_task" where
  "mark_failed_on_drop t = t\<lparr>mt_shared := (mt_shared t)\<lparr>ms_fail := True\<rparr>, mt_running := False\<rparr>"

datatype schedule_event = CheckSchedule schedule_rpc | ScheduleShutdown

definition schedule_step :: "u64 \<Rightarrow> (string \<Rightarrow> pubkey option) \<Rightarrow> schedule_event \<Rightarrow> schedule_task \<Rightarrow> schedule_task" where
  "schedule_step spe parse ev t =
     (if \<not> mt_running t then t
      else case ev of
        CheckSchedule rpc \<Rightarrow>
          (case schedule_check spe parse rpc t of Inr t' \<Rightarrow> t' | Inl _ \<Rightarrow> mark_failed_on_drop t)
      | ScheduleShutdown \<Rightarrow> mark_failed_on_drop t)"

datatype spawn_schedule_error = ScheduleClientError client_error | LeaderScheduleUnavailable "slot option"

definition schedule_or_unavailable ::
  "slot option \<Rightarrow> client_error + compact_schedule option \<Rightarrow> spawn_schedule_error + compact_schedule" where
  "schedule_or_unavailable slot_ctx answer =
     (case answer of
        Inl err \<Rightarrow> Inl (ScheduleClientError err)
      | Inr None \<Rightarrow> Inl (LeaderScheduleUnavailable slot_ctx)
      | Inr (Some s) \<Rightarrow> Inr s)"

definition spawn_managed_leader_schedule ::
  "u64 \<Rightarrow> (string \<Rightarrow> pubkey option) \<Rightarrow> schedule_rpc \<Rightarrow> (spawn_schedule_error + schedule_task) res" where
  "spawn_managed_leader_schedule spe parse rpc =
     res_bind (get_unnested_leader_schedule spe parse rpc None) (\<lambda>answer.
       case schedule_or_unavailable None answer of
         Inl err \<Rightarrow> Inr (Inl err)
       | Inr initial_schedule \<Rightarrow>
           (let current_epoch = cs_first_slot initial_schedule div spe;
                next_epoch_first_slot = (current_epoch + 1) * spe
            in res_bind (get_unnested_leader_schedule spe parse rpc (Some next_epoch_first_slot)) (\<lambda>answer'.
                 case schedule_or_unavailable (Some next_epoch_first_slot) answer' of
                   Inl err \<Rightarrow> Inr (Inl err)
                 | Inr next_schedule \<Rightarrow>
                     Inr (Inr \<lparr>mt_shared = \<lparr>ms_buffer0 = initial_schedule, ms_buffer1 = next_schedule, ms_fail = False\<rparr>,
                               mt_current_epoch = cs_first_slot initial_schedule div spe, mt_running = True\<rparr>))))"

section \<open>Prediction of leaders\<close>

definition leader_boundaries :: "slot \<Rightarrow> nat \<Rightarrow> slot list" where
  "leader_boundaries slot n =
     (let reminder = slot mod 4; current_leader_boundary = u64_saturating_sub slot reminder
      in map (\<lambda>i. current_leader_boundary + of_nat (i * 4)) [0..<n])"

fun collect_leaders :: "u64 \<Rightarrow> managed_schedule \<Rightarrow> slot list \<Rightarrow> pubkey list \<Rightarrow> pubkey list" where
  "collect_leaders spe m [] leaders = leaders"
| "collect_leaders spe m (leader_slot # rest) leaders =
     (case get_leader spe m leader_slot of
        Inr (Some leader) \<Rightarrow> collect_leaders spe m rest (leaders @ [leader])
      | Inr None \<Rightarrow> collect_leaders spe m rest leaders
      | Inl _ \<Rightarrow> [])"

definition yellowstone_predict_next_n_leaders :: "u64 \<Rightarrow> slot_tracker \<Rightarrow> managed_schedule \<Rightarrow> nat \<Rightarrow> pubkey list" where
  "yellowstone_predict_next_n_leaders spe tracker m n =
     (case tracker_load tracker of
        Inl _ \<Rightarrow> []
      | Inr slot \<Rightarrow> collect_leaders spe m (leader_boundaries slot n) [])"

section \<open>The tracker follows the newest slot\<close>

text \<open>The slots a stream delivers before it ends.\<close>

fun delivered_slots :: "stream_item list \<Rightarrow> slot list" where
  "delivered_slots [] = []"
| "delivered_slots (StreamError err # rest) = []"
| "delivered_slots (StreamUpdate update # rest) =
     (case update of Some (UpdateSlot slot) \<Rightarrow> slot # delivered_slots rest | _ \<Rightarrow> delivered_slots rest)"

definition newest :: "slot list \<Rightarrow> slot \<Rightarrow> slot" where
  "newest slots current = fold max slots current"

lemma newest_simps [simp]: "newest [] c = c" "newest (s # ss) c = newest ss (max s c)"
  by (simp_all add: newest_def)

lemma newest_of_append: "newest (xs @ ys) c = newest ys (newest xs c)"
  by (simp add: newest_def)

lemma newest_eq_Max: "newest slots c = Max (insert c (set slots))"
proof -
  have "fold max slots c = Max (set (c # slots))" by (rule Max.set_eq_fold [symmetric])
  then show ?thesis by (simp add: newest_def)
qed

lemma newest_ge: "c \<le> newest slots c"
  unfolding newest_eq_Max by simp

lemma process_slots_spec:
  "process_slots items (st_slot t) t = (t', ex) \<Longrightarrow>
     st_slot t' = newest (delivered_slots items) (st_slot t) \<and> st_closed t' = (st_closed t \<and> st_slot t' = st_slot t)"
proof (induction items arbitrary: t)
  case (Cons item items)
  consider (err) err where "item = StreamError err" | (other) "item = StreamUpdate None \<or> item = StreamUpdate (Some UpdateOther)"
    | (slot) slot where "item = StreamUpdate (Some (UpdateSlot slot))"
    by (metis stream_item.exhaust option.exhaust update_oneof.exhaust)
  then show ?case
  proof cases
    case slot
    show ?thesis
    proof (cases "slot \<le> st_slot t")
      case True
      then have "process_slots items (st_slot t) t = (t', ex)" using Cons.prems slot by simp
      from Cons.IH [OF this] show ?thesis using slot True by (simp add: max_absorb2)
    next
      case False
      have m: "max slot (st_slot t) = slot" using False by simp
      have st: "st_slot (store_slot slot t) = slot" "\<not> st_closed (store_slot slot t)" by (simp_all add: store_slot_def)
      have "process_slots items (st_slot (store_slot slot t)) (store_slot slot t) = (t', ex)"
        using Cons.prems slot False st by simp
      from Cons.IH [OF this] have "st_slot t' = newest (delivered_slots items) slot" "\<not> st_closed t'" using st by simp_all
      moreover have "slot \<le> newest (delivered_slots items) slot" by (rule newest_ge)
      ultimately show ?thesis using False slot m by auto
    qed
  next
    case other
    then have "process_slots items (st_slot t) t = (t', ex)" using Cons.prems by auto
    from Cons.IH [OF this] show ?thesis using other by auto
  next
    case err
    then show ?thesis using Cons.prems by simp
  qed
qed simp

lemma process_stream_spec:
  assumes "process_slot_tracker_stream items t = (t', ex)"
  shows "st_slot t' = newest (delivered_slots items) (st_slot t)"
    and "st_closed t' = (st_closed t \<and> newest (delivered_slots items) (st_slot t) = st_slot t)"
  using process_slots_spec [OF assms [unfolded process_slot_tracker_stream_def]] by auto

declare slot_tracker_reconnect_loop.simps [simp del]

lemma reconnect_loop_spec:
  "slot_tracker_reconnect_loop streams items t = (t', delays) \<Longrightarrow>
     st_slot t' = newest (concat (map delivered_slots (items # map snd streams))) (st_slot t) \<and> st_closed t'"
proof (induction streams arbitrary: items t t' delays)
  case Nil
  then show ?case
    by (subst (asm) slot_tracker_reconnect_loop.simps)
      (auto simp: mark_tracker_unavailable_def process_stream_spec Let_def split: prod.splits)
next
  case (Cons s streams)
  obtain failures stream where s: "s = (failures, stream)" by fastforce
  obtain t1 ex where t1: "process_slot_tracker_stream items t = (t1, ex)" by fastforce
  obtain t3 ds where t3: "slot_tracker_reconnect_loop streams stream (mark_tracker_unavailable t1) = (t3, ds)" by fastforce
  have "t' = t3" using Cons.prems t1 t3 s by (subst (asm) slot_tracker_reconnect_loop.simps) (simp add: Let_def)
  then show ?case using Cons.IH [OF t3] process_stream_spec(1) [OF t1] s
    by (simp add: mark_tracker_unavailable_def newest_of_append)
qed

lemma wait_for_next_slot_spec:
  "wait_for_next_slot items = (Inr (Some slot), rest) \<Longrightarrow> delivered_slots items = slot # delivered_slots rest"
  by (induction items rule: wait_for_next_slot.induct) (auto split: option.splits update_oneof.splits)

text \<open>
  C38. The slot tracker follows the newest slot over all reconnections: after any number of streams its slot is the largest
  of all slots that any of them delivered before it ended, so it never goes back; while it has no stream it answers with an
  error. On the next stream it is available again exactly when a slot has arrived that is newer than all before, and
  then answers with the newest one.
\<close>

theorem slot_tracker_follows_newest:
  assumes "atomic_slot_tracker (Inr first) = Inr (Some (t, rest))"
    and "slot_tracker_reconnect_loop streams rest t = (t1, delays)"
    and "process_slot_tracker_stream items t1 = (t2, ex)"
  shows "st_slot t1 = Max (set (concat (map delivered_slots (first # map snd streams)))) \<and>
    tracker_load t1 = Inl (TrackerPoisonError (st_slot t1)) \<and>
    tracker_load t2 =
      (if \<exists>slot \<in> set (delivered_slots items). st_slot t1 < slot
       then Inr (Max (set (delivered_slots items))) else Inl (TrackerPoisonError (st_slot t1)))"
proof -
  have w: "wait_for_next_slot first = (Inr (Some (st_slot t)), rest)"
    using assms(1) by (auto simp: atomic_slot_tracker_def tracker_new_def split: sum.splits option.splits prod.splits)
  note l = reconnect_loop_spec [OF assms(2)] and p = process_stream_spec [OF assms(3)]
  have "st_slot t1 = Max (set (concat (map delivered_slots (first # map snd streams))))"
    using l by (simp add: wait_for_next_slot_spec [OF w] newest_eq_Max)
  moreover have "tracker_load t2 = (if \<exists>slot \<in> set (delivered_slots items). st_slot t1 < slot
       then Inr (Max (set (delivered_slots items))) else Inl (TrackerPoisonError (st_slot t1)))"
  proof (cases "\<exists>slot \<in> set (delivered_slots items). st_slot t1 < slot")
    case True
    then obtain s where s: "s \<in> set (delivered_slots items)" "st_slot t1 < s" by blast
    then have "s \<le> Max (set (delivered_slots items))" by simp
    with s have "st_slot t1 < Max (set (delivered_slots items))" by (simp add: less_le_trans)
    moreover have "newest (delivered_slots items) (st_slot t1) = max (st_slot t1) (Max (set (delivered_slots items)))"
      unfolding newest_eq_Max using s(1) by (intro Max_insert) auto
    ultimately have "newest (delivered_slots items) (st_slot t1) = Max (set (delivered_slots items))" "st_slot t1 \<noteq> Max (set (delivered_slots items))"
      by (auto simp: max_def)
    then show ?thesis using True p by (simp add: tracker_load_def)
  next
    case False
    then have "newest (delivered_slots items) (st_slot t1) = st_slot t1"
      unfolding newest_eq_Max by (intro Max_eqI) auto
    then show ?thesis using False p l by (simp add: tracker_load_def)
  qed
  ultimately show ?thesis using l by (simp add: tracker_load_def)
qed

text \<open>The delays between the attempts double up to five seconds.\<close>

lemma reconnect_delays_capped:
  "b \<le> reconnect_max_backoff \<Longrightarrow>
     reconnect_delays n b = map (\<lambda>i. min (b * 2 ^ i) reconnect_max_backoff) [0..<Suc n]"
proof (induction n arbitrary: b)
  case (Suc n)
  have "map (\<lambda>i. min (b * 2 ^ i) reconnect_max_backoff) [0..<Suc (Suc n)] =
      min b reconnect_max_backoff # map (\<lambda>i. min (b * 2 ^ Suc i) reconnect_max_backoff) [0..<Suc n]"
    by (subst upt_conv_Cons) (simp_all add: map_Suc_upt [symmetric] del: upt_Suc)
  moreover have "min (min (2 * b) reconnect_max_backoff * 2 ^ i) reconnect_max_backoff = min (b * 2 ^ Suc i) reconnect_max_backoff" for i
  proof (cases "2 * b \<le> reconnect_max_backoff")
    case False
    have one: "1 \<le> (2 :: nat) ^ i" by simp
    have "x \<le> x * 2 ^ i" for x :: nat using one by (metis mult.right_neutral mult_le_mono2)
    from this [of reconnect_max_backoff] this [of "2 * b"]
    have "reconnect_max_backoff \<le> reconnect_max_backoff * 2 ^ i" "reconnect_max_backoff \<le> 2 * b * 2 ^ i"
      using False by linarith+
    then have "min (reconnect_max_backoff * 2 ^ i) reconnect_max_backoff = reconnect_max_backoff"
      "min (b * 2 ^ Suc i) reconnect_max_backoff = reconnect_max_backoff"
      by (auto intro!: min_absorb2 simp: mult_ac)
    moreover have "min (2 * b) reconnect_max_backoff = reconnect_max_backoff" using False by simp
    ultimately show ?thesis by (simp only:)
  qed (simp add: min_def mult_ac)
  ultimately show ?case using Suc.IH [of "min (2 * b) reconnect_max_backoff"] Suc.prems by (simp del: upt_Suc power_Suc)
qed (simp add: min_def)

section \<open>Lookup in a compact schedule\<close>

definition schedule_wf :: "u64 \<Rightarrow> compact_schedule \<Rightarrow> bool" where
  "schedule_wf spe s \<longleftrightarrow>
     epoch_size_ok spe \<and> length (cs_schedule s) = unat spe div 4 \<and> unat (cs_first_slot s) + unat spe < 2 ^ 64"

lemma schedule_wfD:
  assumes "schedule_wf spe s"
  shows "4 * length (cs_schedule s) = unat spe" and "0 < unat spe"
    and "unat (cs_first_slot s + spe) = unat (cs_first_slot s) + unat spe" and "unat (cs_first_slot s) + unat spe < 2 ^ 64"
  using assms u64_add_no_wrap [of "cs_first_slot s" spe] by (auto simp: schedule_wf_def epoch_size_ok_def)

lemma unat_offset:
  fixes a :: u64 assumes "unat a + k < 2 ^ 64" shows "unat (a + of_nat k) = unat a + k"
proof -
  have "unat (of_nat k :: u64) = k" using assms by (simp add: unat_of_nat take_bit_nat_eq_self)
  then show ?thesis using u64_add_no_wrap [of a "of_nat k"] assms by simp
qed

lemma unat_div_4: "unat ((a :: u64) div 4) = unat a div 4"
  by (simp add: unat_div)

text \<open>The lookup in terms of natural numbers.\<close>

lemma compact_get_eq:
  assumes "schedule_wf spe s"
  shows "compact_get spe s slot =
    (if unat (cs_first_slot s) \<le> unat slot \<and> unat slot < unat (cs_first_slot s) + unat spe
     then Some (cs_schedule s ! ((unat slot - unat (cs_first_slot s)) div 4)) else None)"
proof -
  note d = schedule_wfD [OF assms]
  have idx: "unat (u64_saturating_sub slot (cs_first_slot s) div 4) = (unat slot - unat (cs_first_slot s)) div 4"
    by (simp add: unat_div_4 unat_saturating_sub)
  have "(unat slot - unat (cs_first_slot s)) div 4 < length (cs_schedule s)"
    if "unat slot < unat (cs_first_slot s) + unat spe" using that d(1,2) by linarith
  then show ?thesis
    by (auto simp: compact_get_def Let_def vec_get_def idx word_less_nat_alt word_le_nat_alt d(3))
qed

lemma enumerate_windows:
  "concat (map (\<lambda>(i, pk). map (\<lambda>j. (a + (of_nat i * 4) + j, pk)) [0, 1, 2, 3]) (List.enumerate 0 ws)) =
     map (\<lambda>k. (a + of_nat k, ws ! (k div 4))) [0..<4 * length ws]" for a :: u64
proof (induction ws rule: rev_induct)
  case (snoc w ws)
  have cong: "map (\<lambda>k. (a + of_nat k, (ws @ [w]) ! (k div 4))) [0..<4 * length ws] = map (\<lambda>k. (a + of_nat k, ws ! (k div 4))) [0..<4 * length ws]"
    by (intro map_cong refl) (simp add: nth_append, linarith)
  have four: "[4 * length ws..<4 * length ws + 4] = [4 * length ws, 4 * length ws + 1, 4 * length ws + 2, 4 * length ws + 3]"
    by (simp add: upt_rec)
  have d4: "(4 * n) div 4 = n" "(4 * n + 1) div 4 = n" "(4 * n + 2) div 4 = n" "(4 * n + 3) div 4 = n" for n :: nat by simp_all
  have last: "map (\<lambda>k. (a + of_nat k, (ws @ [w]) ! (k div 4))) [4 * length ws..<4 * length ws + 4] =
      map (\<lambda>j. (a + (of_nat (length ws) * 4) + j, w)) [0, 1, 2, 3]"
    unfolding four list.map d4 nth_append_length by (simp add: add_ac mult_ac)
  have "[0..<4 * length (ws @ [w])] = [0..<4 * length ws] @ [4 * length ws..<4 * length ws + 4]"
    using upt_add_eq_append [of 0 "4 * length ws" 4] by (simp add: add.commute)
  then show ?case using snoc cong last by (simp add: enumerate_append_eq)
qed simp

lemma map_of_image:
  "inj_on f (set ks) \<Longrightarrow> map_of (map (\<lambda>k. (f k, g k)) ks) x = (if \<exists>k \<in> set ks. f k = x then Some (g (the_inv_into (set ks) f x)) else None)"
proof -
  assume inj: "inj_on f (set ks)"
  have "map_of (map (\<lambda>k. (f k, g k)) ks) x = map_of (map (\<lambda>y. (y, g (the_inv_into (set ks) f y))) (map f ks)) x"
    using inj by (simp add: comp_def the_inv_into_f_f cong: map_cong)
  also have "\<dots> = (if x \<in> set (map f ks) then Some (g (the_inv_into (set ks) f x)) else None)"
    by (simp only: map_of_map_restrict restrict_map_def o_def)
  also have "x \<in> set (map f ks) \<longleftrightarrow> (\<exists>k \<in> set ks. f k = x)" by auto
  finally show ?thesis .
qed

text \<open>The compact form agrees with the expanded one: a lookup is a lookup in the list of all slots of the epoch.\<close>

lemma compact_get_unnested:
  assumes "schedule_wf spe s"
  shows "compact_get spe s slot = map_of (iter_unnested_schedule s) slot"
proof -
  note d = schedule_wfD [OF assms]
  let ?a = "cs_first_slot s" and ?ws = "cs_schedule s" and ?n = "4 * length (cs_schedule s)"
  have u: "unat (?a + of_nat k) = unat ?a + k" if "k < ?n" for k using that d by (intro unat_offset) simp
  have inj: "inj_on (\<lambda>k. ?a + of_nat k) (set [0..<?n])"
    by (rule inj_onI) (metis u add_left_imp_eq atLeastLessThan_iff set_upt)
  have iter: "iter_unnested_schedule s = map (\<lambda>k. (?a + of_nat k, ?ws ! (k div 4))) [0..<?n]"
    unfolding iter_unnested_schedule_def by (rule enumerate_windows)
  show ?thesis
  proof (cases "unat ?a \<le> unat slot \<and> unat slot < unat ?a + unat spe")
    case True
    let ?k = "unat slot - unat ?a"
    have k: "?k < ?n" using True d(1) by linarith
    then have "unat (?a + of_nat ?k) = unat slot" using u True by simp
    then have eq: "?a + of_nat ?k = slot" by (simp add: word_unat_eq_iff)
    have "the_inv_into (set [0..<?n]) (\<lambda>k. ?a + of_nat k) slot = ?k"
      using the_inv_into_f_f [OF inj, of ?k] k eq by simp
    moreover have "\<exists>k \<in> set [0..<?n]. ?a + of_nat k = slot" using k eq by (intro bexI [of _ ?k]) simp_all
    ultimately have "map_of (iter_unnested_schedule s) slot = Some (?ws ! (?k div 4))"
      unfolding iter map_of_image [OF inj] by simp
    then show ?thesis using True by (simp add: compact_get_eq [OF assms])
  next
    case False
    have "\<not> (\<exists>k \<in> set [0..<?n]. ?a + of_nat k = slot)" using u d(1) False by auto
    then show ?thesis using False unfolding iter map_of_image [OF inj] by (simp add: compact_get_eq [OF assms])
  qed
qed

section \<open>The answer of the node\<close>

text \<open>The leader of a window: the last entry with a valid key that lists its first slot.\<close>

fun window_leader :: "(string \<Rightarrow> pubkey option) \<Rightarrow> leader_schedule_resp \<Rightarrow> nat \<Rightarrow> pubkey option" where
  "window_leader parse [] w = None"
| "window_leader parse ((pubkey_str, idx) # rest) w =
     (case window_leader parse rest w of
        Some leader \<Rightarrow> Some leader
      | None \<Rightarrow> if 4 * w \<in> set idx then parse pubkey_str else None)"

definition indices_in_range :: "(string \<Rightarrow> pubkey option) \<Rightarrow> nat \<Rightarrow> leader_schedule_resp \<Rightarrow> bool" where
  "indices_in_range parse n resp \<longleftrightarrow>
     list_all (\<lambda>(pubkey_str, idx). parse pubkey_str = None \<or> list_all (\<lambda>s. s mod 4 = 0 \<longrightarrow> s div 4 < n) idx) resp"

lemma set_windows_spec:
  "list_all (\<lambda>w. w < length ret) ws \<Longrightarrow>
     \<exists>ret'. set_windows pk ws ret = Inr ret' \<and> length ret' = length ret \<and>
       (\<forall>w < length ret. ret' ! w = (if w \<in> set ws then pk else ret ! w))"
proof (induction ws arbitrary: ret)
  case (Cons w ws)
  then have "list_all (\<lambda>w'. w' < length (ret[w := pk])) ws" by simp
  from Cons.IH [OF this] Cons.prems show ?case by (auto simp: vec_set_def nth_list_update)
qed simp

lemma set_windows_panics: "\<not> list_all (\<lambda>w. w < length ret) ws \<Longrightarrow> \<exists>p. set_windows pk ws ret = Inl p"
proof (induction ws arbitrary: ret)
  case (Cons w ws)
  then show ?case by (cases "w < length ret") (auto simp: vec_set_def)
qed simp

lemma aligned_windows: "w \<in> set (map (\<lambda>s. s div 4) (filter (\<lambda>s. s mod 4 = 0) idx)) \<longleftrightarrow> 4 * w \<in> set idx" for w :: nat
  by (auto simp: image_iff)

lemma unnest_entries_spec:
  assumes "indices_in_range parse (length ret) resp"
  shows "\<exists>ret'. unnest_entries parse resp ret = Inr ret' \<and> length ret' = length ret \<and>
    (\<forall>w < length ret. ret' ! w = (case window_leader parse resp w of Some leader \<Rightarrow> leader | None \<Rightarrow> ret ! w))"
  using assms
proof (induction parse resp ret rule: unnest_entries.induct)
  case (2 parse pubkey_str idx rest ret)
  have rest: "indices_in_range parse (length ret) rest" using 2(3) by (simp add: indices_in_range_def)
  show ?case
  proof (cases "parse pubkey_str")
    case None
    then show ?thesis using 2(1) [OF None rest] by (auto split: option.splits)
  next
    case (Some pk)
    let ?ws = "map (\<lambda>s. s div 4) (filter (\<lambda>s. s mod 4 = 0) idx)"
    have "list_all (\<lambda>w. w < length ret) ?ws" using 2(3) Some by (auto simp: indices_in_range_def list_all_iff)
    then obtain ret1 where r1: "set_windows pk ?ws ret = Inr ret1" "length ret1 = length ret"
      "\<forall>w < length ret. ret1 ! w = (if 4 * w \<in> set idx then pk else ret ! w)"
      using set_windows_spec [of ret ?ws pk] unfolding aligned_windows by blast
    then show ?thesis using 2(2) [OF Some, of ret1] rest Some by (auto split: option.splits)
  qed
qed simp

lemma unnest_entries_panics:
  "\<not> indices_in_range parse (length ret) resp \<Longrightarrow> \<exists>p. unnest_entries parse resp ret = Inl p"
proof (induction parse resp ret rule: unnest_entries.induct)
  case (2 parse pubkey_str idx rest ret)
  show ?case
  proof (cases "parse pubkey_str")
    case None
    then show ?thesis using 2 by (simp add: indices_in_range_def)
  next
    case (Some pk)
    let ?ws = "map (\<lambda>s. s div 4) (filter (\<lambda>s. s mod 4 = 0) idx)"
    show ?thesis
    proof (cases "list_all (\<lambda>w. w < length ret) ?ws")
      case True
      then obtain ret1 where r1: "set_windows pk ?ws ret = Inr ret1" "length ret1 = length ret"
        using set_windows_spec by blast
      have "\<not> indices_in_range parse (length ret1) rest"
        using 2(3) Some True r1(2) by (auto simp: indices_in_range_def list_all_iff)
      then show ?thesis using 2(2) [OF Some, of ret1] Some r1 by simp
    next
      case False
      then show ?thesis using set_windows_panics [of ret ?ws pk] Some by auto
    qed
  qed
qed (simp add: indices_in_range_def)

text \<open>How a node lists a schedule: per leader the slots of its windows, counted from the start of the epoch.\<close>

definition nested_schedule :: "(pubkey \<Rightarrow> string) \<Rightarrow> pubkey list \<Rightarrow> leader_schedule_resp" where
  "nested_schedule print ws =
     map (\<lambda>pk. (print pk, filter (\<lambda>s. ws ! (s div 4) = pk) [0..<4 * length ws])) (remdups ws)"

lemma window_leader_unique:
  assumes "\<And>pk. parse (print pk) = Some pk" and "w < length ws" and "ws ! w \<in> set pks"
  shows "window_leader parse (map (\<lambda>pk. (print pk, filter (\<lambda>s. ws ! (s div 4) = pk) [0..<4 * length ws])) pks) w = Some (ws ! w)"
  using assms(3)
proof (induction pks)
  case (Cons pk pks)
  let ?resp = "map (\<lambda>pk. (print pk, filter (\<lambda>s. ws ! (s div 4) = pk) [0..<4 * length ws]))"
  have none: "window_leader parse (?resp pks) w = None" if "ws ! w \<notin> set pks"
    using that by (induction pks) auto
  show ?case using Cons none assms(1,2) by (cases "ws ! w \<in> set pks") auto
qed simp

lemma nested_in_range: "indices_in_range parse (length ws) (nested_schedule print ws)"
  by (auto simp: indices_in_range_def nested_schedule_def list_all_iff)

lemma unnest_nested:
  assumes "\<And>pk. parse (print pk) = Some pk" and "length ret = length ws"
  shows "unnest_entries parse (nested_schedule print ws) ret = Inr ws"
proof -
  have "indices_in_range parse (length ret) (nested_schedule print ws)" unfolding assms(2) by (rule nested_in_range)
  from unnest_entries_spec [OF this] obtain ret' where ret': "unnest_entries parse (nested_schedule print ws) ret = Inr ret'"
    "length ret' = length ret" "\<forall>w < length ret. ret' ! w = (case window_leader parse (nested_schedule print ws) w of Some leader \<Rightarrow> leader | None \<Rightarrow> ret ! w)"
    by blast
  have "window_leader parse (nested_schedule print ws) w = Some (ws ! w)" if "w < length ws" for w
    unfolding nested_schedule_def using that by (intro window_leader_unique assms(1)) simp_all
  then have "ret' = ws" using ret'(2,3) assms(2) by (intro nth_equalityI) simp_all
  with ret'(1) show ?thesis by simp
qed

lemma epoch_first_slot:
  fixes slot spe :: u64 assumes "0 < unat spe"
  shows "unat (slot div spe * spe) = unat slot div unat spe * unat spe"
proof -
  have "unat slot div unat spe * unat spe \<le> unat slot" by simp
  moreover have "unat slot < 2 ^ 64" using unsigned_less [of slot] by simp
  ultimately have "unat slot div unat spe * unat spe < 2 ^ 64" by linarith
  then have "unat (slot div spe) * unat spe < 2 ^ LENGTH(64)" by (simp add: unat_div)
  then have "unat (slot div spe * spe) = unat (slot div spe) * unat spe" by (simp only: unat_mult_lem)
  then show ?thesis by (simp add: unat_div)
qed

lemma compact_get_epoch:
  assumes "schedule_wf spe s" and "unat (cs_first_slot s) = e * unat spe"
  shows "compact_get spe s slot =
    (if unat slot div unat spe = e then Some (cs_schedule s ! (unat slot mod unat spe div 4)) else None)"
proof -
  have spe: "0 < unat spe" by (rule schedule_wfD(2) [OF assms(1)])
  have "(e * unat spe \<le> unat slot \<and> unat slot < e * unat spe + unat spe) \<longleftrightarrow> unat slot div unat spe = e"
    using spe by (metis div_nat_eqI mult.commute mult_Suc_right add.commute div_times_less_eq_dividend dividend_less_div_times mult_Suc)
  moreover have "unat slot - e * unat spe = unat slot mod unat spe" if "unat slot div unat spe = e"
    using that by (metis minus_div_mult_eq_mod)
  ultimately show ?thesis unfolding compact_get_eq [OF assms(1)] by (simp add: assms(2))
qed

text \<open>
  C37. Round trip of a leader schedule. For a schedule of one epoch, listed the way a node lists it for a slot of the
  epoch, the compact form that is computed from the list gives, for every slot of the epoch, the leader of the window
  of four slots it lies in, and nothing for other slots. It agrees with the expanded list of all slots.
\<close>

theorem leader_schedule_round_trip:
  assumes "epoch_size_ok spe" and "\<And>pk. parse (print pk) = Some pk" and "length ws = unat spe div 4"
    and "unat slot div unat spe * unat spe + unat spe < 2 ^ 64"
  shows "\<exists>s. unnest_rpc_get_leader_schedule_resp spe parse slot (nested_schedule print ws) = Inr s \<and>
    (\<forall>slot'. compact_get spe s slot' =
       (if unat slot' div unat spe = unat slot div unat spe then Some (ws ! (unat slot' mod unat spe div 4)) else None) \<and>
       compact_get spe s slot' = map_of (iter_unnested_schedule s) slot')"
proof -
  let ?e = "unat slot div unat spe"
  let ?s = "\<lparr>cs_first_slot = slot div spe * spe, cs_schedule = ws\<rparr>"
  have spe: "0 < unat spe" using assms(1) by (simp add: epoch_size_ok_def)
  have first: "unat (slot div spe * spe) = ?e * unat spe" by (rule epoch_first_slot [OF spe])
  have wf: "schedule_wf spe ?s" using assms(1,3,4) first by (simp add: schedule_wf_def)
  have run: "unnest_rpc_get_leader_schedule_resp spe parse slot (nested_schedule print ws) = Inr ?s"
    using unnest_nested [OF assms(2), of "replicate (unat spe div 4) default_pubkey" ws] assms(3)
    by (simp add: unnest_rpc_get_leader_schedule_resp_def Let_def)
  have "compact_get spe ?s slot' = (if unat slot' div unat spe = ?e then Some (ws ! (unat slot' mod unat spe div 4)) else None)" for slot'
    using compact_get_epoch [OF wf, of ?e slot'] first by simp
  then show ?thesis using run compact_get_unnested [OF wf] by blast
qed

section \<open>The managed schedule knows two epochs\<close>

text \<open>A buffer holds the schedule that one of the answers gave for a slot of the epoch.\<close>

definition buffer_for :: "u64 \<Rightarrow> (string \<Rightarrow> pubkey option) \<Rightarrow> schedule_rpc set \<Rightarrow> nat \<Rightarrow> compact_schedule \<Rightarrow> bool" where
  "buffer_for spe parse rpcs e s \<longleftrightarrow>
     schedule_wf spe s \<and> unat (cs_first_slot s) = e * unat spe \<and>
     (\<exists>rpc slot resp. rpc \<in> rpcs \<and> unat slot div unat spe = e \<and> rpc_get_leader_schedule rpc slot = Inr (Some resp) \<and>
        unnest_rpc_get_leader_schedule_resp spe parse slot resp = Inr s)"

lemma buffer_for_mono: "buffer_for spe parse rpcs e s \<Longrightarrow> rpcs \<subseteq> rpcs' \<Longrightarrow> buffer_for spe parse rpcs' e s"
  unfolding buffer_for_def by blast

lemma unnest_entries_length: "unnest_entries parse resp ret = Inr ret' \<Longrightarrow> length ret' = length ret"
  using unnest_entries_spec [of parse ret resp] unnest_entries_panics [of parse ret resp] by fastforce

lemma unnest_buffer:
  assumes "epoch_size_ok spe" and "(unat slot div unat spe + 1) * unat spe < 2 ^ 64"
    and "rpc_get_leader_schedule rpc slot = Inr (Some resp)" and "unnest_rpc_get_leader_schedule_resp spe parse slot resp = Inr s"
  shows "buffer_for spe parse {rpc} (unat slot div unat spe) s"
proof -
  have spe: "0 < unat spe" using assms(1) by (simp add: epoch_size_ok_def)
  have "unat (cs_first_slot s) = unat slot div unat spe * unat spe" "length (cs_schedule s) = unat spe div 4"
    using assms(4) epoch_first_slot [OF spe, of slot] by (auto simp: unnest_rpc_get_leader_schedule_resp_def dest: unnest_entries_length)
  then show ?thesis using assms by (auto simp: buffer_for_def schedule_wf_def)
qed

lemma get_unnested_buffer:
  assumes "epoch_size_ok spe" and "(unat slot div unat spe + 1) * unat spe < 2 ^ 64"
    and "get_unnested_leader_schedule spe parse rpc (Some slot) = Inr (Inr (Some s))"
  shows "buffer_for spe parse {rpc} (unat slot div unat spe) s"
  using assms(3) unnest_buffer [OF assms(1,2)]
  by (auto simp: get_unnested_leader_schedule_def split: sum.splits option.splits)

lemma first_slot_of_epoch:
  fixes e spe :: u64 assumes "0 < unat spe" and "unat e * unat spe < 2 ^ 64"
  shows "unat (e * spe) div unat spe = unat e"
proof -
  have "unat e * unat spe < 2 ^ LENGTH(64)" using assms(2) by simp
  then have "unat (e * spe) = unat e * unat spe" by (simp only: unat_mult_lem)
  then show ?thesis using assms(1) by simp
qed

text \<open>The schedule for the first slot of an epoch of two that fit into 64 bits.\<close>

definition epoch_fits :: "u64 \<Rightarrow> nat \<Rightarrow> bool" where
  "epoch_fits spe e \<longleftrightarrow> (e + 2) * unat spe < 2 ^ 64"

lemma epoch_fits_unat:
  fixes e :: u64
  assumes "epoch_size_ok spe" and "epoch_fits spe (unat e)"
  shows "unat (e + 1) = unat e + 1"
proof -
  have "0 < unat spe" using assms(1) by (simp add: epoch_size_ok_def)
  then have "(unat e + 2) * 1 \<le> (unat e + 2) * unat spe" by (intro mult_le_mono2) simp
  then have "unat e + unat (1 :: u64) < 2 ^ 64" using assms(2) by (simp add: epoch_fits_def)
  from u64_add_no_wrap [OF this] show ?thesis by simp
qed

lemma fetched_current:
  assumes "epoch_size_ok spe" and "epoch_fits spe (unat e)"
    and "get_unnested_leader_schedule spe parse rpc (Some (e * spe)) = Inr (Inr (Some s))"
  shows "buffer_for spe parse {rpc} (unat e) s"
proof -
  have spe: "0 < unat spe" using assms(1) by (simp add: epoch_size_ok_def)
  have fits: "unat e * unat spe < 2 ^ 64" "(unat e + 1) * unat spe < 2 ^ 64" using assms(2) by (simp_all add: epoch_fits_def algebra_simps)
  note e = first_slot_of_epoch [OF spe fits(1)]
  from get_unnested_buffer [OF assms(1) _ assms(3)] fits(2) show ?thesis unfolding e by blast
qed

lemma fetched_next:
  assumes "epoch_size_ok spe" and "epoch_fits spe (unat e)"
    and "get_unnested_leader_schedule spe parse rpc (Some ((e + 1) * spe)) = Inr (Inr (Some s))"
  shows "buffer_for spe parse {rpc} (unat e + 1) s"
proof -
  have spe: "0 < unat spe" using assms(1) by (simp add: epoch_size_ok_def)
  note u = epoch_fits_unat [OF assms(1,2)]
  have "unat (e + 1) * unat spe < 2 ^ 64" using assms(2) u by (simp add: epoch_fits_def algebra_simps)
  note e = first_slot_of_epoch [OF spe this]
  have "(unat e + 1 + 1) * unat spe < 2 ^ 64" using assms(2) by (simp add: epoch_fits_def)
  with get_unnested_buffer [OF assms(1) _ assms(3)] show ?thesis unfolding e u by blast
qed

definition task_knows :: "u64 \<Rightarrow> (string \<Rightarrow> pubkey option) \<Rightarrow> schedule_rpc set \<Rightarrow> schedule_task \<Rightarrow> bool" where
  "task_knows spe parse rpcs t \<longleftrightarrow>
     epoch_fits spe (unat (mt_current_epoch t)) \<and>
     buffer_for spe parse rpcs (unat (mt_current_epoch t)) (ms_buffer0 (mt_shared t)) \<and>
     buffer_for spe parse rpcs (unat (mt_current_epoch t) + 1) (ms_buffer1 (mt_shared t)) \<and>
     ms_fail (mt_shared t) = (\<not> mt_running t)"

definition reported_epoch_fits :: "u64 \<Rightarrow> schedule_event \<Rightarrow> bool" where
  "reported_epoch_fits spe ev \<longleftrightarrow>
     (case ev of CheckSchedule rpc \<Rightarrow> (case rpc_epoch_info rpc of Inr (e, _) \<Rightarrow> epoch_fits spe (unat e) | Inl _ \<Rightarrow> True) | _ \<Rightarrow> True)"

fun answers_of :: "schedule_event \<Rightarrow> schedule_rpc set" where
  "answers_of (CheckSchedule rpc) = {rpc}"
| "answers_of ScheduleShutdown = {}"

text \<open>What a round of the task can do: nothing, replace the next schedule, or replace both.\<close>

lemma schedule_check_cases:
  assumes "schedule_check spe parse rpc t = Inr t'"
  shows "t' = t \<or> (\<exists>e a. rpc_epoch_info rpc = Inr (e, a) \<and>
    ((\<exists>s. e = mt_current_epoch t \<and> get_unnested_leader_schedule spe parse rpc (Some ((e + 1) * spe)) = Inr (Inr (Some s)) \<and>
        t' = t\<lparr>mt_shared := (mt_shared t)\<lparr>ms_buffer1 := s\<rparr>\<rparr>) \<or>
     (\<exists>s s'. get_unnested_leader_schedule spe parse rpc (Some (e * spe)) = Inr (Inr (Some s)) \<and>
        get_unnested_leader_schedule spe parse rpc (Some ((e + 1) * spe)) = Inr (Inr (Some s')) \<and>
        t' = t\<lparr>mt_shared := (mt_shared t)\<lparr>ms_buffer0 := s, ms_buffer1 := s'\<rparr>, mt_current_epoch := e\<rparr>)))"
proof (cases "rpc_epoch_info rpc")
  case (Inr info)
  obtain e a where info: "info = (e, a)" by fastforce
  show ?thesis
  proof (cases "e = mt_current_epoch t")
    case True
    then obtain x where x: "get_unnested_leader_schedule spe parse rpc (Some ((e + 1) * spe)) = Inr x"
      using assms Inr info by (auto simp: schedule_check_def Let_def)
    show ?thesis
    proof (cases "\<exists>s. x = Inr (Some s)")
      case False
      then have "t' = t" using assms Inr info True x by (auto simp: schedule_check_def Let_def split: sum.splits option.splits)
      then show ?thesis by blast
    qed (use assms Inr info True x in \<open>auto simp: schedule_check_def Let_def\<close>)
  next
    case neq: False
    then obtain x y where x: "get_unnested_leader_schedule spe parse rpc (Some (e * spe)) = Inr x"
      and y: "get_unnested_leader_schedule spe parse rpc (Some ((e + 1) * spe)) = Inr y"
      using assms Inr info by (auto simp: schedule_check_def Let_def)
    show ?thesis
    proof (cases "\<exists>s s'. x = Inr (Some s) \<and> y = Inr (Some s')")
      case False
      then have "t' = t" using assms Inr info neq x y by (auto simp: schedule_check_def Let_def split: sum.splits option.splits)
      then show ?thesis by blast
    qed (use assms Inr info neq x y in \<open>auto simp: schedule_check_def Let_def\<close>)
  qed
qed (use assms in \<open>simp add: schedule_check_def\<close>)

lemma schedule_check_knows:
  assumes "epoch_size_ok spe" and "task_knows spe parse rpcs t" and "reported_epoch_fits spe (CheckSchedule rpc)"
    and "schedule_check spe parse rpc t = Inr t'"
  shows "task_knows spe parse (insert rpc rpcs) t' \<and> mt_running t' = mt_running t"
proof -
  have sub: "{rpc} \<subseteq> insert rpc rpcs" "rpcs \<subseteq> insert rpc rpcs" by auto
  have same: "task_knows spe parse (insert rpc rpcs) t" using assms(2) buffer_for_mono [OF _ sub(2)] by (auto simp: task_knows_def)
  show ?thesis
  proof (cases "rpc_epoch_info rpc")
    case (Inl err)
    then show ?thesis using assms(4) same by (simp add: schedule_check_def)
  next
    case (Inr info)
    obtain e absolute_slot where info: "info = (e, absolute_slot)" by fastforce
    have fits: "epoch_fits spe (unat e)" using assms(3) Inr info by (simp add: reported_epoch_fits_def)
    note nxt = buffer_for_mono [OF fetched_next [OF assms(1) fits] sub(1)]
      and cur = buffer_for_mono [OF fetched_current [OF assms(1) fits] sub(1)]
    consider "t' = t"
      | (upd) s where "e = mt_current_epoch t" "get_unnested_leader_schedule spe parse rpc (Some ((e + 1) * spe)) = Inr (Inr (Some s))"
          "t' = t\<lparr>mt_shared := (mt_shared t)\<lparr>ms_buffer1 := s\<rparr>\<rparr>"
      | (both) s s' where "get_unnested_leader_schedule spe parse rpc (Some (e * spe)) = Inr (Inr (Some s))"
          "get_unnested_leader_schedule spe parse rpc (Some ((e + 1) * spe)) = Inr (Inr (Some s'))"
          "t' = t\<lparr>mt_shared := (mt_shared t)\<lparr>ms_buffer0 := s, ms_buffer1 := s'\<rparr>, mt_current_epoch := e\<rparr>"
      using schedule_check_cases [OF assms(4)] unfolding Inr info sum.inject prod.inject by blast
    then show ?thesis using same nxt cur fits by cases (auto simp: task_knows_def)
  qed
qed

lemma schedule_step_knows:
  assumes "epoch_size_ok spe" and "task_knows spe parse rpcs t" and "reported_epoch_fits spe ev"
  shows "task_knows spe parse (answers_of ev \<union> rpcs) (schedule_step spe parse ev t)"
proof -
  have mono: "task_knows spe parse (answers_of ev \<union> rpcs) t"
    using assms(2) buffer_for_mono [of spe parse rpcs _ _ "answers_of ev \<union> rpcs"] by (auto simp: task_knows_def)
  then have dropped: "task_knows spe parse (answers_of ev \<union> rpcs) (mark_failed_on_drop t)"
    by (simp add: task_knows_def mark_failed_on_drop_def)
  show ?thesis
  proof (cases ev)
    case (CheckSchedule rpc)
    then show ?thesis
      using mono dropped schedule_check_knows [OF assms(1,2) assms(3) [unfolded CheckSchedule]]
      by (auto simp: schedule_step_def split: sum.splits)
  next
    case ScheduleShutdown
    then show ?thesis using mono dropped by (simp add: schedule_step_def)
  qed
qed

lemma schedule_steps_know:
  assumes "epoch_size_ok spe" and "task_knows spe parse rpcs t" and "list_all (reported_epoch_fits spe) evs"
  shows "task_knows spe parse ((\<Union>ev \<in> set evs. answers_of ev) \<union> rpcs) (fold (schedule_step spe parse) evs t)"
  using assms(2,3)
proof (induction evs arbitrary: t rpcs)
  case (Cons ev evs)
  have "task_knows spe parse (answers_of ev \<union> rpcs) (schedule_step spe parse ev t)"
    using schedule_step_knows [OF assms(1) Cons.prems(1)] Cons.prems(2) by simp
  from Cons.IH [OF this] Cons.prems(2) show ?case by (simp add: Un_assoc Un_left_commute)
qed simp

lemma schedule_or_unavailable_Inr: "schedule_or_unavailable slot_ctx a = Inr s \<longleftrightarrow> a = Inr (Some s)"
  by (auto simp: schedule_or_unavailable_def split: sum.splits option.splits)

lemma spawn_knows:
  assumes "epoch_size_ok spe" and "spawn_managed_leader_schedule spe parse rpc = Inr (Inr t)"
    and "rpc_epoch_info rpc = Inr (e, absolute_slot)" and "epoch_fits spe (unat absolute_slot div unat spe)"
  shows "task_knows spe parse {rpc} t \<and> mt_running t"
proof -
  obtain a where a: "get_unnested_leader_schedule spe parse rpc None = Inr a"
    using assms(2) by (auto simp: spawn_managed_leader_schedule_def)
  then obtain initial where initial: "schedule_or_unavailable None a = Inr initial"
    using assms(2) by (auto simp: spawn_managed_leader_schedule_def split: sum.splits)
  then obtain b where b: "get_unnested_leader_schedule spe parse rpc (Some ((cs_first_slot initial div spe + 1) * spe)) = Inr b"
    using assms(2) a by (auto simp: spawn_managed_leader_schedule_def Let_def)
  then obtain nxt where nxt: "schedule_or_unavailable (Some ((cs_first_slot initial div spe + 1) * spe)) b = Inr nxt"
    using assms(2) a initial by (auto simp: spawn_managed_leader_schedule_def Let_def split: sum.splits)
  have "a = Inr (Some initial)" "b = Inr (Some nxt)" using initial nxt by (simp_all add: schedule_or_unavailable_Inr)
  then obtain resp where run: "rpc_get_leader_schedule rpc absolute_slot = Inr (Some resp)"
    "unnest_rpc_get_leader_schedule_resp spe parse absolute_slot resp = Inr initial"
    "get_unnested_leader_schedule spe parse rpc (Some ((cs_first_slot initial div spe + 1) * spe)) = Inr (Inr (Some nxt))"
    "t = \<lparr>mt_shared = \<lparr>ms_buffer0 = initial, ms_buffer1 = nxt, ms_fail = False\<rparr>,
          mt_current_epoch = cs_first_slot initial div spe, mt_running = True\<rparr>"
    using assms(2,3) a b initial nxt
    by (auto simp: spawn_managed_leader_schedule_def get_unnested_leader_schedule_def [of spe parse rpc None] Let_def split: sum.splits option.splits)
  have spe: "0 < unat spe" using assms(1) by (simp add: epoch_size_ok_def)
  have "(unat absolute_slot div unat spe + 1) * unat spe < 2 ^ 64" using assms(4) by (simp add: epoch_fits_def algebra_simps)
  from unnest_buffer [OF assms(1) this run(1,2)]
  have b0: "buffer_for spe parse {rpc} (unat absolute_slot div unat spe) initial" .
  then have e: "unat (cs_first_slot initial div spe) = unat absolute_slot div unat spe" using spe by (simp add: buffer_for_def unat_div)
  from fetched_next [OF assms(1) _ run(3)] have "buffer_for spe parse {rpc} (unat absolute_slot div unat spe + 1) nxt"
    unfolding e using assms(4) by blast
  then show ?thesis using b0 e assms(4) run(4) by (simp add: task_knows_def)
qed

lemma task_knows_lookup:
  assumes "epoch_size_ok spe" and "task_knows spe parse rpcs t" and "mt_running t"
  shows "get_leader spe (mt_shared t) slot = Inr
    (if unat slot div unat spe = unat (mt_current_epoch t)
     then Some (cs_schedule (ms_buffer0 (mt_shared t)) ! (unat slot mod unat spe div 4))
     else if unat slot div unat spe = unat (mt_current_epoch t) + 1
     then Some (cs_schedule (ms_buffer1 (mt_shared t)) ! (unat slot mod unat spe div 4))
     else None)"
proof -
  let ?e = "unat (mt_current_epoch t)" and ?b0 = "ms_buffer0 (mt_shared t)" and ?b1 = "ms_buffer1 (mt_shared t)"
  have spe: "0 < unat spe" using assms(1) by (simp add: epoch_size_ok_def)
  have b0: "schedule_wf spe ?b0" "unat (cs_first_slot ?b0) = ?e * unat spe" and b1: "schedule_wf spe ?b1" "unat (cs_first_slot ?b1) = (?e + 1) * unat spe"
    and ok: "\<not> ms_fail (mt_shared t)" using assms(2,3) by (simp_all add: task_knows_def buffer_for_def)
  have "cs_first_slot ?b1 \<le> slot \<longleftrightarrow> ?e + 1 \<le> unat slot div unat spe"
    unfolding word_le_nat_alt b1(2) using spe by (simp add: less_eq_div_iff_mult_less_eq)
  then show ?thesis
    using ok compact_get_epoch [OF b0, of slot] compact_get_epoch [OF b1, of slot]
    by (auto simp: get_leader_def get_leader_from_schedules_def)
qed


section \<open>Upcoming leaders\<close>

definition first_occurrences :: "'a list \<Rightarrow> 'a list" where
  "first_occurrences xs = rev (remdups (rev xs))"

lemma first_occurrences_props [simp]:
  "distinct (first_occurrences xs)" "set (first_occurrences xs) = set xs" "length (first_occurrences xs) \<le> length xs"
  by (simp_all add: first_occurrences_def length_remdups_leq [of "rev xs", simplified])

lemma first_occurrences_distinct: "distinct xs \<Longrightarrow> first_occurrences xs = xs"
  by (simp add: first_occurrences_def distinct_remdups_id)

lemma map_filter_map: "List.map_filter f (map g xs) = List.map_filter (\<lambda>x. f (g x)) xs"
  by (induction xs) (simp_all add: map_filter_simps split: option.split)

lemma first_occurrences_drop: "x \<in> set xs \<Longrightarrow> first_occurrences (xs @ x # ys) = first_occurrences (xs @ ys)"
  using remdups_append2 [of "rev ys" "x # rev xs"] remdups_append2 [of "rev ys" "rev xs"]
  by (simp add: first_occurrences_def)

lemma push_unique_eq:
  "distinct acc \<Longrightarrow> push_unique look slots acc = first_occurrences (acc @ List.map_filter look slots)"
proof (induction slots arbitrary: acc)
  case Nil
  then show ?case by (simp add: first_occurrences_distinct map_filter_simps)
next
  case (Cons slot slots)
  show ?case
  proof (cases "look slot")
    case None
    then show ?thesis using Cons by (simp add: map_filter_simps)
  next
    case (Some leader)
    then show ?thesis using Cons.IH [of acc] Cons.IH [of "acc @ [leader]"] Cons.prems
      by (simp add: map_filter_simps first_occurrences_drop)
  qed
qed

lemma saturating_add_no_wrap: "unat a + unat b < 2 ^ 64 \<Longrightarrow> u64_saturating_add a b = a + b"
  by (auto simp: u64_saturating_add_def word_less_nat_alt u64_add_no_wrap)

text \<open>
  The leaders of a fanout: those of the slots \<open>current + 4 k\<close>, one for each of the next \<open>fanout / 4\<close> windows, rounded up,
  beginning with the present one; each once, in the order of their windows.
\<close>

lemma unique_leaders_eq:
  assumes "unat current + unat fanout < 2 ^ 64"
  shows "get_unique_leaders_for_slot_fanout spe m current fanout =
    (if ms_fail m then Inl SchedulePoisonError
     else Inr (first_occurrences (List.map_filter (\<lambda>k. get_leader_from_schedules spe m (current + 4 * of_nat k))
       [0..<(unat fanout + 3) div 4])))"
proof -
  have "range_step_by_4 current (u64_saturating_add current fanout) = map (\<lambda>k. current + 4 * of_nat k) [0..<(unat fanout + 3) div 4]"
    by (simp add: range_step_by_4_def saturating_add_no_wrap [OF assms] u64_add_no_wrap [OF assms])
  then show ?thesis by (simp add: get_unique_leaders_for_slot_fanout_def push_unique_eq map_filter_map)
qed

lemma collect_leaders_eq:
  "\<not> ms_fail m \<Longrightarrow> collect_leaders spe m slots acc = acc @ List.map_filter (get_leader_from_schedules spe m) slots"
  by (induction slots arbitrary: acc) (auto simp: map_filter_simps get_leader_def split: option.splits)

lemma leader_boundary: "u64_saturating_sub slot (slot mod 4) = 4 * (slot div 4)"
proof -
  have "slot mod 4 \<le> slot" by (simp add: word_le_nat_alt unat_mod)
  then have "u64_saturating_sub slot (slot mod 4) = slot - slot mod 4" by (auto simp: u64_saturating_sub_def)
  also have "\<dots> = 4 * (slot div 4)" by (metis add_diff_cancel_right' word_mod_div_equality mult.commute)
  finally show ?thesis .
qed

text \<open>The prediction: the leaders of the window of the present slot and of those that follow, as far as they are known.\<close>

lemma predicted_leaders_eq:
  assumes "\<not> ms_fail m" and "\<not> st_closed tracker"
  shows "yellowstone_predict_next_n_leaders spe tracker m n =
    List.map_filter (\<lambda>i. get_leader_from_schedules spe m (4 * (st_slot tracker div 4) + of_nat (i * 4))) [0..<n]"
  using assms by (simp add: yellowstone_predict_next_n_leaders_def tracker_load_def leader_boundaries_def Let_def
      leader_boundary collect_leaders_eq map_filter_map)

lemma no_prediction_when_unavailable:
  "ms_fail m \<or> st_closed tracker \<Longrightarrow> yellowstone_predict_next_n_leaders spe tracker m n = []"
proof -
  have "collect_leaders spe m slots [] = []" if "ms_fail m" for slots using that by (cases slots) (simp_all add: get_leader_def)
  then show "ms_fail m \<or> st_closed tracker \<Longrightarrow> ?thesis" by (auto simp: yellowstone_predict_next_n_leaders_def tracker_load_def)
qed

section \<open>Concrete runs\<close>

definition ex_items :: "slot list \<Rightarrow> stream_item list" where
  "ex_items slots = map (\<lambda>s. StreamUpdate (Some (UpdateSlot s))) slots"

theorem slot_tracker_follows_newest_witness:
  "\<exists>t rest t1 delays t2 ex. atomic_slot_tracker (Inr (ex_items [7, 9, 8])) = Inr (Some (t, rest)) \<and>
     slot_tracker_reconnect_loop [(1, ex_items [5])] rest t = (t1, delays) \<and>
     process_slot_tracker_stream (ex_items [9, 12]) t1 = (t2, ex) \<and> st_slot t1 = 9 \<and> tracker_load t2 = Inr 12"
proof -
  obtain t rest where t: "atomic_slot_tracker (Inr (ex_items [7, 9, 8])) = Inr (Some (t, rest))"
    by (simp add: ex_items_def atomic_slot_tracker_def)
  obtain t1 delays where t1: "slot_tracker_reconnect_loop [(1, ex_items [5])] rest t = (t1, delays)" by fastforce
  obtain t2 ex where t2: "process_slot_tracker_stream (ex_items [9, 12]) t1 = (t2, ex)" by fastforce
  from slot_tracker_follows_newest [OF t t1 t2] t t1 t2 show ?thesis by (simp add: ex_items_def)
qed

definition ex_print :: "pubkey \<Rightarrow> string" where
  "ex_print pk = (case pk of Pubkey n \<Rightarrow> replicate n CHR ''x'')"

definition ex_parse_length :: "string \<Rightarrow> pubkey option" where
  "ex_parse_length s = Some (Pubkey (length s))"

lemma ex_parse_print: "ex_parse_length (ex_print pk) = Some pk"
  by (cases pk) (simp add: ex_parse_length_def ex_print_def)

theorem leader_schedule_round_trip_witness:
  "\<exists>s. unnest_rpc_get_leader_schedule_resp 8 ex_parse_length 9 (nested_schedule ex_print [Pubkey 3, Pubkey 5]) = Inr s \<and>
     compact_get 8 s 13 = Some (Pubkey 5) \<and> compact_get 8 s 16 = None"
proof -
  have "epoch_size_ok 8" by (simp add: epoch_size_ok_def)
  from leader_schedule_round_trip [OF this ex_parse_print, of "[Pubkey 3, Pubkey 5]" 9] obtain s
    where "unnest_rpc_get_leader_schedule_resp 8 ex_parse_length 9 (nested_schedule ex_print [Pubkey 3, Pubkey 5]) = Inr s"
      and "\<And>slot'. compact_get 8 s slot' = (if unat slot' div 8 = 1 then Some ([Pubkey 3, Pubkey 5] ! (unat slot' mod 8 div 4)) else None)"
    by auto
  then show ?thesis by (intro exI [of _ s]) simp
qed

definition ex_schedule_rpc :: "u64 \<Rightarrow> slot \<Rightarrow> schedule_rpc" where
  "ex_schedule_rpc epoch absolute = \<lparr>rpc_epoch_info = Inr (epoch, absolute),
     rpc_get_leader_schedule = (\<lambda>slot. Inr (Some [(ex_print (Pubkey (unat slot)), [0, 4])]))\<rparr>"

lemma ex_unnest:
  "unnest_rpc_get_leader_schedule_resp 8 ex_parse_length slot [(ex_print (Pubkey n), [0, 4])] =
     Inr \<lparr>cs_first_slot = slot div 8 * 8, cs_schedule = [Pubkey n, Pubkey n]\<rparr>"
proof -
  have "unat (8 :: u64) div 4 = Suc (Suc 0)" by simp
  then have "replicate (unat (8 :: u64) div 4) x = [x, x]" for x :: pubkey by (simp only: replicate.simps)
  then show ?thesis by (simp add: unnest_rpc_get_leader_schedule_resp_def ex_parse_print vec_set_def)
qed

definition ex_schedule_task :: "u64 \<Rightarrow> nat \<Rightarrow> nat \<Rightarrow> schedule_task" where
  "ex_schedule_task e a b =
     \<lparr>mt_shared = \<lparr>ms_buffer0 = \<lparr>cs_first_slot = e * 8, cs_schedule = [Pubkey a, Pubkey a]\<rparr>,
                   ms_buffer1 = \<lparr>cs_first_slot = (e + 1) * 8, cs_schedule = [Pubkey b, Pubkey b]\<rparr>, ms_fail = False\<rparr>,
      mt_current_epoch = e, mt_running = True\<rparr>"

lemma ex_schedule_spawn:
  "spawn_managed_leader_schedule 8 ex_parse_length (ex_schedule_rpc 1 9) = Inr (Inr (ex_schedule_task 1 9 16))"
  by (simp add: spawn_managed_leader_schedule_def get_unnested_leader_schedule_def ex_schedule_rpc_def ex_unnest
      schedule_or_unavailable_def ex_schedule_task_def)

lemma ex_schedule_step:
  "schedule_step 8 ex_parse_length (CheckSchedule (ex_schedule_rpc 2 20)) (ex_schedule_task 1 9 16) = ex_schedule_task 2 16 24"
  by (simp add: schedule_step_def schedule_check_def get_unnested_leader_schedule_def ex_schedule_rpc_def ex_unnest ex_schedule_task_def)


end
