(* ===== verification/Tpu_Sender.thy ===== *)
theory Tpu_Sender
  imports Tpu_Schedule Jet_Watcher
begin

text \<open>
  \<open>crates/tpu-client/src/sender.rs\<close> and \<open>yellowstone_grpc/sender.rs\<close>: the sender a program embeds. It takes a
  transaction, asks the slot tracker for the slot and the managed schedule for the leaders, and puts one copy per
  leader into the bounded channel of the driver.

  The channel is the record \<open>txn_channel\<close>. The services of addresses are those of \<open>Jet_Watcher\<close>, which the crate has in the
  same form. The background tasks of a sender are a list of statuses; the overseer waits for the first of them to
  end, or for the last sender to be dropped, and aborts the others. \<open>create_sender\<close> is the construction, with the
  outcomes of the four services it starts.
\<close>

section \<open>The channel\<close>

record tpu_sender_txn =
  tt_tx_sig :: signature
  tt_wire :: bytes
  tt_remote_peer :: pubkey

record txn_channel =
  tc_queue :: "tpu_sender_txn list"
  tc_capacity :: nat
  tc_closed :: bool

datatype tpu_sender_error_kind = SenderFull | SenderClosed

definition try_send_txn :: "tpu_sender_txn \<Rightarrow> txn_channel \<Rightarrow> txn_channel \<times> (tpu_sender_error_kind + unit)" where
  "try_send_txn txn ch =
     (if tc_closed ch then (ch, Inl SenderClosed)
      else if tc_capacity ch \<le> length (tc_queue ch) then (ch, Inl SenderFull)
      else (ch\<lparr>tc_queue := tc_queue ch @ [txn]\<rparr>, Inr ()))"

section \<open>Sending\<close>

record yellowstone_sender =
  ys_channel :: txn_channel
  ys_slot_tracker :: slot_tracker
  ys_leader_schedule :: managed_schedule
  ys_leader_tpu_info :: tpu_info_service
  ys_tpu_port_kind :: config_quic_tpu_port
  ys_send_fanout_slots :: u64

datatype send_error_kind =
    SendClosed
  | SendFull
  | SlotTrackerDisconnected
  | ManagedLeaderScheduleDisconnected
  | UnknownLeader

text \<open>
  One copy. \<open>sent_addr\<close> is the address of the last copy, or \<open>None\<close> outside when copies are not compared; a leader with
  the same known address counts as served.
\<close>

definition send_txn_to_leader ::
  "yellowstone_sender \<Rightarrow> signature \<Rightarrow> bytes \<Rightarrow> pubkey \<Rightarrow> socket_addr option option \<Rightarrow> txn_channel
     \<Rightarrow> txn_channel \<times> socket_addr option option \<times> (send_error_kind + unit)" where
  "send_txn_to_leader s sig wire_txn leader sent_addr ch =
     (let queued_addr = (case sent_addr of
            None \<Rightarrow> None
          | Some _ \<Rightarrow> get_quic_dest_addr (ys_leader_tpu_info s) leader (ys_tpu_port_kind s))
      in if queued_addr \<noteq> None \<and> sent_addr = Some queued_addr then (ch, sent_addr, Inr ())
         else case try_send_txn \<lparr>tt_tx_sig = sig, tt_wire = wire_txn, tt_remote_peer = leader\<rparr> ch of
                (ch', Inl SenderClosed) \<Rightarrow> (ch', sent_addr, Inl SendClosed)
              | (ch', Inl SenderFull) \<Rightarrow> (ch', sent_addr, Inl SendFull)
              | (ch', Inr _) \<Rightarrow>
                  (ch', (case (sent_addr, queued_addr) of (Some _, Some addr) \<Rightarrow> Some (Some addr) | _ \<Rightarrow> sent_addr), Inr ()))"

fun send_to_all ::
  "yellowstone_sender \<Rightarrow> signature \<Rightarrow> bytes \<Rightarrow> pubkey list \<Rightarrow> socket_addr option option \<Rightarrow> send_error_kind option \<Rightarrow> bool \<Rightarrow> txn_channel
     \<Rightarrow> txn_channel \<times> send_error_kind option \<times> bool" where
  "send_to_all s sig wire_txn [] sent_addr first_error sent_any ch = (ch, first_error, sent_any)"
| "send_to_all s sig wire_txn (leader # rest) sent_addr first_error sent_any ch =
     (case send_txn_to_leader s sig wire_txn leader sent_addr ch of
        (ch', sent_addr', Inr _) \<Rightarrow> send_to_all s sig wire_txn rest sent_addr' first_error True ch'
      | (ch', sent_addr', Inl kind) \<Rightarrow>
          send_to_all s sig wire_txn rest sent_addr'
            (if first_error = None then Some kind else first_error) sent_any ch')"

definition send_txn_fanout ::
  "u64 \<Rightarrow> signature \<Rightarrow> bytes \<Rightarrow> yellowstone_sender \<Rightarrow> yellowstone_sender \<times> (send_error_kind \<times> bytes + unit)" where
  "send_txn_fanout spe sig wire_txn s =
     (case tracker_load (ys_slot_tracker s) of
        Inl _ \<Rightarrow> (s, Inl (SlotTrackerDisconnected, wire_txn))
      | Inr current_slot \<Rightarrow>
          (case get_unique_leaders_for_slot_fanout spe (ys_leader_schedule s) current_slot (ys_send_fanout_slots s) of
             Inl _ \<Rightarrow> (s, Inl (ManagedLeaderScheduleDisconnected, wire_txn))
           | Inr leaders \<Rightarrow>
               if leaders = [] then (s, Inl (UnknownLeader, wire_txn))
               else let dedupe_by_addr = (length leaders > 1);
                        (ch, first_error, sent_any) =
                          send_to_all s sig wire_txn leaders (if dedupe_by_addr then Some None else None) None False (ys_channel s)
                    in (s\<lparr>ys_channel := ch\<rparr>,
                        if sent_any then Inr ()
                        else Inl ((case first_error of Some kind \<Rightarrow> kind | None \<Rightarrow> UnknownLeader), wire_txn))))"

section \<open>Background tasks\<close>

datatype task_status = TaskRunning | TaskFinished | TaskAborted

record dependencies =
  dp_handle_names :: "string list"
  dp_handles :: "task_status list"

definition dependencies_default :: dependencies where
  "dependencies_default = \<lparr>dp_handle_names = [], dp_handles = []\<rparr>"

definition dependencies_push :: "string \<Rightarrow> task_status \<Rightarrow> dependencies \<Rightarrow> dependencies" where
  "dependencies_push name handle d =
     d\<lparr>dp_handle_names := dp_handle_names d @ [name], dp_handles := dp_handles d @ [handle]\<rparr>"

definition abort_all :: "dependencies \<Rightarrow> dependencies" where
  "abort_all d = d\<lparr>dp_handles := map (\<lambda>st. if st = TaskRunning then TaskAborted else st) (dp_handles d)\<rparr>"

datatype overseer_event = DependencyFinished nat | LastSenderDropped | OverseerAborted

record overseer =
  ov_dependencies :: dependencies
  ov_done :: bool

definition overseer_new :: "dependencies \<Rightarrow> overseer" where
  "overseer_new d = \<lparr>ov_dependencies = d, ov_done = (dp_handles d = [])\<rparr>"

text \<open>
  The overseer: a finished dependency, the shutdown of the sender, and its own abortion, each of which ends it.
\<close>

definition overseer_step :: "overseer_event \<Rightarrow> overseer \<Rightarrow> overseer" where
  "overseer_step ev o' =
     (let d = ov_dependencies o'
      in case ev of
           DependencyFinished i \<Rightarrow>
             if i < length (dp_handles d) \<and> dp_handles d ! i = TaskRunning
             then let d1 = d\<lparr>dp_handles := (dp_handles d)[i := TaskFinished]\<rparr>
                  in if ov_done o' then o'\<lparr>ov_dependencies := d1\<rparr> else o'\<lparr>ov_dependencies := abort_all d1, ov_done := True\<rparr>
             else o'
         | LastSenderDropped \<Rightarrow> if ov_done o' then o' else o'\<lparr>ov_dependencies := abort_all d, ov_done := True\<rparr>
         | OverseerAborted \<Rightarrow> if ov_done o' then o' else o'\<lparr>ov_dependencies := abort_all d, ov_done := True\<rparr>)"

section \<open>Construction\<close>

datatype create_sender_error =
    CreateRpcClientError client_error
  | CreateLeaderScheduleError spawn_schedule_error
  | CreateYellowstoneGrpcError string
  | GeyserSubscriptionEnded

definition max_send_fanout_slots :: u64 where
  "max_send_fanout_slots = 100"

text \<open>
  The four services in the order they are started. A failure drops the guard over the tasks that were started before, which
  aborts them; the result has the tasks in either case.
\<close>

definition create_sender ::
  "u64 \<Rightarrow> config_quic_tpu_port \<Rightarrow> nat \<Rightarrow> client_error + tpu_info_service \<Rightarrow> spawn_schedule_error + managed_schedule
     \<Rightarrow> client_error + 'stake \<Rightarrow> string + slot_tracker option
     \<Rightarrow> dependencies \<times> (create_sender_error + yellowstone_sender)" where
  "create_sender configured_fanout port capacity tpu_info schedule stake tracker =
     (let d0 = dependencies_default
      in case tpu_info of
           Inl err \<Rightarrow> (abort_all d0, Inl (CreateRpcClientError err))
         | Inr tpu_info_service \<Rightarrow>
             (let d1 = dependencies_push ''tpu-info-service'' TaskRunning d0
              in case schedule of
                   Inl err \<Rightarrow> (abort_all d1, Inl (CreateLeaderScheduleError err))
                 | Inr managed_leader_schedule \<Rightarrow>
                     (let d2 = dependencies_push ''managed-leader-schedule'' TaskRunning d1
                      in case stake of
                           Inl err \<Rightarrow> (abort_all d2, Inl (CreateRpcClientError err))
                         | Inr stake_service \<Rightarrow>
                             (let d3 = dependencies_push ''stake-info-service'' TaskRunning d2
                              in case tracker of
                                   Inl err \<Rightarrow> (abort_all d3, Inl (CreateYellowstoneGrpcError err))
                                 | Inr None \<Rightarrow> (abort_all d3, Inl GeyserSubscriptionEnded)
                                 | Inr (Some tracker_handle) \<Rightarrow>
                                     (dependencies_push ''slot-tracker'' TaskRunning d3,
                                      Inr \<lparr>ys_channel = \<lparr>tc_queue = [], tc_capacity = capacity, tc_closed = False\<rparr>,
                                           ys_slot_tracker = tracker_handle, ys_leader_schedule = managed_leader_schedule,
                                           ys_leader_tpu_info = tpu_info_service, ys_tpu_port_kind = port,
                                           ys_send_fanout_slots = min configured_fanout max_send_fanout_slots\<rparr>)))))"

section \<open>What a send puts into the channel\<close>

text \<open>The leaders that get a copy of their own: a leader whose known address is that of the last copy is left out.\<close>

fun coalesce :: "(pubkey \<Rightarrow> socket_addr option) \<Rightarrow> pubkey list \<Rightarrow> socket_addr option \<Rightarrow> pubkey list" where
  "coalesce addr [] prev = []"
| "coalesce addr (leader # rest) prev =
     (case addr leader of
        None \<Rightarrow> leader # coalesce addr rest prev
      | Some a \<Rightarrow> if prev = Some a then coalesce addr rest prev else leader # coalesce addr rest (Some a))"

definition room :: "txn_channel \<Rightarrow> nat" where
  "room ch = (if tc_closed ch then 0 else tc_capacity ch - length (tc_queue ch))"

abbreviation copy_for :: "signature \<Rightarrow> bytes \<Rightarrow> pubkey \<Rightarrow> tpu_sender_txn" where
  "copy_for sig wire leader \<equiv> \<lparr>tt_tx_sig = sig, tt_wire = wire, tt_remote_peer = leader\<rparr>"

declare get_quic_dest_addr.simps [simp del]

lemma try_send_room:
  "0 < room ch \<Longrightarrow> try_send_txn txn ch = (ch\<lparr>tc_queue := tc_queue ch @ [txn]\<rparr>, Inr ())"
  "room ch = 0 \<Longrightarrow> \<exists>e. try_send_txn txn ch = (ch, Inl e) \<and> e = (if tc_closed ch then SenderClosed else SenderFull)"
  by (auto simp: room_def try_send_txn_def split: if_splits)

lemma room_push: "0 < room ch \<Longrightarrow> room (ch\<lparr>tc_queue := tc_queue ch @ [txn]\<rparr>) = room ch - 1"
  by (auto simp: room_def split: if_splits)

definition no_room_error :: "txn_channel \<Rightarrow> send_error_kind" where
  "no_room_error ch = (if tc_closed ch then SendClosed else SendFull)"

text \<open>Without room nothing is put into the channel; a leader is served only by an earlier copy.\<close>

lemma send_to_all_no_room:
  assumes "room ch = 0"
  shows "\<exists>err any'. send_to_all s sig wire leaders sent err0 any ch = (ch, err, any') \<and> (any \<longrightarrow> any') \<and>
    (sent = None \<or> sent = Some None \<longrightarrow> any' = any \<and>
      err = (if err0 = None \<and> leaders \<noteq> [] then Some (no_room_error ch) else err0))"
proof (induction leaders arbitrary: err0 any)
  case (Cons leader rest)
  let ?q = "case sent of None \<Rightarrow> None | Some _ \<Rightarrow> get_quic_dest_addr (ys_leader_tpu_info s) leader (ys_tpu_port_kind s)"
  show ?case
  proof (cases "?q \<noteq> None \<and> sent = Some ?q")
    case True
    then have "send_txn_to_leader s sig wire leader sent ch = (ch, sent, Inr ())" by (simp add: send_txn_to_leader_def Let_def)
    then show ?thesis using Cons.IH [of err0 True] True by auto
  next
    case False
    have "send_txn_to_leader s sig wire leader sent ch = (ch, sent, Inl (no_room_error ch))"
      using try_send_room(2) [OF assms, of "copy_for sig wire leader"] False
      by (auto simp: send_txn_to_leader_def Let_def no_room_error_def)
    then show ?thesis using Cons.IH [of "if err0 = None then Some (no_room_error ch) else err0" any] by auto
  qed
qed auto

definition leader_addr :: "yellowstone_sender \<Rightarrow> pubkey \<Rightarrow> socket_addr option" where
  "leader_addr s leader = get_quic_dest_addr (ys_leader_tpu_info s) leader (ys_tpu_port_kind s)"

text \<open>The leaders that get a copy, for either way of sending.\<close>

definition served :: "yellowstone_sender \<Rightarrow> socket_addr option option \<Rightarrow> pubkey list \<Rightarrow> pubkey list" where
  "served s sent leaders = (case sent of None \<Rightarrow> leaders | Some prev \<Rightarrow> coalesce (leader_addr s) leaders prev)"

lemma send_to_leader_room:
  assumes "0 < room ch"
  shows "send_txn_to_leader s sig wire leader sent ch =
    (case sent of
       None \<Rightarrow> (ch\<lparr>tc_queue := tc_queue ch @ [copy_for sig wire leader]\<rparr>, None, Inr ())
     | Some prev \<Rightarrow>
         (case leader_addr s leader of
            None \<Rightarrow> (ch\<lparr>tc_queue := tc_queue ch @ [copy_for sig wire leader]\<rparr>, sent, Inr ())
          | Some a \<Rightarrow> if prev = Some a then (ch, sent, Inr ())
                      else (ch\<lparr>tc_queue := tc_queue ch @ [copy_for sig wire leader]\<rparr>, Some (Some a), Inr ())))"
proof (cases sent)
  case None
  then show ?thesis by (simp add: send_txn_to_leader_def Let_def try_send_room(1) [OF assms])
next
  case (Some prev)
  then show ?thesis
    by (cases "leader_addr s leader") (simp_all add: send_txn_to_leader_def Let_def try_send_room(1) [OF assms] leader_addr_def)
qed

lemma send_to_all_queue:
  "\<exists>err any'. send_to_all s sig wire leaders sent err0 any ch =
     (ch\<lparr>tc_queue := tc_queue ch @ map (copy_for sig wire) (take (room ch) (served s sent leaders))\<rparr>, err, any') \<and>
     (any \<longrightarrow> any')"
proof (induction leaders arbitrary: sent err0 any ch)
  case Nil
  then show ?case by (simp add: served_def split: option.splits)
next
  case (Cons leader rest)
  show ?case
  proof (cases "room ch = 0")
    case True
    then show ?thesis using send_to_all_no_room [OF True, of s sig wire "leader # rest" sent err0 any] by auto
  next
    case False
    then have pos: "0 < room ch" by simp
    let ?ch = "ch\<lparr>tc_queue := tc_queue ch @ [copy_for sig wire leader]\<rparr>"
    have room: "room ch = Suc (room ?ch)" using room_push [OF pos] False by simp
    note step = send_to_leader_room [OF pos, of s sig wire leader sent]
    consider (skip) a where "sent = Some (Some a)" "leader_addr s leader = Some a"
      | (push) sent' where "send_txn_to_leader s sig wire leader sent ch = (?ch, sent', Inr ())"
          "served s sent (leader # rest) = leader # served s sent' rest"
      using step by (auto simp: served_def split: option.splits if_splits)
    then show ?thesis
    proof cases
      case skip
      then show ?thesis using step Cons.IH [of sent err0 True ch] by (auto simp: served_def)
    next
      case push
      then show ?thesis using Cons.IH [of sent' err0 True ?ch] room by auto
    qed
  qed
qed

lemma send_to_all_any:
  assumes "leaders \<noteq> []" and "sent = None \<or> sent = Some None"
    and "send_to_all s sig wire leaders sent None False ch = (ch', err, any')"
  shows "any' = (0 < room ch)" and "room ch = 0 \<Longrightarrow> err = Some (no_room_error ch)"
proof -
  obtain leader rest where l: "leaders = leader # rest" using assms(1) by (cases leaders) auto
  have no: "\<not> any' \<and> err = Some (no_room_error ch)" if "room ch = 0"
    using send_to_all_no_room [OF that, of s sig wire leaders sent None False] assms by auto
  have yes: any' if pos: "0 < room ch"
  proof -
    obtain ch1 sent1 where "send_txn_to_leader s sig wire leader sent ch = (ch1, sent1, Inr ())"
      using send_to_leader_room [OF pos, of s sig wire leader sent] assms(2) by (auto split: option.splits)
    then show ?thesis using send_to_all_queue [of s sig wire rest sent1 None True ch1] assms(3) l by auto
  qed
  show "any' = (0 < room ch)" using no yes by auto
  show "room ch = 0 \<Longrightarrow> err = Some (no_room_error ch)" using no by blast
qed

lemma coalesce_subseq: "subseq (coalesce addr leaders prev) leaders"
  by (induction leaders arbitrary: prev) (auto split: option.splits)

lemma coalesce_covers:
  "leader \<in> set leaders \<Longrightarrow> leader \<in> set (coalesce addr leaders prev) \<or>
     (addr leader \<noteq> None \<and> (prev = addr leader \<or> (\<exists>leader' \<in> set (coalesce addr leaders prev). addr leader' = addr leader)))"
proof (induction leaders arbitrary: prev)
  case (Cons l rest)
  show ?case
  proof (cases "addr l = None \<or> prev = addr l")
    case True
    then show ?thesis using Cons.IH [of prev] Cons.prems by (auto split: option.splits)
  next
    case False
    then show ?thesis using Cons.IH [of "addr l"] Cons.prems by (auto split: option.splits)
  qed
qed simp

lemma subseq_set_distinct_plan: "subseq xs ys \<Longrightarrow> distinct ys \<Longrightarrow> distinct xs \<and> set xs \<subseteq> set ys"
  by (metis notin_set_nthsI subseq_conv_nths distinct_nthsI subsetI)

text \<open>
  C35. The outcome of sending a transaction, in every case. With a slot and a schedule, the leaders are those of the windows
  of the fanout, each once; those whose known address is that of the leader before them share its copy, and the others
  get one copy each, in order, as long as the channel has room. The call succeeds exactly when a copy was queued; it reports
  a closed or full channel otherwise. Without a slot, a schedule or a leader it reports that and queues nothing.
  Every leader left out has the address of one that is served.
\<close>

theorem send_txn_fanout_outcome:
  assumes "unat (st_slot (ys_slot_tracker s)) + unat (ys_send_fanout_slots s) < 2 ^ 64"
    and "leaders = first_occurrences (List.map_filter
      (\<lambda>k. get_leader_from_schedules spe (ys_leader_schedule s) (st_slot (ys_slot_tracker s) + 4 * of_nat k))
      [0..<(unat (ys_send_fanout_slots s) + 3) div 4])"
    and "plan = (if length leaders > 1 then coalesce (leader_addr s) leaders None else leaders)"
  shows "send_txn_fanout spe sig wire s =
      (if st_closed (ys_slot_tracker s) then (s, Inl (SlotTrackerDisconnected, wire))
       else if ms_fail (ys_leader_schedule s) then (s, Inl (ManagedLeaderScheduleDisconnected, wire))
       else if leaders = [] then (s, Inl (UnknownLeader, wire))
       else (s\<lparr>ys_channel := (ys_channel s)\<lparr>tc_queue := tc_queue (ys_channel s) @
               map (copy_for sig wire) (take (room (ys_channel s)) plan)\<rparr>\<rparr>,
             if 0 < room (ys_channel s) then Inr () else Inl (no_room_error (ys_channel s), wire))) \<and>
    distinct plan \<and> set plan \<subseteq> set leaders \<and>
    (\<forall>leader \<in> set leaders - set plan. \<exists>leader' \<in> set plan. leader_addr s leader' = leader_addr s leader)"
proof -
  let ?ch = "ys_channel s" and ?sent = "if length leaders > 1 then Some None else None"
  have plan: "plan = served s ?sent leaders" using assms(3) by (simp add: served_def)
  have uniq: "get_unique_leaders_for_slot_fanout spe (ys_leader_schedule s) (st_slot (ys_slot_tracker s)) (ys_send_fanout_slots s) =
      (if ms_fail (ys_leader_schedule s) then Inl SchedulePoisonError else Inr leaders)"
    unfolding unique_leaders_eq [OF assms(1)] assms(2) by simp
  obtain err any' where run: "send_to_all s sig wire leaders ?sent None False ?ch =
      (?ch\<lparr>tc_queue := tc_queue ?ch @ map (copy_for sig wire) (take (room ?ch) plan)\<rparr>, err, any')"
    using send_to_all_queue [of s sig wire leaders ?sent None False ?ch] plan by auto
  have any: "any' = (0 < room ?ch)" "room ?ch = 0 \<Longrightarrow> err = Some (no_room_error ?ch)" if "leaders \<noteq> []"
    using send_to_all_any [OF that _ run] by auto
  have dist: "distinct leaders" unfolding assms(2) by simp
  have sub: "subseq plan leaders" using assms(3) coalesce_subseq by auto
  have "\<exists>leader' \<in> set plan. leader_addr s leader' = leader_addr s leader" if "leader \<in> set leaders - set plan" for leader
    using coalesce_covers [of leader leaders "leader_addr s" None] that assms(3) by (auto split: if_splits)
  moreover have "distinct plan" "set plan \<subseteq> set leaders" using subseq_set_distinct_plan [OF sub dist] by auto
  moreover have "send_txn_fanout spe sig wire s =
      (if st_closed (ys_slot_tracker s) then (s, Inl (SlotTrackerDisconnected, wire))
       else if ms_fail (ys_leader_schedule s) then (s, Inl (ManagedLeaderScheduleDisconnected, wire))
       else if leaders = [] then (s, Inl (UnknownLeader, wire))
       else (s\<lparr>ys_channel := ?ch\<lparr>tc_queue := tc_queue ?ch @ map (copy_for sig wire) (take (room ?ch) plan)\<rparr>\<rparr>,
             if 0 < room ?ch then Inr () else Inl (no_room_error ?ch, wire)))"
    using any run by (auto simp: send_txn_fanout_def tracker_load_def uniq Let_def split: if_splits)
  ultimately show ?thesis by blast
qed

definition ex_sender :: yellowstone_sender where
  "ex_sender = \<lparr>ys_channel = \<lparr>tc_queue = [], tc_capacity = 8, tc_closed = False\<rparr>, ys_slot_tracker = tracker_new 1,
     ys_leader_schedule = \<lparr>ms_buffer0 = \<lparr>cs_first_slot = 0, cs_schedule = [Pubkey 1, Pubkey 2, Pubkey 3, Pubkey 1]\<rparr>,
       ms_buffer1 = \<lparr>cs_first_slot = 16, cs_schedule = [Pubkey 1, Pubkey 2, Pubkey 3, Pubkey 1]\<rparr>, ms_fail = False\<rparr>,
     ys_leader_tpu_info = \<lparr>get_quic_tpu_socket_addr = (\<lambda>_. None),
       get_quic_tpu_fwd_socket_addr = (\<lambda>pk. Some (SocketAddr (if pk = Pubkey 3 then 3 else 1) 0))\<rparr>,
     ys_tpu_port_kind = Forwards, ys_send_fanout_slots = 12\<rparr>"

lemma ex_sender_leaders:
  "first_occurrences (List.map_filter
      (\<lambda>k. get_leader_from_schedules 16 (ys_leader_schedule ex_sender) (st_slot (ys_slot_tracker ex_sender) + 4 * of_nat k))
      [0..<(unat (ys_send_fanout_slots ex_sender) + 3) div 4]) = [Pubkey 1, Pubkey 2, Pubkey 3]"
proof -
  have "[0..<(unat (ys_send_fanout_slots ex_sender) + 3) div 4] = [0, 1, 2]"
    by (simp add: ex_sender_def upt_rec)
  then show ?thesis
    by (simp add: map_filter_simps get_leader_from_schedules_def compact_get_def vec_get_def u64_saturating_sub_def
        ex_sender_def tracker_new_def first_occurrences_def word_le_nat_alt word_less_nat_alt)
qed

theorem send_txn_fanout_outcome_witness:
  "snd (send_txn_fanout 16 (Signature 1) [] ex_sender) = Inr () \<and>
   tc_queue (ys_channel (fst (send_txn_fanout 16 (Signature 1) [] ex_sender))) =
     [copy_for (Signature 1) [] (Pubkey 1), copy_for (Signature 1) [] (Pubkey 3)]"
proof -
  have "unat (st_slot (ys_slot_tracker ex_sender)) + unat (ys_send_fanout_slots ex_sender) < 2 ^ 64"
    by (simp add: ex_sender_def tracker_new_def)
  from send_txn_fanout_outcome [OF this ex_sender_leaders [symmetric] refl, of "Signature 1" "[]"]
  show ?thesis
    by (simp add: leader_addr_def ex_sender_def tracker_new_def room_def get_quic_dest_addr.simps)
qed

section \<open>Background tasks are not left behind\<close>

lemma abort_all_none_running: "TaskRunning \<notin> set (dp_handles (abort_all d))"
  by (auto simp: abort_all_def)

text \<open>
  When the overseer has ended, whatever ended it, none of the tasks it watches runs. A construction that fails leaves no
  task behind; one that succeeds has its four tasks and a fanout within the bound.
\<close>

theorem overseer_stops_all:
  "ov_done (fold overseer_step evs (overseer_new d)) \<Longrightarrow>
     TaskRunning \<notin> set (dp_handles (ov_dependencies (fold overseer_step evs (overseer_new d))))"
proof -
  define P where "P ov \<longleftrightarrow> (ov_done ov \<longrightarrow> TaskRunning \<notin> set (dp_handles (ov_dependencies ov)))" for ov :: overseer
  have step: "P (overseer_step ev ov)" if "P ov" for ev and ov :: overseer
    using that abort_all_none_running unfolding P_def overseer_step_def
    by (cases ev) (auto simp: Let_def dest: set_update_subset_insert [THEN subsetD] nth_mem)
  have "P (overseer_new d)" by (simp add: P_def overseer_new_def)
  then have "P (fold overseer_step evs (overseer_new d))"
    by (induction evs arbitrary: d rule: rev_induct) (simp_all add: step)
  then show "ov_done (fold overseer_step evs (overseer_new d)) \<Longrightarrow> ?thesis" by (simp add: P_def)
qed

theorem create_sender_tasks:
  "case create_sender fanout port capacity tpu_info schedule stake tracker of
     (d, Inl err) \<Rightarrow> TaskRunning \<notin> set (dp_handles d)
   | (d, Inr s) \<Rightarrow>
       dp_handles d = replicate 4 TaskRunning \<and>
       dp_handle_names d = [''tpu-info-service'', ''managed-leader-schedule'', ''stake-info-service'', ''slot-tracker''] \<and>
       ys_send_fanout_slots s \<le> 100 \<and> tc_queue (ys_channel s) = []"
  by (auto simp: create_sender_def Let_def abort_all_none_running dependencies_push_def dependencies_default_def
      max_send_fanout_slots_def numeral_eq_Suc split: sum.split option.split)

end
