(* ===== verification/Tpu_Info.thy ===== *)
theory Tpu_Info
  imports Jet_Rpc Jet_Watcher
begin

text \<open>
  \<open>crates/tpu-client/src/rpc/tpu_info.rs\<close>: the table of the addresses of all nodes of the cluster, and the task that
  keeps it up to date by comparing each answer of the node with the table and applying the difference.

  The shared table is a hash map from keys to addresses, and \<open>tpu_info_task\<close> has it with the error counter of the task.
  The order in which removed keys are listed in a difference is that of the table; the table after the
  difference does not depend on it. The lock is never poisoned, since nothing panics while holding it.
\<close>

record rpc_contact_info =
  rc_pubkey :: string
  rc_tpu_quic :: "socket_addr option"
  rc_tpu_forwards_quic :: "socket_addr option"

record tpu_quic_contact_info =
  tq_tpu_quic :: "socket_addr option"
  tq_tpu_forwards_quic :: "socket_addr option"

definition contact_info_from :: "rpc_contact_info \<Rightarrow> tpu_quic_contact_info" where
  "contact_info_from info = \<lparr>tq_tpu_quic = rc_tpu_quic info, tq_tpu_forwards_quic = rc_tpu_forwards_quic info\<rparr>"

type_synonym topology = "(pubkey, tpu_quic_contact_info) hmap"

datatype contact_diff = DiffUpsert pubkey tpu_quic_contact_info | DiffRemove pubkey

text \<open>The entries of an answer with a valid key.\<close>

definition valid_nodes :: "(string \<Rightarrow> pubkey option) \<Rightarrow> rpc_contact_info list \<Rightarrow> (pubkey \<times> tpu_quic_contact_info) list" where
  "valid_nodes parse nodes =
     List.map_filter (\<lambda>node. map_option (\<lambda>pubkey. (pubkey, contact_info_from node)) (parse (rc_pubkey node))) nodes"

definition detect_tpu_contact_info_diff ::
  "(string \<Rightarrow> pubkey option) \<Rightarrow> topology \<Rightarrow> rpc_contact_info list \<Rightarrow> contact_diff list" where
  "detect_tpu_contact_info_diff parse current new =
     (let upserts = List.map_filter (\<lambda>(pubkey, contact_info).
            (case hm_get current pubkey of
               Some existing_info \<Rightarrow> if existing_info \<noteq> contact_info then Some (DiffUpsert pubkey contact_info) else None
             | None \<Rightarrow> Some (DiffUpsert pubkey contact_info))) (valid_nodes parse new);
          to_remove = filter (\<lambda>pubkey. pubkey \<notin> fst ` set (valid_nodes parse new)) (hm_keys current)
      in upserts @ map DiffRemove to_remove)"

fun apply_diff :: "contact_diff \<Rightarrow> topology \<Rightarrow> topology" where
  "apply_diff (DiffUpsert pubkey contact_info) current = hm_insert pubkey contact_info current"
| "apply_diff (DiffRemove pubkey) current = hm_remove pubkey current"

definition apply_diff_patch :: "contact_diff list \<Rightarrow> topology \<Rightarrow> topology" where
  "apply_diff_patch diffs current = fold apply_diff diffs current"

record tpu_info_task =
  tk_shared :: topology
  tk_consecutive_fetch_errors :: nat
  tk_running :: bool

definition rpc_cluster_tpu_info_service ::
  "(string \<Rightarrow> pubkey option) \<Rightarrow> client_error + rpc_contact_info list \<Rightarrow> client_error + tpu_info_task" where
  "rpc_cluster_tpu_info_service parse answer =
     (case answer of
        Inl err \<Rightarrow> Inl err
      | Inr nodes \<Rightarrow> Inr \<lparr>tk_shared = hm_of_list (valid_nodes parse nodes), tk_consecutive_fetch_errors = 0, tk_running = True\<rparr>)"

datatype tpu_info_event = ClusterNodes "client_error + rpc_contact_info list" | TpuInfoCancelled

text \<open>
  One round of \<open>cluster_info_refresh_loop\<close>. Both branches of the error case go on with the old table.
\<close>

definition cluster_info_refresh_step :: "(string \<Rightarrow> pubkey option) \<Rightarrow> tpu_info_event \<Rightarrow> tpu_info_task \<Rightarrow> tpu_info_task" where
  "cluster_info_refresh_step parse ev t =
     (if \<not> tk_running t then t
      else case ev of
        ClusterNodes (Inr nodes) \<Rightarrow>
          (let diff = detect_tpu_contact_info_diff parse (tk_shared t) nodes
           in t\<lparr>tk_consecutive_fetch_errors := 0,
                tk_shared := (if diff \<noteq> [] then apply_diff_patch diff (tk_shared t) else tk_shared t)\<rparr>)
      | ClusterNodes (Inl e) \<Rightarrow> t\<lparr>tk_consecutive_fetch_errors := tk_consecutive_fetch_errors t + 1\<rparr>
      | TpuInfoCancelled \<Rightarrow> t\<lparr>tk_running := False\<rparr>)"

definition rpc_tpu_info_service :: "topology \<Rightarrow> tpu_info_service" where
  "rpc_tpu_info_service shared =
     \<lparr>get_quic_tpu_socket_addr = (\<lambda>leader. Option.bind (hm_get shared leader) tq_tpu_quic),
      get_quic_tpu_fwd_socket_addr = (\<lambda>leader. Option.bind (hm_get shared leader) tq_tpu_forwards_quic)\<rparr>"

section \<open>The difference gives the answer\<close>

lemma upserts_lookup:
  assumes "distinct (map fst nodes)"
  shows "hm_get (fold apply_diff (List.map_filter (\<lambda>(k, v).
      (case hm_get cur k of Some v' \<Rightarrow> if v' \<noteq> v then Some (DiffUpsert k v) else None | None \<Rightarrow> Some (DiffUpsert k v))) nodes) m) p =
    (case map_of nodes p of
       Some v \<Rightarrow> if hm_get cur p = Some v then hm_get m p else Some v
     | None \<Rightarrow> hm_get m p)"
  using assms
proof (induction nodes arbitrary: m)
  case (Cons kv nodes)
  obtain k v where kv: "kv = (k, v)" by fastforce
  have none: "map_of nodes k = None" using Cons.prems kv by (simp add: map_of_eq_None_iff)
  show ?case using Cons none kv by (auto simp: map_filter_simps split: option.splits)
qed (simp add: map_filter_simps)

lemma removes_lookup: "hm_get (fold apply_diff (map DiffRemove ks) m) p = (if p \<in> set ks then None else hm_get m p)"
  by (induction ks arbitrary: m) auto

lemma diff_lookup:
  assumes "distinct (map fst (valid_nodes parse new))"
  shows "hm_get (apply_diff_patch (detect_tpu_contact_info_diff parse cur new) cur) p = map_of (valid_nodes parse new) p"
proof -
  have "p \<in> fst ` set (valid_nodes parse new) \<longleftrightarrow> map_of (valid_nodes parse new) p \<noteq> None" by (simp add: map_of_eq_None_iff)
  moreover have "p \<in> set (hm_keys cur) \<longleftrightarrow> hm_get cur p \<noteq> None" by (simp add: map_of_eq_None_iff)
  ultimately show ?thesis
    unfolding apply_diff_patch_def detect_tpu_contact_info_diff_def Let_def fold_append o_apply removes_lookup upserts_lookup [OF assms]
    by (auto split: option.splits)
qed

text \<open>The table after a successful round, in the form the readers see it.\<close>

lemma refresh_step_lookup:
  assumes "tk_running t" and "distinct (map fst (valid_nodes parse nodes))"
  shows "hm_get (tk_shared (cluster_info_refresh_step parse (ClusterNodes (Inr nodes)) t)) p = map_of (valid_nodes parse nodes) p"
  using assms diff_lookup [OF assms(2), of "tk_shared t" p]
  by (auto simp: cluster_info_refresh_step_def Let_def apply_diff_patch_def)

definition failed_round :: "tpu_info_event \<Rightarrow> bool" where
  "failed_round ev \<longleftrightarrow> (case ev of ClusterNodes (Inl _) \<Rightarrow> True | TpuInfoCancelled \<Rightarrow> True | _ \<Rightarrow> False)"

lemma failed_round_keeps: "failed_round ev \<Longrightarrow> tk_shared (cluster_info_refresh_step parse ev t) = tk_shared t"
  by (auto simp: failed_round_def cluster_info_refresh_step_def split: tpu_info_event.splits sum.splits)

lemma failed_rounds_keep: "list_all failed_round evs \<Longrightarrow> tk_shared (fold (cluster_info_refresh_step parse) evs t) = tk_shared t"
  by (induction evs arbitrary: t) (simp_all add: failed_round_keeps)

lemma rounds_run:
  "TpuInfoCancelled \<notin> set evs \<Longrightarrow> tk_running t \<Longrightarrow> tk_running (fold (cluster_info_refresh_step parse) evs t)"
proof (induction evs arbitrary: t)
  case (Cons ev evs)
  have "tk_running (cluster_info_refresh_step parse ev t)"
    using Cons.prems by (cases ev) (auto simp: cluster_info_refresh_step_def Let_def split: sum.splits)
  with Cons show ?case by simp
qed simp


definition ex_node :: "string \<Rightarrow> nat \<Rightarrow> rpc_contact_info" where
  "ex_node name port = \<lparr>rc_pubkey = name, rc_tpu_quic = None, rc_tpu_forwards_quic = Some (SocketAddr 1 port)\<rparr>"

definition ex_key :: "string \<Rightarrow> pubkey option" where
  "ex_key s = (if s = [] then None else Some (Pubkey (length s)))"


end
