(* ===== verification/Tpu_Sets.thy ===== *)
theory Tpu_Sets
  imports Jet_Eviction
begin

text \<open>
  \<open>crates/tpu-client/src/core.rs\<close>: the collections of the TPU client's driver and the strategy that chooses the
  connections to close.

  \<open>OrphanConnectionSet\<close> holds the connections no worker uses, in the order they became unused, with a reverse index;
  it refines a map from connections to the instants they were orphaned at, and the interface \<open>expiring_set\<close> states what
  the driver relies on. \<open>ConnectionEvictionSet\<close> is a set of connections with a reference count per address; it
  refines a set of connections and a set of addresses. \<open>StakedSortedSet\<close> is the set of \<open>Jet_Eviction\<close>.
  \<open>RemotePeerAddrMap\<close> groups the peers that share an address, and \<open>plan_eviction_with_addr_map\<close> chooses whole groups.
\<close>

section \<open>Connections without a worker\<close>

record orphan_connection_info =
  oi_remote_peer_addr :: socket_addr
  oi_connection_version :: u64

record orphan_connection_set =
  prio_queue :: "(instant \<times> orphan_connection_info list) list"
  prio_queue_rev_index :: "(socket_addr, (instant \<times> u64) list) hmap"
  curr_len :: nat

definition orphan_default :: orphan_connection_set where
  "orphan_default = \<lparr>prio_queue = [], prio_queue_rev_index = [], curr_len = 0\<rparr>"

definition orphan_clear :: "orphan_connection_set \<Rightarrow> orphan_connection_set" where
  "orphan_clear s = s\<lparr>prio_queue := [], prio_queue_rev_index := [], curr_len := 0\<rparr>"

definition orphan_insert :: "orphan_connection_info \<Rightarrow> instant \<Rightarrow> orphan_connection_set \<Rightarrow> orphan_connection_set" where
  "orphan_insert info now s =
     (let addr = oi_remote_peer_addr info; v = oi_connection_version info;
          push = (\<lambda>version_set. s
            \<lparr>prio_queue_rev_index := hm_insert addr (version_set @ [(now, v)]) (prio_queue_rev_index s),
             prio_queue := bt_insert now
               ((case map_of (prio_queue s) now of None \<Rightarrow> [] | Some infos \<Rightarrow> infos) @ [info]) (prio_queue s),
             curr_len := curr_len s + 1\<rparr>)
      in case hm_get (prio_queue_rev_index s) addr of
           Some version_set \<Rightarrow> if \<exists>e \<in> set version_set. snd e = v then s else push version_set
         | None \<Rightarrow> push [])"

text \<open>
  \<open>position\<close> followed by \<open>Vec::remove\<close> is \<open>List.extract\<close>: the elements before the first match, the match, and those
  behind it. \<open>curr_len -= 1\<close> is the subtraction of \<^typ>\<open>nat\<close>; by the invariant below it is never taken from zero.
\<close>

definition orphan_remove ::
  "socket_addr \<Rightarrow> u64 \<Rightarrow> orphan_connection_set \<Rightarrow> orphan_connection_info option \<times> orphan_connection_set" where
  "orphan_remove addr v s =
     (case hm_get (prio_queue_rev_index s) addr of
        None \<Rightarrow> (None, s)
      | Some version_set \<Rightarrow>
          (case List.extract (\<lambda>e. snd e = v) version_set of
             None \<Rightarrow> (None, s)
           | Some (before, (inserted_at, _), behind) \<Rightarrow>
               (let rest = before @ behind;
                    s1 = s\<lparr>prio_queue_rev_index :=
                      (if rest = [] then hm_remove addr (prio_queue_rev_index s)
                       else hm_insert addr rest (prio_queue_rev_index s))\<rparr>
                in case map_of (prio_queue s1) inserted_at of
                     None \<Rightarrow> (None, s1)
                   | Some infos \<Rightarrow>
                       (case List.extract (\<lambda>i. oi_remote_peer_addr i = addr \<and> oi_connection_version i = v) infos of
                          None \<Rightarrow> (None, s1)
                        | Some (before', info, behind') \<Rightarrow>
                            (Some info, s1\<lparr>prio_queue :=
                                (if before' @ behind' = [] then hm_remove inserted_at (prio_queue s1)
                                 else bt_insert inserted_at (before' @ behind') (prio_queue s1)),
                              curr_len := curr_len s1 - 1\<rparr>)))))"

definition orphan_oldest :: "orphan_connection_set \<Rightarrow> instant option" where
  "orphan_oldest s = (case prio_queue s of [] \<Rightarrow> None | (t, _) # _ \<Rightarrow> Some t)"

definition orphan_unindex ::
  "instant \<Rightarrow> orphan_connection_info \<Rightarrow> (socket_addr, (instant \<times> u64) list) hmap
     \<Rightarrow> (socket_addr, (instant \<times> u64) list) hmap" where
  "orphan_unindex inserted_at info idx =
     (case hm_get idx (oi_remote_peer_addr info) of
        None \<Rightarrow> idx
      | Some version_set \<Rightarrow>
          (let rest = filter (\<lambda>(ts, v). v \<noteq> oi_connection_version info \<or> ts \<noteq> inserted_at) version_set
           in if rest = [] then hm_remove (oi_remote_peer_addr info) idx
              else hm_insert (oi_remote_peer_addr info) rest idx))"

definition orphan_pop :: "orphan_connection_set \<Rightarrow> (orphan_connection_info list \<times> orphan_connection_set) option" where
  "orphan_pop s =
     (case prio_queue s of
        [] \<Rightarrow> None
      | (inserted_at, infos) # rest \<Rightarrow>
          Some (infos, s\<lparr>prio_queue := rest,
                         prio_queue_rev_index := fold (orphan_unindex inserted_at) infos (prio_queue_rev_index s),
                         curr_len := curr_len s - length infos\<rparr>))"

subsection \<open>What the two indexes mean\<close>

definition index_at :: "(socket_addr, (instant \<times> u64) list) hmap \<Rightarrow> orphan_connection_info \<Rightarrow> instant option" where
  "index_at idx i =
     (case hm_get idx (oi_remote_peer_addr i) of
        None \<Rightarrow> None
      | Some version_set \<Rightarrow> map_of (map prod.swap version_set) (oi_connection_version i))"

definition orphaned_at :: "orphan_connection_set \<Rightarrow> orphan_connection_info \<Rightarrow> instant option" where
  "orphaned_at s = index_at (prio_queue_rev_index s)"

definition index_wf :: "(socket_addr, (instant \<times> u64) list) hmap \<Rightarrow> bool" where
  "index_wf idx \<longleftrightarrow> hm_wf idx \<and> (\<forall>a vs. hm_get idx a = Some vs \<longrightarrow> vs \<noteq> [] \<and> distinct (map snd vs))"

definition orphan_inv :: "orphan_connection_set \<Rightarrow> bool" where
  "orphan_inv s \<longleftrightarrow>
     index_wf (prio_queue_rev_index s) \<and> bt_wf (prio_queue s) \<and>
     (\<forall>t infos. map_of (prio_queue s) t = Some infos \<longrightarrow> infos \<noteq> [] \<and> distinct infos) \<and>
     (\<forall>t i. (\<exists>infos. map_of (prio_queue s) t = Some infos \<and> i \<in> set infos) \<longleftrightarrow> orphaned_at s i = Some t) \<and>
     curr_len s = hm_sum length (prio_queue s)"

lemma orphan_invD:
  assumes "orphan_inv s"
  shows "index_wf (prio_queue_rev_index s)" and "bt_wf (prio_queue s)"
    and "map_of (prio_queue s) t = Some infos \<Longrightarrow> infos \<noteq> []"
    and "map_of (prio_queue s) t = Some infos \<Longrightarrow> distinct infos"
    and "(\<exists>infos. map_of (prio_queue s) t = Some infos \<and> i \<in> set infos) \<longleftrightarrow> orphaned_at s i = Some t"
    and "curr_len s = hm_sum length (prio_queue s)"
  using assms unfolding orphan_inv_def by blast+

lemma orphan_invI:
  assumes "index_wf (prio_queue_rev_index s)" and "bt_wf (prio_queue s)"
    and "\<And>t infos. map_of (prio_queue s) t = Some infos \<Longrightarrow> infos \<noteq> [] \<and> distinct infos"
    and "\<And>t i. (\<exists>infos. map_of (prio_queue s) t = Some infos \<and> i \<in> set infos) \<longleftrightarrow> orphaned_at s i = Some t"
    and "curr_len s = hm_sum length (prio_queue s)"
  shows "orphan_inv s"
  using assms unfolding orphan_inv_def by blast

lemma index_wfD:
  assumes "index_wf idx"
  shows "hm_wf idx" and "hm_get idx a = Some vs \<Longrightarrow> vs \<noteq> []" and "hm_get idx a = Some vs \<Longrightarrow> distinct (map snd vs)"
  using assms unfolding index_wf_def by blast+

lemma orphan_default_inv [simp]: "orphan_inv orphan_default" "orphaned_at orphan_default = Map.empty"
  by (auto simp: orphan_inv_def orphan_default_def index_wf_def orphaned_at_def index_at_def)

lemma orphan_clear_eq: "orphan_clear s = orphan_default"
  by (simp add: orphan_clear_def orphan_default_def)

lemma info_eq_iff:
  fixes i j :: orphan_connection_info
  shows "i = j \<longleftrightarrow> oi_remote_peer_addr i = oi_remote_peer_addr j \<and> oi_connection_version i = oi_connection_version j"
  by (cases i; cases j) simp

subsection \<open>Insertion\<close>

lemma hm_sum_bt_insert:
  fixes f :: "'v \<Rightarrow> nat"
  shows "bt_wf m \<Longrightarrow> hm_sum f (bt_insert k v m) + (case map_of m k of None \<Rightarrow> 0 | Some v' \<Rightarrow> f v') = hm_sum f m + f v"
proof (induction k v m rule: bt_insert.induct)
  case (2 k v k' v' m)
  have "map_of m k = None" if "k < k'" using 2(2) that by (fastforce simp: map_of_eq_None_iff)
  then show ?case using 2 by (cases "k < k'"; cases "k = k'") (auto split: option.split)
qed simp

lemma map_of_swap_snoc:
  "v \<notin> snd ` set vs \<Longrightarrow> map_of (map prod.swap (vs @ [(t, v)])) v' = (if v' = v then Some t else map_of (map prod.swap vs) v')"
proof -
  assume v: "v \<notin> snd ` set vs"
  have "fst ` set (map prod.swap vs) = snd ` set vs" by (force simp: image_iff)
  then have "map_of (map prod.swap vs) v = None" using v by (simp only: map_of_eq_None_iff simp_thms)
  then show ?thesis by (simp add: map_add_def split: option.splits)
qed

lemma index_at_None_iff:
  "index_at idx i = None \<longleftrightarrow>
     (\<forall>vs. hm_get idx (oi_remote_peer_addr i) = Some vs \<longrightarrow> oi_connection_version i \<notin> snd ` set vs)"
proof -
  have "fst ` set (map prod.swap vs) = snd ` set vs" for vs :: "(instant \<times> u64) list" by (force simp: image_iff)
  then have "map_of (map prod.swap vs) v = None \<longleftrightarrow> v \<notin> snd ` set vs" for vs :: "(instant \<times> u64) list" and v
    by (simp only: map_of_eq_None_iff)
  then show ?thesis by (cases "hm_get idx (oi_remote_peer_addr i)") (simp_all add: index_at_def)
qed

lemma orphan_insert_present:
  assumes "orphaned_at s info \<noteq> None"
  shows "orphan_insert info now s = s"
proof -
  obtain vs where "hm_get (prio_queue_rev_index s) (oi_remote_peer_addr info) = Some vs"
    "oi_connection_version info \<in> snd ` set vs"
    using assms index_at_None_iff [of "prio_queue_rev_index s" info] by (auto simp: orphaned_at_def)
  then show ?thesis by (auto simp: orphan_insert_def Let_def)
qed

lemma orphan_insert_new:
  assumes inv: "orphan_inv s" and new: "orphaned_at s info = None"
  shows "orphan_inv (orphan_insert info now s)" and "orphaned_at (orphan_insert info now s) = (orphaned_at s)(info \<mapsto> now)"
proof -
  let ?idx = "prio_queue_rev_index s" and ?a = "oi_remote_peer_addr info" and ?v = "oi_connection_version info"
  define old where "old = (case hm_get ?idx ?a of None \<Rightarrow> [] | Some vs \<Rightarrow> vs)"
  define infos where "infos = (case map_of (prio_queue s) now of None \<Rightarrow> [] | Some infos \<Rightarrow> infos)"
  note wf = index_wfD [OF orphan_invD(1) [OF inv]]
  have fresh: "?v \<notin> snd ` set old"
    using new [unfolded orphaned_at_def index_at_None_iff] by (cases "hm_get ?idx ?a") (simp_all add: old_def)
  have eq: "orphan_insert info now s = s
      \<lparr>prio_queue_rev_index := hm_insert ?a (old @ [(now, ?v)]) ?idx,
       prio_queue := bt_insert now (infos @ [info]) (prio_queue s), curr_len := curr_len s + 1\<rparr>"
    using fresh by (cases "hm_get ?idx ?a") (auto simp: orphan_insert_def old_def infos_def Let_def image_iff)
  have old_wf: "distinct (map snd old)" using wf(3) by (simp add: old_def split: option.split)
  show map: "orphaned_at (orphan_insert info now s) = (orphaned_at s)(info \<mapsto> now)"
  proof
    fix i
    show "orphaned_at (orphan_insert info now s) i = ((orphaned_at s)(info \<mapsto> now)) i"
      using map_of_swap_snoc [OF fresh, of now "oi_connection_version i"]
      by (cases "hm_get ?idx ?a")
         (auto simp: eq orphaned_at_def index_at_def info_eq_iff [of i info] old_def simp del: map_append)
  qed
  have not_in: "info \<notin> set is" if "map_of (prio_queue s) t = Some is" for t "is"
    using that new orphan_invD(5) [OF inv, of t info] by auto
  show "orphan_inv (orphan_insert info now s)"
  proof (rule orphan_invI)
    show "index_wf (prio_queue_rev_index (orphan_insert info now s))"
      using wf fresh old_wf by (auto simp: eq index_wf_def)
    show "bt_wf (prio_queue (orphan_insert info now s))" using orphan_invD(2) [OF inv] by (simp add: eq)
    fix t "is" assume "map_of (prio_queue (orphan_insert info now s)) t = Some is"
    then show "is \<noteq> [] \<and> distinct is"
      using orphan_invD(3,4) [OF inv] not_in by (auto simp: eq infos_def split: if_splits option.splits)
  next
    fix t i
    show "(\<exists>is. map_of (prio_queue (orphan_insert info now s)) t = Some is \<and> i \<in> set is) \<longleftrightarrow>
        orphaned_at (orphan_insert info now s) i = Some t"
      unfolding map using orphan_invD(5) [OF inv, of t i] new
      by (auto simp: eq infos_def split: option.splits)
  next
    show "curr_len (orphan_insert info now s) = hm_sum length (prio_queue (orphan_insert info now s))"
      using hm_sum_bt_insert [OF orphan_invD(2) [OF inv], of length now "infos @ [info]"] orphan_invD(6) [OF inv]
      by (simp add: eq infos_def split: option.splits)
  qed
qed

lemma orphan_insert_spec:
  assumes "orphan_inv s"
  shows "orphan_inv (orphan_insert info now s)"
    and "orphaned_at (orphan_insert info now s) =
      (if orphaned_at s info = None then (orphaned_at s)(info \<mapsto> now) else orphaned_at s)"
  using assms orphan_insert_new [OF assms, of info now] orphan_insert_present [of s info now]
  by (cases "orphaned_at s info"; simp)+

subsection \<open>Removal\<close>

lemma map_of_swap_remove1:
  fixes xs ys :: "(instant \<times> u64) list"
  assumes "distinct (map snd (xs @ (t, v) # ys))"
  shows "map_of (map prod.swap (xs @ (t, v) # ys)) v = Some t"
    and "map_of (map prod.swap (xs @ ys)) v' = (if v' = v then None else map_of (map prod.swap (xs @ (t, v) # ys)) v')"
proof -
  have "fst ` set (map prod.swap zs) = snd ` set zs" for zs :: "(instant \<times> u64) list" by (force simp: image_iff)
  then have none: "map_of (map prod.swap zs) v = None \<longleftrightarrow> v \<notin> snd ` set zs" for zs :: "(instant \<times> u64) list"
    by (simp only: map_of_eq_None_iff)
  have "v \<notin> snd ` set xs" "v \<notin> snd ` set ys" using assms by auto
  then have "map_of (map prod.swap xs) v = None" "map_of (map prod.swap ys) v = None" by (simp_all add: none)
  then show "map_of (map prod.swap (xs @ (t, v) # ys)) v = Some t"
    and "map_of (map prod.swap (xs @ ys)) v' = (if v' = v then None else map_of (map prod.swap (xs @ (t, v) # ys)) v')"
    by (simp_all add: map_add_def split: option.split)
qed

lemma index_drop:
  assumes wf: "index_wf idx" and vs: "hm_get idx a = Some (xs @ (t, v) # ys)"
  defines "idx' \<equiv> (if xs @ ys = [] then hm_remove a idx else hm_insert a (xs @ ys) idx)"
  shows "index_wf idx'"
    and "index_at idx' = (index_at idx)(\<lparr>oi_remote_peer_addr = a, oi_connection_version = v\<rparr> := None)"
proof -
  have dist: "distinct (map snd (xs @ (t, v) # ys))" using index_wfD(3) [OF wf vs] .
  show "index_wf idx'" using wf dist by (auto simp: index_wf_def idx'_def)
  show "index_at idx' = (index_at idx)(\<lparr>oi_remote_peer_addr = a, oi_connection_version = v\<rparr> := None)"
  proof
    fix i
    show "index_at idx' i = ((index_at idx)(\<lparr>oi_remote_peer_addr = a, oi_connection_version = v\<rparr> := None)) i"
      using map_of_swap_remove1(2) [OF dist, of "oi_connection_version i"] vs
      by (auto simp: index_at_def idx'_def info_eq_iff [of i] simp del: map_append)
  qed
qed

lemma orphan_remove_absent:
  assumes "orphaned_at s \<lparr>oi_remote_peer_addr = addr, oi_connection_version = v\<rparr> = None"
  shows "orphan_remove addr v s = (None, s)"
proof (cases "hm_get (prio_queue_rev_index s) addr")
  case (Some vs)
  then have "v \<notin> snd ` set vs" using assms [unfolded orphaned_at_def index_at_None_iff] by simp
  then have "List.extract (\<lambda>e. snd e = v) vs = None" by (auto simp: extract_None_iff)
  then show ?thesis using Some by (simp add: orphan_remove_def)
qed (simp add: orphan_remove_def)

lemma orphan_remove_present:
  assumes inv: "orphan_inv s" and at: "orphaned_at s \<lparr>oi_remote_peer_addr = addr, oi_connection_version = v\<rparr> = Some t"
  defines "i \<equiv> \<lparr>oi_remote_peer_addr = addr, oi_connection_version = v\<rparr>"
  obtains s' where "orphan_remove addr v s = (Some i, s')" and "orphan_inv s'" and "orphaned_at s' = (orphaned_at s)(i := None)"
proof -
  note wf = orphan_invD(1) [OF inv]
  obtain vs where vs: "hm_get (prio_queue_rev_index s) addr = Some vs" and "v \<in> snd ` set vs"
    using at index_at_None_iff [of "prio_queue_rev_index s" i] unfolding i_def orphaned_at_def by auto
  then have "List.extract (\<lambda>e. snd e = v) vs \<noteq> None" by (auto simp: extract_None_iff)
  then obtain xs e ys where e: "List.extract (\<lambda>e. snd e = v) vs = Some (xs, e, ys)" by fast
  then obtain t' where vs_eq: "vs = xs @ (t', v) # ys" and e_eq: "e = (t', v)"
    by (cases e) (auto simp: extract_Some_iff)
  have "t' = t"
    using at map_of_swap_remove1(1) [OF index_wfD(3) [OF wf vs, unfolded vs_eq]] vs vs_eq
    by (simp add: orphaned_at_def index_at_def)
  obtain infos where infos: "map_of (prio_queue s) t = Some infos" and i: "i \<in> set infos"
    using at orphan_invD(5) [OF inv, of t i] unfolding i_def by blast
  have "List.extract (\<lambda>i. oi_remote_peer_addr i = addr \<and> oi_connection_version i = v) infos \<noteq> None"
    unfolding extract_None_iff using i by (auto simp: i_def intro!: bexI [of _ i])
  then obtain before j behind where
    j: "List.extract (\<lambda>i. oi_remote_peer_addr i = addr \<and> oi_connection_version i = v) infos = Some (before, j, behind)"
    by fast
  then have infos_eq: "infos = before @ i # behind" and "j = i"
    by (auto simp: extract_Some_iff i_def info_eq_iff [of j])
  define s' where "s' = s\<lparr>prio_queue_rev_index :=
      (if xs @ ys = [] then hm_remove addr (prio_queue_rev_index s) else hm_insert addr (xs @ ys) (prio_queue_rev_index s)),
    prio_queue := (if before @ behind = [] then hm_remove t (prio_queue s) else bt_insert t (before @ behind) (prio_queue s)),
    curr_len := curr_len s - 1\<rparr>"
  have eq: "orphan_remove addr v s = (Some i, s')"
    using vs e e_eq infos j \<open>j = i\<close> \<open>t' = t\<close> by (simp add: orphan_remove_def s'_def Let_def)
  note drop = index_drop [OF wf vs [unfolded vs_eq], folded i_def]
  have at': "orphaned_at s' = (orphaned_at s)(i := None)" unfolding orphaned_at_def s'_def using drop(2) by simp
  have queue: "map_of (prio_queue s') u =
      (if u = t then if before @ behind = [] then None else Some (before @ behind) else map_of (prio_queue s) u)" for u
    by (simp add: s'_def)
  have dist: "distinct (before @ i # behind)" using orphan_invD(4) [OF inv infos] infos_eq by simp
  have "orphan_inv s'"
  proof (rule orphan_invI)
    show "index_wf (prio_queue_rev_index s')" using drop(1) by (simp add: s'_def)
    show "bt_wf (prio_queue s')" using orphan_invD(2) [OF inv] by (simp add: s'_def)
    fix u "is" assume "map_of (prio_queue s') u = Some is"
    then show "is \<noteq> [] \<and> distinct is" using orphan_invD(3,4) [OF inv] dist by (auto simp: queue split: if_splits)
  next
    fix u k
    show "(\<exists>is. map_of (prio_queue s') u = Some is \<and> k \<in> set is) \<longleftrightarrow> orphaned_at s' k = Some u"
      using orphan_invD(5) [OF inv, of u k] infos infos_eq dist at by (auto simp: queue at' i_def)
  next
    have "hm_sum length (prio_queue s') + 1 = hm_sum length (prio_queue s)"
      using hm_sum_remove [OF bt_wf_hm_wf [OF orphan_invD(2) [OF inv]], of length t] infos infos_eq
        hm_sum_bt_insert [OF orphan_invD(2) [OF inv], of length t "before @ behind"]
      by (auto simp: s'_def)
    then show "curr_len s' = hm_sum length (prio_queue s')" using orphan_invD(6) [OF inv] by (simp add: s'_def)
  qed
  then show ?thesis using that eq at' by blast
qed

lemma orphan_remove_spec:
  fixes addr :: socket_addr and v :: u64
  assumes "orphan_inv s"
  defines "i \<equiv> \<lparr>oi_remote_peer_addr = addr, oi_connection_version = v\<rparr>"
  shows "orphan_inv (snd (orphan_remove addr v s))"
    and "orphaned_at (snd (orphan_remove addr v s)) = (orphaned_at s)(i := None)"
    and "fst (orphan_remove addr v s) = (if orphaned_at s i = None then None else Some i)"
proof -
  have "orphan_inv (snd (orphan_remove addr v s)) \<and> orphaned_at (snd (orphan_remove addr v s)) = (orphaned_at s)(i := None) \<and>
      fst (orphan_remove addr v s) = (if orphaned_at s i = None then None else Some i)"
  proof (cases "orphaned_at s i")
    case None
    then show ?thesis using assms(1) orphan_remove_absent [of s addr v] by (simp add: i_def fun_upd_idem)
  next
    case (Some t)
    then show ?thesis
      unfolding i_def by (elim orphan_remove_present [OF assms(1)]) (use Some in \<open>simp add: i_def\<close>)
  qed
  then show "orphan_inv (snd (orphan_remove addr v s))"
    and "orphaned_at (snd (orphan_remove addr v s)) = (orphaned_at s)(i := None)"
    and "fst (orphan_remove addr v s) = (if orphaned_at s i = None then None else Some i)" by blast+
qed

subsection \<open>The oldest entries\<close>

lemma orphan_oldest_spec:
  assumes "orphan_inv s"
  shows "orphan_oldest s = None \<longleftrightarrow> orphaned_at s = Map.empty"
    and "orphan_oldest s = Some t \<Longrightarrow> \<exists>i. orphaned_at s i = Some t"
    and "orphan_oldest s = Some t \<Longrightarrow> orphaned_at s i = Some t' \<Longrightarrow> t \<le> t'"
proof -
  note entry = orphan_invD(5) [OF assms]
  have nonempty: "\<exists>i. orphaned_at s i = Some t" if "map_of (prio_queue s) t = Some infos" for t infos
    using orphan_invD(3) [OF assms that] entry [of t "hd infos"] that by auto
  show "orphan_oldest s = None \<longleftrightarrow> orphaned_at s = Map.empty"
  proof (cases "prio_queue s")
    case Nil
    then have "orphaned_at s i = None" for i using entry [of _ i] by (cases "orphaned_at s i") auto
    then show ?thesis using Nil by (auto simp: orphan_oldest_def)
  next
    case (Cons e q)
    then show ?thesis using nonempty [of "fst e" "snd e"] by (auto simp: orphan_oldest_def fun_eq_iff split: prod.splits)
  qed
  assume "orphan_oldest s = Some t"
  then obtain infos q where q: "prio_queue s = (t, infos) # q" by (auto simp: orphan_oldest_def split: list.splits)
  then show "\<exists>i. orphaned_at s i = Some t" using nonempty [of t infos] by simp
  assume "orphaned_at s i = Some t'"
  then have "t' \<in> fst ` set (prio_queue s)" using entry [of t' i] by (metis hm_contains_get)
  then show "t \<le> t'" using orphan_invD(2) [OF assms] by (auto simp: q)
qed

lemma map_of_swap_filter:
  fixes vs :: "(instant \<times> u64) list"
  assumes "distinct (map snd vs)"
  shows "map_of (map prod.swap (filter (\<lambda>(ts, v). v \<noteq> w \<or> ts \<noteq> t) vs)) u =
    (if u = w \<and> map_of (map prod.swap vs) u = Some t then None else map_of (map prod.swap vs) u)"
  using assms
proof (induction vs)
  case (Cons e vs)
  have "fst ` set (map prod.swap vs) = snd ` set vs" by (force simp: image_iff)
  then have "map_of (map prod.swap vs) (snd e) = None" using Cons.prems by (simp add: map_of_eq_None_iff)
  then show ?case using Cons by (cases e) auto
qed simp

lemma orphan_unindex_spec:
  assumes "index_wf idx"
  shows "index_wf (orphan_unindex t info idx)"
    and "index_at (orphan_unindex t info idx) =
      (if index_at idx info = Some t then (index_at idx)(info := None) else index_at idx)"
proof -
  let ?a = "oi_remote_peer_addr info" and ?v = "oi_connection_version info"
  note wf = index_wfD [OF assms]
  have "index_wf (orphan_unindex t info idx) \<and> index_at (orphan_unindex t info idx) =
      (if index_at idx info = Some t then (index_at idx)(info := None) else index_at idx)"
  proof (cases "hm_get idx ?a")
    case None
    then show ?thesis using assms by (simp add: orphan_unindex_def index_at_def)
  next
    case (Some vs)
    let ?rest = "filter (\<lambda>(ts, v). v \<noteq> ?v \<or> ts \<noteq> t) vs"
    have dist: "distinct (map snd ?rest)" using wf(3) [OF Some] by (simp add: distinct_map_filter)
    have eq: "orphan_unindex t info idx = (if ?rest = [] then hm_remove ?a idx else hm_insert ?a ?rest idx)"
      using Some by (simp add: orphan_unindex_def Let_def)
    have "index_wf (orphan_unindex t info idx)" using assms dist by (auto simp: eq index_wf_def)
    moreover have "index_at (orphan_unindex t info idx) i =
        (if index_at idx info = Some t then (index_at idx)(info := None) else index_at idx) i" for i
      using map_of_swap_filter [OF wf(3) [OF Some], of ?v t "oi_connection_version i"] Some
      by (cases "?rest = []") (auto simp: eq index_at_def info_eq_iff [of i info])
    ultimately show ?thesis by blast
  qed
  then show "index_wf (orphan_unindex t info idx)"
    and "index_at (orphan_unindex t info idx) =
      (if index_at idx info = Some t then (index_at idx)(info := None) else index_at idx)" by blast+
qed

lemma orphan_unindex_all:
  assumes "index_wf idx"
  shows "index_wf (fold (orphan_unindex t) infos idx) \<and> index_at (fold (orphan_unindex t) infos idx) =
    (\<lambda>i. if i \<in> set infos \<and> index_at idx i = Some t then None else index_at idx i)"
  using assms
proof (induction infos arbitrary: idx)
  case (Cons info infos)
  note spec = orphan_unindex_spec [OF Cons.prems, of t info]
  show ?case using Cons.IH [OF spec(1)] spec(2) by (auto simp: fun_eq_iff)
qed simp

lemma orphan_pop_spec:
  assumes inv: "orphan_inv s" and "orphan_oldest s = Some t"
  obtains infos s' where "orphan_pop s = Some (infos, s')" and "orphan_inv s'" and "distinct infos"
    and "set infos = {i. orphaned_at s i = Some t}"
    and "orphaned_at s' = (\<lambda>i. if orphaned_at s i = Some t then None else orphaned_at s i)"
proof -
  obtain infos q where q: "prio_queue s = (t, infos) # q"
    using assms(2) by (auto simp: orphan_oldest_def split: list.splits)
  define s' where "s' = s\<lparr>prio_queue := q, prio_queue_rev_index := fold (orphan_unindex t) infos (prio_queue_rev_index s),
    curr_len := curr_len s - length infos\<rparr>"
  have pop: "orphan_pop s = Some (infos, s')" by (simp add: orphan_pop_def q s'_def)
  have infos: "map_of (prio_queue s) t = Some infos" by (simp add: q)
  have set: "set infos = {i. orphaned_at s i = Some t}" using orphan_invD(5) [OF inv, of t] infos by auto
  note un = orphan_unindex_all [OF orphan_invD(1) [OF inv], of t infos]
  have at': "orphaned_at s' = (\<lambda>i. if orphaned_at s i = Some t then None else orphaned_at s i)"
    unfolding orphaned_at_def using un set by (auto simp: s'_def orphaned_at_def)
  have bt: "bt_wf q" and t: "map_of q t = None"
    using orphan_invD(2) [OF inv] by (auto simp: q map_of_eq_None_iff)
  have queue: "map_of q u = (if u = t then None else map_of (prio_queue s) u)" for u using t by (simp add: q)
  have "orphan_inv s'"
  proof (rule orphan_invI)
    show "index_wf (prio_queue_rev_index s')" using un by (simp add: s'_def)
    show "bt_wf (prio_queue s')" using bt by (simp add: s'_def)
    fix u "is" assume "map_of (prio_queue s') u = Some is"
    then show "is \<noteq> [] \<and> distinct is" using orphan_invD(3,4) [OF inv] by (auto simp: s'_def queue split: if_splits)
  next
    fix u k
    show "(\<exists>is. map_of (prio_queue s') u = Some is \<and> k \<in> set is) \<longleftrightarrow> orphaned_at s' k = Some u"
      using orphan_invD(5) [OF inv, of u k] unfolding at' by (auto simp: s'_def queue)
  next
    show "curr_len s' = hm_sum length (prio_queue s')" using orphan_invD(6) [OF inv] by (simp add: s'_def q)
  qed
  then show ?thesis using that pop orphan_invD(4) [OF inv infos] set at' by blast
qed

lemma orphan_len:
  assumes "orphan_inv s"
  shows "curr_len s = card (dom (orphaned_at s))"
proof -
  let ?flat = "concat (map (\<lambda>(t, is). map (\<lambda>i. (t, i)) is) (prio_queue s))"
  have wf: "hm_wf (prio_queue s)" by (rule bt_wf_hm_wf [OF orphan_invD(2) [OF assms]])
  have at: "orphaned_at s i = Some t" if "(t, is) \<in> set (prio_queue s)" "i \<in> set is" for t "is" i
    using that hm_get_in_set [OF wf] orphan_invD(5) [OF assms, of t i] by auto
  have "distinct (map snd ?flat)"
  proof (rule distinct_concat_entries [OF wf])
    fix t "is" assume "(t, is) \<in> set (prio_queue s)"
    then show "distinct is" using hm_get_in_set [OF wf] orphan_invD(4) [OF assms] by blast
  next
    fix t "is" t' is' i
    assume "(t, is) \<in> set (prio_queue s)" "(t', is') \<in> set (prio_queue s)" "i \<in> set is" "i \<in> set is'"
    then show "t = t'" using at [of t "is" i] at [of t' is' i] by simp
  qed
  then have "length ?flat = card (set (map snd ?flat))" by (metis distinct_card length_map)
  moreover have "i \<in> set (map snd ?flat) \<longleftrightarrow> i \<in> dom (orphaned_at s)" for i
  proof -
    have "i \<in> set (map snd ?flat) \<longleftrightarrow> (\<exists>t is. (t, is) \<in> set (prio_queue s) \<and> i \<in> set is)" by force
    also have "\<dots> \<longleftrightarrow> (\<exists>t. orphaned_at s i = Some t)"
      unfolding hm_get_in_set [OF wf] using orphan_invD(5) [OF assms, of _ i] by simp
    finally show ?thesis by (simp only: dom_def mem_Collect_eq not_None_eq)
  qed
  then have "set (map snd ?flat) = dom (orphaned_at s)" by blast
  moreover have "length ?flat = hm_sum length (prio_queue s)"
    by (simp add: hm_sum_def length_concat comp_def case_prod_beta)
  ultimately show ?thesis using orphan_invD(6) [OF assms] by simp
qed

subsection \<open>Expiry\<close>

text \<open>
  The loop of \<open>try_evict_orphan_connections\<close> takes the oldest entries as long as their time to live is over. What it does
  with a connection does not touch the set, so the entries are collected here and handled in that order by the driver.
\<close>

function orphan_drain ::
  "duration \<Rightarrow> instant \<Rightarrow> orphan_connection_set \<Rightarrow> orphan_connection_info list \<times> orphan_connection_set" where
  "orphan_drain ttl now s =
     (case orphan_oldest s of
        None \<Rightarrow> ([], s)
      | Some oldest \<Rightarrow>
          (if oldest + ttl > now then ([], s)
           else (case orphan_pop s of
                   None \<Rightarrow> ([], s)
                 | Some (infos, s') \<Rightarrow> (let (rest, s'') = orphan_drain ttl now s' in (infos @ rest, s'')))))"
  by pat_completeness auto
termination
  by (relation "measure (\<lambda>(ttl, now, s). length (prio_queue s))") (auto simp: orphan_pop_def split: list.splits)

declare orphan_drain.simps [simp del]

text \<open>
  What the driver relies on: \<open>pop\<close> takes all the entries of the oldest instant and no other. Then the loop returns and
  has taken exactly the entries whose time is over, each once and the oldest first.
\<close>

locale expiring_set =
  fixes invar :: "'s \<Rightarrow> bool" and inserted_at :: "'s \<Rightarrow> 'k \<Rightarrow> instant option"
    and oldest :: "'s \<Rightarrow> instant option" and pop :: "'s \<Rightarrow> ('k list \<times> 's) option"
    and drain :: "duration \<Rightarrow> instant \<Rightarrow> 's \<Rightarrow> 'k list \<times> 's"
  assumes finite_entries: "invar s \<Longrightarrow> finite (dom (inserted_at s))"
    and oldest_None: "invar s \<Longrightarrow> oldest s = None \<Longrightarrow> inserted_at s = Map.empty"
    and oldest_entry: "invar s \<Longrightarrow> oldest s = Some t \<Longrightarrow> \<exists>k. inserted_at s k = Some t"
    and oldest_least: "invar s \<Longrightarrow> oldest s = Some t \<Longrightarrow> inserted_at s k = Some t' \<Longrightarrow> t \<le> t'"
    and pop_oldest: "invar s \<Longrightarrow> oldest s = Some t \<Longrightarrow> \<exists>ks s'. pop s = Some (ks, s') \<and> invar s' \<and> distinct ks \<and>
      set ks = {k. inserted_at s k = Some t} \<and>
      inserted_at s' = (\<lambda>k. if inserted_at s k = Some t then None else inserted_at s k)"
    and drain_loop: "drain ttl now s =
      (case oldest s of
         None \<Rightarrow> ([], s)
       | Some t \<Rightarrow>
           (if t + ttl > now then ([], s)
            else (case pop s of
                    None \<Rightarrow> ([], s)
                  | Some (ks, s') \<Rightarrow> (let (rest, s'') = drain ttl now s' in (ks @ rest, s'')))))"
begin

definition expired :: "duration \<Rightarrow> instant \<Rightarrow> 's \<Rightarrow> 'k \<Rightarrow> bool" where
  "expired ttl now s k \<longleftrightarrow> (\<exists>t. inserted_at s k = Some t \<and> t + ttl \<le> now)"

lemma drain_takes_expired:
  assumes "invar s" and "drain ttl now s = (ks, s')"
  shows "invar s' \<and> distinct ks \<and> set ks = {k. expired ttl now s k} \<and>
    inserted_at s' = (\<lambda>k. if expired ttl now s k then None else inserted_at s k) \<and>
    sorted (map (the \<circ> inserted_at s) ks)"
  using assms
proof (induction "card (dom (inserted_at s))" arbitrary: s ks s' rule: less_induct)
  case less
  note loop = less.prems(2) [unfolded drain_loop [of ttl now s]]
  consider "oldest s = None" | t where "oldest s = Some t" "now < t + ttl" | t where "oldest s = Some t" "t + ttl \<le> now"
    by (cases "oldest s") (use not_less in auto)
  then show ?case
  proof cases
    case 1
    then show ?thesis using loop less.prems(1) oldest_None [OF less.prems(1)] by (auto simp: expired_def fun_eq_iff)
  next
    case (2 t)
    have "\<not> expired ttl now s k" for k
      using oldest_least [OF less.prems(1) 2(1), of k] 2(2) by (fastforce simp: expired_def)
    then show ?thesis using loop 2 less.prems(1) by auto
  next
    case (3 t)
    obtain ks1 s1 where pop: "pop s = Some (ks1, s1)" and inv1: "invar s1" and dist1: "distinct ks1"
      and set1: "set ks1 = {k. inserted_at s k = Some t}"
      and at1: "inserted_at s1 = (\<lambda>k. if inserted_at s k = Some t then None else inserted_at s k)"
      using pop_oldest [OF less.prems(1) 3(1)] by blast
    obtain ks2 s2 where rec: "drain ttl now s1 = (ks2, s2)" by fastforce
    have eqs: "ks = ks1 @ ks2" "s' = s2" using loop 3 pop rec by simp_all
    have "dom (inserted_at s1) \<subset> dom (inserted_at s)"
      using oldest_entry [OF less.prems(1) 3(1)] by (auto simp: at1 split: if_splits)
    then have "card (dom (inserted_at s1)) < card (dom (inserted_at s))"
      by (rule psubset_card_mono [OF finite_entries [OF less.prems(1)]])
    note IH = less.hyps [OF this inv1 rec]
    have ex1: "expired ttl now s1 k \<longleftrightarrow> expired ttl now s k \<and> inserted_at s k \<noteq> Some t" for k
      by (auto simp: expired_def at1)
    have ext: "inserted_at s k = Some t \<Longrightarrow> expired ttl now s k" for k using 3(2) by (auto simp: expired_def)
    have same: "(the \<circ> inserted_at s1) k = (the \<circ> inserted_at s) k" if "k \<in> set ks2" for k
      using that IH ex1 by (auto simp: at1)
    have first: "(the \<circ> inserted_at s) k = t" if "k \<in> set ks1" for k using that set1 by auto
    have later: "t \<le> (the \<circ> inserted_at s) k" if "k \<in> set ks2" for k
      using that IH ex1 oldest_least [OF less.prems(1) 3(1), of k] by (auto simp: expired_def)
    have "map (the \<circ> inserted_at s1) ks2 = map (the \<circ> inserted_at s) ks2" using same by (rule map_cong [OF refl])
    then have "sorted (map (the \<circ> inserted_at s) ks2)" using IH by metis
    moreover have "sorted (map (the \<circ> inserted_at s) ks1)" using first by (simp add: sorted_wrt_iff_nth_less)
    ultimately have "sorted (map (the \<circ> inserted_at s) ks)"
      using first later unfolding eqs map_append sorted_append by auto
    moreover have "distinct ks" "set ks = {k. expired ttl now s k}" using IH dist1 set1 ex1 ext unfolding eqs by auto
    moreover have "inserted_at s' = (\<lambda>k. if expired ttl now s k then None else inserted_at s k)"
      using IH ex1 ext unfolding eqs at1 by auto
    ultimately show ?thesis using IH eqs by blast
  qed
qed

end

interpretation orphans: expiring_set orphan_inv orphaned_at orphan_oldest orphan_pop orphan_drain
proof
  fix s assume inv: "orphan_inv s"
  show "finite (dom (orphaned_at s))"
  proof (rule finite_subset)
    show "dom (orphaned_at s) \<subseteq> set (concat (hm_values (prio_queue s)))"
    proof
      fix i assume "i \<in> dom (orphaned_at s)"
      then obtain t infos where "map_of (prio_queue s) t = Some infos" "i \<in> set infos"
        using orphan_invD(5) [OF inv, of _ i] by (metis domD)
      then show "i \<in> set (concat (hm_values (prio_queue s)))" by (force dest: map_of_SomeD)
    qed
  qed simp
  show "orphan_oldest s = None \<Longrightarrow> orphaned_at s = Map.empty" using orphan_oldest_spec(1) [OF inv] by simp
  fix t
  show "orphan_oldest s = Some t \<Longrightarrow> \<exists>k. orphaned_at s k = Some t" by (rule orphan_oldest_spec(2) [OF inv])
  show "orphan_oldest s = Some t \<Longrightarrow> orphaned_at s k = Some t' \<Longrightarrow> t \<le> t'" for k t'
    by (rule orphan_oldest_spec(3) [OF inv])
  show "orphan_oldest s = Some t \<Longrightarrow> \<exists>ks s'. orphan_pop s = Some (ks, s') \<and> orphan_inv s' \<and> distinct ks \<and>
      set ks = {k. orphaned_at s k = Some t} \<and>
      orphaned_at s' = (\<lambda>k. if orphaned_at s k = Some t then None else orphaned_at s k)"
    by (elim orphan_pop_spec [OF inv]) blast
qed (rule orphan_drain.simps)

text \<open>The abstract set: one map from connections to the instants they were orphaned at.\<close>

datatype orphan_op = InsertOrphan orphan_connection_info instant | RemoveOrphan socket_addr u64 | PopOrphans

fun orphan_op_set :: "orphan_op \<Rightarrow> orphan_connection_set \<Rightarrow> orphan_connection_set" where
  "orphan_op_set (InsertOrphan info now) s = orphan_insert info now s"
| "orphan_op_set (RemoveOrphan addr v) s = snd (orphan_remove addr v s)"
| "orphan_op_set PopOrphans s = (case orphan_pop s of None \<Rightarrow> s | Some (_, s') \<Rightarrow> s')"

fun orphan_op_map ::
  "orphan_op \<Rightarrow> (orphan_connection_info \<Rightarrow> instant option) \<Rightarrow> (orphan_connection_info \<Rightarrow> instant option)" where
  "orphan_op_map (InsertOrphan info now) m = (if m info = None then m(info \<mapsto> now) else m)"
| "orphan_op_map (RemoveOrphan addr v) m = m(\<lparr>oi_remote_peer_addr = addr, oi_connection_version = v\<rparr> := None)"
| "orphan_op_map PopOrphans m = (\<lambda>i. if m i = Some (Min (ran m)) then None else m i)"

lemma orphan_oldest_Min:
  assumes inv: "orphan_inv s"
  shows "orphan_oldest s = (if orphaned_at s = Map.empty then None else Some (Min (ran (orphaned_at s))))"
proof (cases "orphan_oldest s")
  case None
  then show ?thesis using orphan_oldest_spec(1) [OF inv] by simp
next
  case (Some t)
  have "Min (ran (orphaned_at s)) = t"
  proof (rule Min_eqI)
    show "finite (ran (orphaned_at s))" by (rule finite_ran [OF orphans.finite_entries [OF inv]])
    show "t' \<in> ran (orphaned_at s) \<Longrightarrow> t \<le> t'" for t' using orphan_oldest_spec(3) [OF inv Some] by (auto simp: ran_def)
    show "t \<in> ran (orphaned_at s)" using orphan_oldest_spec(2) [OF inv Some] by (auto simp: ran_def)
  qed
  then show ?thesis using Some orphan_oldest_spec(1) [OF inv] by simp
qed

lemma orphan_op_simulates:
  assumes inv: "orphan_inv s"
  shows "orphan_inv (orphan_op_set e s) \<and> orphaned_at (orphan_op_set e s) = orphan_op_map e (orphaned_at s)"
proof (cases e)
  case PopOrphans
  show ?thesis
  proof (cases "orphan_oldest s")
    case None
    then have "orphan_pop s = None" by (simp add: orphan_oldest_def orphan_pop_def split: list.splits prod.splits)
    then show ?thesis using None inv PopOrphans orphan_oldest_spec(1) [OF inv] by (simp add: fun_eq_iff)
  next
    case (Some t)
    then have "Min (ran (orphaned_at s)) = t" using orphan_oldest_Min [OF inv] by (simp split: if_splits)
    with Some show ?thesis using PopOrphans by (elim orphan_pop_spec [OF inv]) simp
  qed
qed (use orphan_insert_spec [OF inv] orphan_remove_spec [OF inv] in \<open>simp_all\<close>)

lemma orphan_ops_simulate:
  "orphan_inv s \<Longrightarrow> orphan_inv (fold orphan_op_set ops s) \<and>
   orphaned_at (fold orphan_op_set ops s) = fold orphan_op_map ops (orphaned_at s)"
proof (induction ops arbitrary: s)
  case (Cons e ops)
  then show ?case using Cons.IH [of "orphan_op_set e s"] orphan_op_simulates [OF Cons.prems, of e] by simp
qed simp

text \<open>
  C34. \<open>OrphanConnectionSet\<close> implements a map from connections to the instants they became unused at, whatever the
  sequence of insertions, removals and pops: its length is the size of the map, its oldest instant the least one in
  it, and the expiry loop returns exactly the connections whose time to live is over, each once, oldest first, and
  keeps the others with their instants.
\<close>

theorem orphan_set_expires_exactly:
  "let s = fold orphan_op_set ops orphan_default; m = fold orphan_op_map ops Map.empty; (ks, s') = orphan_drain ttl now s
   in curr_len s = card (dom m) \<and> orphan_oldest s = (if m = Map.empty then None else Some (Min (ran m))) \<and>
      distinct ks \<and> set ks = {k. \<exists>t. m k = Some t \<and> t + ttl \<le> now} \<and> sorted (map (the \<circ> m) ks) \<and>
      orphaned_at s' = (\<lambda>k. if k \<in> set ks then None else m k)"
proof -
  let ?s = "fold orphan_op_set ops orphan_default"
  have inv: "orphan_inv ?s" and m: "orphaned_at ?s = fold orphan_op_map ops Map.empty"
    using orphan_ops_simulate [OF orphan_default_inv(1), of ops] by simp_all
  obtain ks s' where d: "orphan_drain ttl now ?s = (ks, s')" by fastforce
  show ?thesis
    unfolding Let_def d prod.case m [symmetric]
    using orphan_len [OF inv] orphan_oldest_Min [OF inv] orphans.drain_takes_expired [OF inv d]
    by (simp add: orphans.expired_def)
qed

section \<open>Connections marked for eviction\<close>

record connection_eviction =
  ce_remote_peer_addr :: socket_addr
  ce_connection_version :: u64

record connection_eviction_set =
  eviction_set :: "connection_eviction set"
  socket_addr_set :: "socket_addr set"
  socket_addr_refcount :: "(socket_addr, nat) hmap"

definition evictions_default :: connection_eviction_set where
  "evictions_default = \<lparr>eviction_set = {}, socket_addr_set = {}, socket_addr_refcount = []\<rparr>"

definition evictions_len :: "connection_eviction_set \<Rightarrow> nat" where
  "evictions_len s = card (eviction_set s)"

definition evictions_is_empty :: "connection_eviction_set \<Rightarrow> bool" where
  "evictions_is_empty s \<longleftrightarrow> eviction_set s = {}"

definition evictions_clear :: "connection_eviction_set \<Rightarrow> connection_eviction_set" where
  "evictions_clear s = s\<lparr>eviction_set := {}, socket_addr_set := {}, socket_addr_refcount := []\<rparr>"

definition evictions_insert :: "connection_eviction \<Rightarrow> connection_eviction_set \<Rightarrow> bool \<times> connection_eviction_set" where
  "evictions_insert e s =
     (if e \<in> eviction_set s then (False, s)
      else (True, s\<lparr>eviction_set := insert e (eviction_set s),
                     socket_addr_set := insert (ce_remote_peer_addr e) (socket_addr_set s),
                     socket_addr_refcount := hm_insert (ce_remote_peer_addr e)
                       (case hm_get (socket_addr_refcount s) (ce_remote_peer_addr e) of None \<Rightarrow> 1 | Some n \<Rightarrow> n + 1)
                       (socket_addr_refcount s)\<rparr>))"

definition evictions_remove :: "connection_eviction \<Rightarrow> connection_eviction_set \<Rightarrow> bool \<times> connection_eviction_set" where
  "evictions_remove e s =
     (if e \<notin> eviction_set s then (False, s)
      else
        (let addr = ce_remote_peer_addr e; s1 = s\<lparr>eviction_set := eviction_set s - {e}\<rparr>
         in (True,
             (case hm_get (socket_addr_refcount s1) addr of
                None \<Rightarrow> s1\<lparr>socket_addr_set := socket_addr_set s1 - {addr}\<rparr>
              | Some entry \<Rightarrow>
                  (if entry - 1 = 0
                   then s1\<lparr>socket_addr_refcount := hm_remove addr (socket_addr_refcount s1),
                           socket_addr_set := socket_addr_set s1 - {addr}\<rparr>
                   else s1\<lparr>socket_addr_refcount := hm_insert addr (entry - 1) (socket_addr_refcount s1)\<rparr>)))))"

definition evictions_contains :: "connection_eviction \<Rightarrow> connection_eviction_set \<Rightarrow> bool" where
  "evictions_contains e s \<longleftrightarrow> e \<in> eviction_set s"

definition evictions_contains_addr :: "socket_addr \<Rightarrow> connection_eviction_set \<Rightarrow> bool" where
  "evictions_contains_addr addr s \<longleftrightarrow> addr \<in> socket_addr_set s"

definition evictions_at :: "connection_eviction set \<Rightarrow> socket_addr \<Rightarrow> nat" where
  "evictions_at E addr = card {e \<in> E. ce_remote_peer_addr e = addr}"

definition evictions_inv :: "connection_eviction_set \<Rightarrow> bool" where
  "evictions_inv s \<longleftrightarrow>
     finite (eviction_set s) \<and> socket_addr_set s = ce_remote_peer_addr ` eviction_set s \<and>
     (\<forall>addr. hm_get (socket_addr_refcount s) addr =
        (if evictions_at (eviction_set s) addr = 0 then None else Some (evictions_at (eviction_set s) addr)))"

lemma evictions_invD:
  assumes "evictions_inv s"
  shows "finite (eviction_set s)" and "socket_addr_set s = ce_remote_peer_addr ` eviction_set s"
    and "hm_get (socket_addr_refcount s) addr =
      (if evictions_at (eviction_set s) addr = 0 then None else Some (evictions_at (eviction_set s) addr))"
  using assms unfolding evictions_inv_def by blast+

lemma evictions_default_inv [simp]: "evictions_inv evictions_default" "eviction_set evictions_default = {}"
  by (simp_all add: evictions_inv_def evictions_default_def evictions_at_def)

lemma evictions_clear_eq: "evictions_clear s = evictions_default"
  by (simp add: evictions_clear_def evictions_default_def)

lemma evictions_at_insert:
  assumes "finite E" and "e \<notin> E"
  shows "evictions_at (insert e E) addr = evictions_at E addr + (if addr = ce_remote_peer_addr e then 1 else 0)"
proof -
  have "{x \<in> insert e E. ce_remote_peer_addr x = addr} =
      (if addr = ce_remote_peer_addr e then insert e {x \<in> E. ce_remote_peer_addr x = addr}
       else {x \<in> E. ce_remote_peer_addr x = addr})" by auto
  then show ?thesis using assms by (simp add: evictions_at_def)
qed

lemma evictions_at_0_iff: "finite E \<Longrightarrow> evictions_at E addr = 0 \<longleftrightarrow> addr \<notin> ce_remote_peer_addr ` E"
  by (auto simp: evictions_at_def)

lemma evictions_insert_spec:
  assumes "evictions_inv s"
  shows "evictions_inv (snd (evictions_insert e s))"
    and "eviction_set (snd (evictions_insert e s)) = insert e (eviction_set s)"
    and "fst (evictions_insert e s) \<longleftrightarrow> e \<notin> eviction_set s"
proof -
  note inv = evictions_invD [OF assms]
  show "eviction_set (snd (evictions_insert e s)) = insert e (eviction_set s)"
    and "fst (evictions_insert e s) \<longleftrightarrow> e \<notin> eviction_set s"
    by (auto simp: evictions_insert_def)
  show "evictions_inv (snd (evictions_insert e s))"
  proof (cases "e \<in> eviction_set s")
    case False
    then show ?thesis
      using inv by (simp add: evictions_inv_def evictions_insert_def evictions_at_insert split: option.split)
  qed (use assms in \<open>simp add: evictions_insert_def\<close>)
qed

lemma evictions_remove_spec:
  assumes "evictions_inv s"
  shows "evictions_inv (snd (evictions_remove e s))"
    and "eviction_set (snd (evictions_remove e s)) = eviction_set s - {e}"
    and "fst (evictions_remove e s) \<longleftrightarrow> e \<in> eviction_set s"
proof -
  note inv = evictions_invD [OF assms]
  let ?E = "eviction_set s - {e}" and ?a = "ce_remote_peer_addr e"
  show "fst (evictions_remove e s) \<longleftrightarrow> e \<in> eviction_set s"
    by (simp add: evictions_remove_def Let_def)
  show set: "eviction_set (snd (evictions_remove e s)) = ?E"
    by (auto simp: evictions_remove_def Let_def split: option.split)
  show "evictions_inv (snd (evictions_remove e s))"
  proof (cases "e \<in> eviction_set s")
    case True
    have at: "evictions_at (eviction_set s) addr = evictions_at ?E addr + (if addr = ?a then 1 else 0)" for addr
      using evictions_at_insert [of ?E e addr] inv(1) True by (simp add: insert_absorb)
    then have cnt: "hm_get (socket_addr_refcount s) ?a = Some (evictions_at ?E ?a + 1)" using inv(3) [of ?a] by simp
    have zero: "evictions_at ?E ?a = 0 \<longleftrightarrow> ?a \<notin> ce_remote_peer_addr ` ?E"
      using inv(1) by (simp add: evictions_at_0_iff)
    have img: "ce_remote_peer_addr ` eviction_set s = insert ?a (ce_remote_peer_addr ` ?E)" using True by auto
    have others: "hm_get (socket_addr_refcount s) addr = (if evictions_at ?E addr = 0 then None else Some (evictions_at ?E addr))"
      if "addr \<noteq> ?a" for addr using that inv(3) [of addr] at by simp
    show ?thesis
    proof (cases "evictions_at ?E ?a = 0")
      case True
      then have "snd (evictions_remove e s) = s\<lparr>eviction_set := ?E,
          socket_addr_refcount := hm_remove ?a (socket_addr_refcount s), socket_addr_set := socket_addr_set s - {?a}\<rparr>"
        using cnt \<open>e \<in> eviction_set s\<close> by (simp add: evictions_remove_def Let_def)
      moreover have "socket_addr_set s - {?a} = ce_remote_peer_addr ` ?E" using True zero img inv(2) by blast
      ultimately show ?thesis using inv(1) others True by (simp add: evictions_inv_def)
    next
      case False
      then have "snd (evictions_remove e s) = s\<lparr>eviction_set := ?E,
          socket_addr_refcount := hm_insert ?a (evictions_at ?E ?a) (socket_addr_refcount s)\<rparr>"
        using cnt \<open>e \<in> eviction_set s\<close> by (simp add: evictions_remove_def Let_def)
      moreover have "?a \<in> ce_remote_peer_addr ` ?E" using False zero by simp
      then have "ce_remote_peer_addr ` ?E = socket_addr_set s" by (simp only: inv(2) img insert_absorb)
      moreover have "hm_get (hm_insert ?a (evictions_at ?E ?a) (socket_addr_refcount s)) addr =
          (if evictions_at ?E addr = 0 then None else Some (evictions_at ?E addr))" for addr
        using others [of addr] False by (cases "addr = ?a") simp_all
      ultimately show ?thesis using inv(1) by (simp only: evictions_inv_def) simp
    qed
  qed (use assms in \<open>simp add: evictions_remove_def\<close>)
qed

datatype eviction_op = MarkEviction connection_eviction | UnmarkEviction connection_eviction

fun eviction_op_counted :: "eviction_op \<Rightarrow> connection_eviction_set \<Rightarrow> connection_eviction_set" where
  "eviction_op_counted (MarkEviction e) s = snd (evictions_insert e s)"
| "eviction_op_counted (UnmarkEviction e) s = snd (evictions_remove e s)"

fun eviction_op_plain :: "eviction_op \<Rightarrow> connection_eviction set \<Rightarrow> connection_eviction set" where
  "eviction_op_plain (MarkEviction e) E = insert e E"
| "eviction_op_plain (UnmarkEviction e) E = E - {e}"

lemma eviction_ops_simulate:
  "evictions_inv s \<Longrightarrow> evictions_inv (fold eviction_op_counted ops s) \<and>
   eviction_set (fold eviction_op_counted ops s) = fold eviction_op_plain ops (eviction_set s)"
proof (induction ops arbitrary: s)
  case (Cons e ops)
  have "evictions_inv (eviction_op_counted e s) \<and> eviction_set (eviction_op_counted e s) = eviction_op_plain e (eviction_set s)"
    using Cons.prems by (cases e) (simp_all add: evictions_insert_spec evictions_remove_spec)
  then show ?case using Cons.IH [of "eviction_op_counted e s"] by simp
qed simp

text \<open>
  \<open>ConnectionEvictionSet\<close> implements a plain set of connections: after any sequence of insertions and removals it
  holds the members of that set, an address is reported as being evicted exactly when one of its connections is a
  member, and its reference count is the number of them; the branch for a missing count is never taken.
\<close>

theorem eviction_set_counts_addresses:
  "let s = fold eviction_op_counted ops evictions_default; E = fold eviction_op_plain ops {}
   in (\<forall>e. evictions_contains e s \<longleftrightarrow> e \<in> E) \<and> evictions_len s = card E \<and> (evictions_is_empty s \<longleftrightarrow> E = {}) \<and>
      (\<forall>addr. evictions_contains_addr addr s \<longleftrightarrow> (\<exists>e. e \<in> E \<and> ce_remote_peer_addr e = addr)) \<and>
      (\<forall>addr. hm_get (socket_addr_refcount s) addr = (if evictions_at E addr = 0 then None else Some (evictions_at E addr)))"
proof -
  let ?s = "fold eviction_op_counted ops evictions_default"
  have inv: "evictions_inv ?s" and E: "eviction_set ?s = fold eviction_op_plain ops {}"
    using eviction_ops_simulate [OF evictions_default_inv(1), of ops] by simp_all
  show ?thesis
    unfolding Let_def E [symmetric] using evictions_invD [OF inv]
    by (auto simp: evictions_contains_def evictions_len_def evictions_is_empty_def evictions_contains_addr_def)
qed

end
