(* ===== verification/Tpu_Eviction.thy ===== *)
theory Tpu_Eviction
  imports Jet_Eviction
begin

text \<open>
  \<open>crates/tpu-client/src/core.rs\<close>: the connections of the TPU client's driver, grouped by the address the peers share,
  and the strategy that chooses which of them to close, \<open>StakeBasedEvictionStrategy\<close>.

  \<open>StakedSortedSet\<close> is the set of \<open>Jet_Eviction\<close>, with the two operations the client library adds. The trait's first
  method fulfils the contract of the relay's strategies, the locale \<open>eviction_strategy\<close>; it never panics. Its second
  method, the one the driver calls, chooses groups: the lemmas show that it evicts whole connections, and that
  connections without peers are chosen before all others although choosing them evicts nobody.
\<close>

section \<open>Connections and groups\<close>

text \<open>A \<open>quinn::Connection\<close> is only passed on and closed; it is a number.\<close>

type_synonym quinn_connection = nat

record active_connection =
  ac_remote_peer_addr :: socket_addr
  ac_conn :: quinn_connection
  ac_connection_version :: u64
  ac_multiplexed :: "(pubkey, u64) hmap"

type_synonym connection_map = "(socket_addr, active_connection) hmap"

definition staked_clear :: "'v staked_sorted_set \<Rightarrow> 'v staked_sorted_set" where
  "staked_clear s = s\<lparr>peer_stake_map := [], sorted_map := []\<rparr>"

definition staked_get :: "'v staked_sorted_set \<Rightarrow> 'v \<Rightarrow> u64 option" where
  "staked_get s v = hm_get (peer_stake_map s) v"

text \<open>\<open>values().sum()\<close> over \<open>u64\<close> wraps around in the release profile.\<close>

definition total_stake :: "(pubkey, u64) hmap \<Rightarrow> u64" where
  "total_stake grp = sum_list (hm_values grp)"

definition get_peer_stake_mapping :: "connection_map \<Rightarrow> socket_addr \<Rightarrow> (pubkey, u64) hmap option" where
  "get_peer_stake_mapping conns addr = map_option ac_multiplexed (hm_get conns addr)"

definition get_connected_stake_at_addr :: "connection_map \<Rightarrow> socket_addr \<Rightarrow> u64 option" where
  "get_connected_stake_at_addr conns addr = map_option total_stake (get_peer_stake_mapping conns addr)"

text \<open>\<open>RemotePeerAddrMap\<close>: the groups in the order of the address set; addresses without a connection are skipped.\<close>

definition staked_sorted_remote_peer_groups ::
  "connection_map \<Rightarrow> socket_addr staked_sorted_set \<Rightarrow> (socket_addr \<times> (pubkey, u64) hmap) list" where
  "staked_sorted_remote_peer_groups conns addrs =
     List.map_filter (\<lambda>(_, addr). map_option (\<lambda>grp. (addr, grp)) (get_peer_stake_mapping conns addr)) (peers_iter addrs)"

section \<open>The strategy\<close>

definition idle_or_unused :: "duration \<Rightarrow> instant \<Rightarrow> (pubkey, instant) hmap \<Rightarrow> pubkey \<Rightarrow> bool" where
  "idle_or_unused grace now usage peer =
     (case hm_get usage peer of None \<Rightarrow> True | Some last_usage \<Rightarrow> grace \<le> now - last_usage)"

definition tpu_plan_eviction ::
  "duration \<Rightarrow> instant \<Rightarrow> stake_sorted_peer_set \<Rightarrow> (pubkey, instant) hmap \<Rightarrow> pubkey set \<Rightarrow> nat \<Rightarrow> pubkey list" where
  "tpu_plan_eviction grace now ss usage already_evicting plan_ahead_size =
     (if peers_is_empty ss then []
      else
        (let candidates = map snd (filter (\<lambda>(_, peer). peer \<notin> already_evicting) (peers_iter ss));
             plan = take plan_ahead_size (filter (idle_or_unused grace now usage) candidates)
         in if plan = [] then take plan_ahead_size candidates else plan))"

text \<open>
  The two loops over a group leave with \<open>None\<close> at the first peer that is being evicted or, in the first pass, was used
  recently.
\<close>

definition group_not_evicting :: "pubkey set \<Rightarrow> socket_addr \<times> (pubkey, u64) hmap \<Rightarrow> bool" where
  "group_not_evicting already_evicting g \<longleftrightarrow> (\<forall>peer \<in> set (hm_keys (snd g)). peer \<notin> already_evicting)"

definition group_idle :: "duration \<Rightarrow> instant \<Rightarrow> (pubkey, instant) hmap \<Rightarrow> socket_addr \<times> (pubkey, u64) hmap \<Rightarrow> bool" where
  "group_idle grace now usage g \<longleftrightarrow> (\<forall>peer \<in> set (hm_keys (snd g)). idle_or_unused grace now usage peer)"

definition group_peers :: "(socket_addr \<times> (pubkey, u64) hmap) list \<Rightarrow> pubkey list" where
  "group_peers gs = concat (map (\<lambda>g. hm_keys (snd g)) gs)"

definition plan_eviction_with_addr_map ::
  "duration \<Rightarrow> instant \<Rightarrow> (pubkey, instant) hmap \<Rightarrow> pubkey set \<Rightarrow> nat
     \<Rightarrow> connection_map \<Rightarrow> socket_addr staked_sorted_set \<Rightarrow> pubkey list" where
  "plan_eviction_with_addr_map grace now usage already_evicting plan_ahead_size conns addrs =
     (let groups = filter (group_not_evicting already_evicting) (staked_sorted_remote_peer_groups conns addrs);
          proposed_eviction = group_peers (take plan_ahead_size (filter (group_idle grace now usage) groups))
      in if proposed_eviction = [] then group_peers (take plan_ahead_size groups) else proposed_eviction)"

section \<open>The plan without addresses fulfils the relay's contract\<close>

lemma tpu_plan_eviction_sound:
  "length (tpu_plan_eviction grace now ss usage ev n) \<le> n \<and>
   subseq (tpu_plan_eviction grace now ss usage ev n) (candidates ss ev)"
proof -
  have "subseq (take n (filter P xs)) xs" for P and xs :: "pubkey list"
    by (metis subseq_filter_left subseq_order.trans take_is_prefix prefix_imp_subseq)
  moreover have "subseq (take n xs) xs" for xs :: "pubkey list" by (simp add: take_is_prefix prefix_imp_subseq)
  ultimately show ?thesis
    by (simp add: tpu_plan_eviction_def Let_def candidates_def candidates_filter del: filter_filter)
qed

interpretation tpu_stake_based: answering_strategy
  "\<lambda>now ss usage ev n. Inr (tpu_plan_eviction grace now ss usage ev n)" for grace
proof
  fix now ss usage ev n ps
  assume "Inr (tpu_plan_eviction grace now ss usage ev n) = (Inr ps :: pubkey list res)"
  then have ps: "ps = tpu_plan_eviction grace now ss usage ev n" by simp
  then show "length ps \<le> n" by (simp add: tpu_plan_eviction_sound)
  have sub: "subseq ps (candidates ss ev)" by (simp add: ps tpu_plan_eviction_sound)
  assume inv: "peers_inv ss"
  show "distinct ps"
    using subseq_set_distinct(2) [OF sub] peers_iter_distinct [OF inv] by (simp add: candidates_def)
  fix p assume "p \<in> set ps"
  then have "p \<in> set (candidates ss ev)" using subseq_set_distinct(1) [OF sub] by blast
  then show "hm_get (peer_stake_map ss) p \<noteq> None \<and> p \<notin> ev"
    using peers_iter_set [OF inv] by (auto simp: candidates_def)
qed simp

section \<open>The plan with addresses\<close>

lemma groups_set:
  assumes "peers_inv addrs"
  shows "(addr, grp) \<in> set (staked_sorted_remote_peer_groups conns addrs) \<longleftrightarrow>
    (\<exists>c. hm_get conns addr = Some c \<and> ac_multiplexed c = grp) \<and> staked_get addrs addr \<noteq> None"
  using peers_iter_set [OF assms]
  by (auto simp: staked_sorted_remote_peer_groups_def get_peer_stake_mapping_def staked_get_def set_map_filter
      split: prod.splits)

lemma group_peers_set: "p \<in> set (group_peers gs) \<longleftrightarrow> (\<exists>g \<in> set gs. hm_contains (snd g) p)"
  by (auto simp: group_peers_def)

text \<open>The plan is the peers of a list of groups, none of which has a member that is being evicted already.\<close>

lemma plan_groups:
  obtains gs where "plan_eviction_with_addr_map grace now usage ev n conns addrs = group_peers gs"
    and "length gs \<le> n" and "set gs \<subseteq> set (filter (group_not_evicting ev) (staked_sorted_remote_peer_groups conns addrs))"
proof -
  let ?groups = "filter (group_not_evicting ev) (staked_sorted_remote_peer_groups conns addrs)"
  let ?idle = "take n (filter (group_idle grace now usage) ?groups)"
  have "set ?idle \<subseteq> set ?groups" "set (take n ?groups) \<subseteq> set ?groups" by (auto dest: in_set_takeD)
  moreover have "plan_eviction_with_addr_map grace now usage ev n conns addrs =
      group_peers (if group_peers ?idle = [] then take n ?groups else ?idle)"
    by (simp add: plan_eviction_with_addr_map_def Let_def)
  ultimately show ?thesis using that [of "if group_peers ?idle = [] then take n ?groups else ?idle"] by auto
qed

lemma plan_evicts_whole_connections:
  assumes "peers_inv addrs" and "p \<in> set (plan_eviction_with_addr_map grace now usage ev n conns addrs)"
  shows "\<exists>addr c. hm_get conns addr = Some c \<and> hm_contains (ac_multiplexed c) p \<and>
    (\<forall>q. hm_contains (ac_multiplexed c) q \<longrightarrow>
       q \<notin> ev \<and> q \<in> set (plan_eviction_with_addr_map grace now usage ev n conns addrs))"
proof -
  obtain gs where plan: "plan_eviction_with_addr_map grace now usage ev n conns addrs = group_peers gs"
    and gs: "set gs \<subseteq> set (filter (group_not_evicting ev) (staked_sorted_remote_peer_groups conns addrs))"
    by (rule plan_groups)
  obtain addr grp where g: "(addr, grp) \<in> set gs" and p: "hm_contains grp p"
    using assms(2) unfolding plan group_peers_set by force
  then have "(addr, grp) \<in> set (staked_sorted_remote_peer_groups conns addrs)" and not_ev: "group_not_evicting ev (addr, grp)"
    using gs by auto
  then obtain c where "hm_get conns addr = Some c" "ac_multiplexed c = grp" unfolding groups_set [OF assms(1)] by blast
  moreover have "q \<notin> ev \<and> q \<in> set (group_peers gs)" if "hm_contains grp q" for q
    using that g not_ev unfolding group_peers_set by (auto simp: group_not_evicting_def intro!: bexI [of _ "(addr, grp)"])
  ultimately show ?thesis using p unfolding plan by blast
qed

section \<open>Unused connections come first\<close>

text \<open>
  What the driver maintains: every connection is listed under the stake of its peers. Connections without peers are
  then listed before those with stake.
\<close>

definition stakes_listed :: "connection_map \<Rightarrow> socket_addr staked_sorted_set \<Rightarrow> bool" where
  "stakes_listed conns addrs \<longleftrightarrow>
     (\<forall>addr c. hm_get conns addr = Some c \<longrightarrow> staked_get addrs addr = Some (total_stake (ac_multiplexed c)))"

definition peers_have_stake :: "connection_map \<Rightarrow> bool" where
  "peers_have_stake conns \<longleftrightarrow>
     (\<forall>addr c. hm_get conns addr = Some c \<longrightarrow> ac_multiplexed c \<noteq> [] \<longrightarrow> total_stake (ac_multiplexed c) \<noteq> 0)"

definition unused_addrs :: "connection_map \<Rightarrow> socket_addr set" where
  "unused_addrs conns = {addr. \<exists>c. hm_get conns addr = Some c \<and> ac_multiplexed c = []}"

lemma map_filter_snoc_sorted:
  assumes "sorted (map fst xs)" and "\<And>k x g. (k, x) \<in> set xs \<Longrightarrow> f (k, x) = Some g \<Longrightarrow> P g \<longleftrightarrow> k = (0 :: u64)"
  shows "List.map_filter f xs = filter P (List.map_filter f xs) @ filter (\<lambda>g. \<not> P g) (List.map_filter f xs)"
  using assms
proof (induction xs)
  case (Cons e xs)
  obtain k x where e: "e = (k, x)" by fastforce
  have IH: "List.map_filter f xs = filter P (List.map_filter f xs) @ filter (\<lambda>g. \<not> P g) (List.map_filter f xs)"
    using Cons.prems by (intro Cons.IH) auto
  show ?case
  proof (cases "f e")
    case None
    then show ?thesis using IH by (simp add: map_filter_simps)
  next
    case (Some g)
    show ?thesis
    proof (cases "P g")
      case True
      then show ?thesis using Some IH by (simp add: map_filter_simps)
    next
      case False
      then have "k \<noteq> 0" using Cons.prems(2) [of k x g] Some e by simp
      then have "k' \<noteq> 0" if "(k', y) \<in> set xs" for k' y using that Cons.prems(1) e by (auto simp: word_le_nat_alt unat_eq_0)
      then have "\<not> P h" if "h \<in> set (List.map_filter f xs)" for h
        using that Cons.prems(2) by (fastforce simp: set_map_filter)
      then show ?thesis using Some False by (auto simp: map_filter_simps filter_empty_conv)
    qed
  qed
qed (simp add: map_filter_simps)

lemma unused_groups_first:
  assumes inv: "peers_inv addrs" and listed: "stakes_listed conns addrs"
    and staked: "peers_have_stake conns"
  defines "gs \<equiv> staked_sorted_remote_peer_groups conns addrs"
  shows "gs = filter (\<lambda>g. snd g = []) gs @ filter (\<lambda>g. snd g \<noteq> []) gs"
    and "card (unused_addrs conns) \<le> length (filter (\<lambda>g. snd g = []) gs)"
proof -
  let ?f = "\<lambda>(_ :: u64, addr). map_option (\<lambda>grp. (addr, grp)) (get_peer_stake_mapping conns addr)"
  have stake: "snd g = [] \<longleftrightarrow> k = 0"
    if k: "(k, addr) \<in> set (peers_iter addrs)" and g: "?f (k, addr) = Some g" for k addr g
  proof -
    obtain c where c: "hm_get conns addr = Some c" "g = (addr, ac_multiplexed c)"
      using g by (auto simp: get_peer_stake_mapping_def)
    then have "k = total_stake (ac_multiplexed c)"
      using k listed peers_iter_set [OF inv] by (simp add: stakes_listed_def staked_get_def)
    then show ?thesis using c staked [unfolded peers_have_stake_def, rule_format, OF c(1)] by (cases "ac_multiplexed c = []") (simp_all add: total_stake_def)
  qed
  show "gs = filter (\<lambda>g. snd g = []) gs @ filter (\<lambda>g. snd g \<noteq> []) gs"
    unfolding gs_def staked_sorted_remote_peer_groups_def
    by (rule map_filter_snoc_sorted [OF peers_iter_sorted [OF inv]]) (use stake in blast)
  have "unused_addrs conns \<subseteq> fst ` set (filter (\<lambda>g. snd g = []) gs)"
  proof
    fix addr assume "addr \<in> unused_addrs conns"
    then have "(addr, []) \<in> set gs"
      using listed unfolding gs_def groups_set [OF inv] by (fastforce simp: unused_addrs_def stakes_listed_def)
    then show "addr \<in> fst ` set (filter (\<lambda>g. snd g = []) gs)" by force
  qed
  then have "card (unused_addrs conns) \<le>
      card (fst ` set (filter (\<lambda>g. snd g = []) gs))" by (rule card_mono [rotated]) simp
  also have "\<dots> \<le> length (filter (\<lambda>g. snd g = []) gs)"
    using card_image_le [of "set (filter (\<lambda>g. snd g = []) gs)" fst] card_length [of "filter (\<lambda>g. snd g = []) gs"] by simp
  finally show "card (unused_addrs conns) \<le> length (filter (\<lambda>g. snd g = []) gs)" .
qed

lemma unused_connections_fill_plan:
  assumes "peers_inv addrs" and "stakes_listed conns addrs"
    and "peers_have_stake conns"
    and n: "n \<le> card (unused_addrs conns)"
  shows "plan_eviction_with_addr_map grace now usage ev n conns addrs = []"
proof -
  let ?gs = "staked_sorted_remote_peer_groups conns addrs" and ?unused = "\<lambda>g :: socket_addr \<times> (pubkey, u64) hmap. snd g = []"
  note first = unused_groups_first [OF assms(1-3)]
  have none: "group_peers (take n (filter P ?gs)) = []" if P: "\<And>g. ?unused g \<Longrightarrow> P g" for P
  proof -
    have "filter P (filter ?unused ?gs) = filter ?unused ?gs" unfolding filter_id_conv using P by auto
    then have "filter P ?gs = filter ?unused ?gs @ filter P (filter (\<lambda>g. \<not> ?unused g) ?gs)"
      using arg_cong [where f = "filter P", OF first(1)] by simp
    then have "take n (filter P ?gs) = take n (filter ?unused ?gs)" using first(2) n by simp
    then show ?thesis by (auto simp: group_peers_def dest: in_set_takeD)
  qed
  have "group_peers (take n (filter (group_idle grace now usage) (filter (group_not_evicting ev) ?gs))) = []"
    unfolding filter_filter by (rule none) (simp add: group_idle_def group_not_evicting_def)
  moreover have "group_peers (take n (filter (group_not_evicting ev) ?gs)) = []"
    by (rule none) (simp add: group_not_evicting_def)
  ultimately show ?thesis by (simp add: plan_eviction_with_addr_map_def Let_def)
qed

text \<open>
  The trait's post condition bounds the plan by \<open>plan_ahead_size\<close> peers; the count is one of groups, and a group of two
  peers is a plan of length two for a size of one.
\<close>

lemma plan_longer_than_asked:
  "plan_eviction_with_addr_map 5 100 [] {} 1
     [(SocketAddr 1 8000, \<lparr>ac_remote_peer_addr = SocketAddr 1 8000, ac_conn = 0, ac_connection_version = 0,
                           ac_multiplexed = [(Pubkey 1, 10), (Pubkey 2, 20)]\<rparr>)]
     (snd (peers_insert (SocketAddr 1 8000) 30 peers_default)) = [Pubkey 1, Pubkey 2]"
  by (simp add: plan_eviction_with_addr_map_def staked_sorted_remote_peer_groups_def get_peer_stake_mapping_def
      peers_iter_def peers_insert_def peers_remove_def peers_default_def map_filter_simps group_peers_def
      group_not_evicting_def group_idle_def idle_or_unused_def)

end
