(* ===== verification/Tpu_Worker.thy ===== *)
theory Tpu_Worker
  imports Jet_Worker
begin

text \<open>
  \<open>crates/tpu-client/src/core.rs\<close>: the messages of the TPU client's driver, the size limit of a transaction, and
  \<open>QuicTxSenderWorker\<close>, the task that sends the transactions of one peer over a connection it may share with other peers.

  \<open>TpuSenderTxn\<close> has the fields of the relay's transaction and is the same record; so is the state of the worker, without
  the counter \<open>txn_sent\<close>, which is only logged. The worker runs two timers the relay's does not have: the instant of its
  last activity and the deadline of \<open>burst_timer\<close>; a worker without a transaction for ten seconds ends. Draining the
  queue is the relay's routine up to the type of the messages, which is how its lemmas apply here.
\<close>

section \<open>Messages\<close>

type_synonym tpu_sender_txn = gateway_transaction

datatype tpu_drop_reason =
    TpuRateLimited
  | TpuRemotePeerUnreachable
  | DropByDriver
  | TpuRemotePeerBeingEvicted
  | InvalidPacketSize
  | DriverIdentityChanged

record tpu_tx_drop =
  xd_remote_peer_identity :: pubkey
  xd_drop_reason :: tpu_drop_reason
  xd_dropped_tx_vec :: tx_queue

datatype tpu_sender_response =
    TpuTxSent gateway_tx_sent
  | TpuTxFailed gateway_tx_failed
  | TpuTxDrop tpu_tx_drop

section \<open>The size of a transaction\<close>

definition tpu_packet_data_size :: nat where
  "tpu_packet_data_size = 1232"

definition v1_transaction_data_size :: nat where
  "v1_transaction_data_size = 4096"

definition transaction_data_size_limit :: "bytes \<Rightarrow> nat" where
  "transaction_data_size_limit wire =
     (case wire of
        b # _ \<Rightarrow> if b = 0x81 then v1_transaction_data_size else tpu_packet_data_size
      | [] \<Rightarrow> tpu_packet_data_size)"

definition transaction_data_size_is_valid :: "bytes \<Rightarrow> bool" where
  "transaction_data_size_is_valid wire \<longleftrightarrow> length wire \<le> transaction_data_size_limit wire"

section \<open>The worker\<close>

definition tpu_process_tx ::
  "uni_outcome \<Rightarrow> tpu_sender_txn \<Rightarrow> nat \<Rightarrow> worker
     \<Rightarrow> worker \<times> tpu_sender_response list \<times> tx_sender_worker_error option" where
  "tpu_process_tx answer tx attempt w =
     (case send_tx answer of
        None \<Rightarrow>
          (w, [TpuTxSent \<lparr>ts_remote_peer_identity = w_remote_peer w, ts_remote_peer_addr = w_remote_addr w,
                          ts_tx_sig = gt_tx_sig tx\<rparr>], None)
      | Some e \<Rightarrow>
          (let (w', out) =
             (if attempt \<ge> w_max_tx_attempt w
              then (w, [TpuTxFailed \<lparr>tf_remote_peer_identity = w_remote_peer w, tf_remote_peer_addr = w_remote_addr w,
                                     tf_tx_sig = gt_tx_sig tx, tf_failure_reason = e\<rparr>])
              else (w\<lparr>w_tx_queue := w_tx_queue w @ [(tx, attempt + 1)]\<rparr>, []))
           in (w', out,
               (case e of
                  SendConnectionError connection_error \<Rightarrow> Some (ConnectionLost connection_error)
                | StreamStopped _ \<Rightarrow> None
                | StreamClosed \<Rightarrow> None
                | ZeroRttRejected \<Rightarrow> Some WorkerZeroRttRejected))))"

text \<open>The relay's messages, read as messages of the client library.\<close>

fun tpu_drop_reason_of :: "tx_drop_reason \<Rightarrow> tpu_drop_reason" where
  "tpu_drop_reason_of RateLimited = TpuRateLimited"
| "tpu_drop_reason_of RemotePeerUnreachable = TpuRemotePeerUnreachable"
| "tpu_drop_reason_of DropByGateway = DropByDriver"
| "tpu_drop_reason_of RemotePeerBeingEvicted = TpuRemotePeerBeingEvicted"

fun tpu_response_of :: "gateway_response \<Rightarrow> tpu_sender_response" where
  "tpu_response_of (TxSent r) = TpuTxSent r"
| "tpu_response_of (TxFailed r) = TpuTxFailed r"
| "tpu_response_of (TxDrop d) =
     TpuTxDrop \<lparr>xd_remote_peer_identity = td_remote_peer_identity d,
                xd_drop_reason = tpu_drop_reason_of (td_drop_reason d), xd_dropped_tx_vec = td_dropped_gateway_tx_vec d\<rparr>"

lemma tpu_process_tx_eq:
  "tpu_process_tx answer tx attempt w =
     (case process_tx answer tx attempt w of (w', out, err) \<Rightarrow> (w', map tpu_response_of out, err))"
  by (simp add: tpu_process_tx_def process_tx_def split: option.split send_tx_error.split)

function tpu_try_process_tx_in_queue ::
  "(nat \<Rightarrow> uni_outcome) \<Rightarrow> worker \<Rightarrow> worker \<times> tpu_sender_response list \<times> tx_sender_worker_error option" where
  "tpu_try_process_tx_in_queue answers w =
     (case w_tx_queue w of
        [] \<Rightarrow> (w, [], None)
      | (tx, attempt) # rest \<Rightarrow>
          (case tpu_process_tx (answers 0) tx attempt (w\<lparr>w_tx_queue := rest\<rparr>) of
             (w', out, Some e) \<Rightarrow> (w', out, Some e)
           | (w', out, None) \<Rightarrow>
               (case tpu_try_process_tx_in_queue (\<lambda>k. answers (Suc k)) w' of
                  (w'', out', err) \<Rightarrow> (w'', out @ out', err))))"
  by pat_completeness auto
termination
proof (relation "measure (\<lambda>(answers, w). queue_budget (w_max_tx_attempt w) (w_tx_queue w))")
  fix answers :: "nat \<Rightarrow> uni_outcome" and w :: worker and e rest tx attempt w' q out
    and err :: "tx_sender_worker_error option"
  assume "w_tx_queue w = e # rest" "(tx, attempt) = e"
    and "(w', q) = tpu_process_tx (answers 0) tx attempt (w\<lparr>w_tx_queue := rest\<rparr>)" "(out, err) = q" "err = None"
  then obtain out' where queue: "w_tx_queue w = (tx, attempt) # rest"
    and p: "process_tx (answers 0) tx attempt (w\<lparr>w_tx_queue := rest\<rparr>) = (w', out', err)"
    by (auto simp: tpu_process_tx_eq split: prod.splits)
  show "((\<lambda>k. answers (Suc k), w'), answers, w) \<in>
      measure (\<lambda>(answers, w). queue_budget (w_max_tx_attempt w) (w_tx_queue w))"
    using process_tx_budget [OF p queue] process_tx_fields(1) [OF p] by simp
qed simp

declare tpu_try_process_tx_in_queue.simps [simp del]

lemma tpu_try_process_eq:
  "tpu_try_process_tx_in_queue answers w =
     (case try_process_tx_in_queue answers w of (w', out, err) \<Rightarrow> (w', map tpu_response_of out, err))"
proof (induction answers w rule: try_process_tx_in_queue.induct)
  case (1 answers w)
  note unfold = tpu_try_process_tx_in_queue.simps [of answers w] try_process_tx_in_queue.simps [of answers w]
  show ?case
  proof (cases "w_tx_queue w")
    case (Cons e rest)
    obtain tx attempt where e: "e = (tx, attempt)" by fastforce
    obtain w1 out1 err1 where p: "process_tx (answers 0) tx attempt (w\<lparr>w_tx_queue := rest\<rparr>) = (w1, out1, err1)"
      by (metis prod_cases3)
    show ?thesis
    proof (cases err1)
      case None
      then show ?thesis
        using "1.IH" [OF Cons e [symmetric] p [symmetric] refl None]
        by (simp add: unfold Cons e tpu_process_tx_eq p split: prod.split)
    qed (simp add: unfold Cons e tpu_process_tx_eq p)
  qed (simp add: unfold)
qed

text \<open>
  A worker task: its connection, the worker, the instant of the last activity and the deadline of the burst timer; or the
  value \<open>run\<close> has returned. One iteration of the loop drains the queue and then one branch of the \<open>select!\<close> resolves, at
  the instant \<open>now\<close>: a branch that cannot resolve yet leaves the worker waiting.
\<close>

definition max_idle_duration :: duration where
  "max_idle_duration = 10 * 1000000000"

datatype tpu_worker_task =
    TpuRunning nat worker instant instant
  | TpuFinished tx_sender_worker_completed

datatype tpu_worker_select = TpuSelRecv | TpuSelBurst | TpuSelClosed connection_error | TpuSelCancel

text \<open>\<open>run\<close> sets both timers when it starts.\<close>

definition tpu_worker_start :: "nat \<Rightarrow> worker \<Rightarrow> instant \<Rightarrow> tpu_worker_task" where
  "tpu_worker_start conn w now = TpuRunning conn w now (now + max_idle_duration)"

definition tpu_worker_iteration ::
  "(nat \<Rightarrow> uni_outcome) \<Rightarrow> tpu_worker_select \<Rightarrow> instant \<Rightarrow> nat \<Rightarrow> worker \<Rightarrow> instant \<Rightarrow> instant
     \<Rightarrow> tpu_worker_task \<times> tpu_sender_response list" where
  "tpu_worker_iteration answers sel now conn w last_activity burst_timer =
     (case tpu_try_process_tx_in_queue answers w of
        (w1, out, Some e) \<Rightarrow> (TpuFinished (completed w1 (Some e) False), out)
      | (w1, out, None) \<Rightarrow>
          ((case sel of
              TpuSelRecv \<Rightarrow>
                (case w_incoming w1 of
                   tx # rest \<Rightarrow>
                     TpuRunning conn (w1\<lparr>w_incoming := rest, w_tx_queue := w_tx_queue w1 @ [(tx, 1)]\<rparr>) now burst_timer
                 | [] \<Rightarrow> if w_senders_open w1 then TpuRunning conn w1 last_activity burst_timer
                         else TpuFinished (completed w1 None False))
            | TpuSelBurst \<Rightarrow>
                (if now < burst_timer then TpuRunning conn w1 last_activity burst_timer
                 else if now - last_activity \<ge> max_idle_duration then TpuFinished (completed w1 None False)
                 else TpuRunning conn w1 last_activity (last_activity + max_idle_duration))
            | TpuSelClosed e \<Rightarrow> TpuFinished (completed w1 (Some (ConnectionLost e)) False)
            | TpuSelCancel \<Rightarrow>
                (if w_cancel w1 then TpuFinished (completed w1 None True)
                 else TpuRunning conn w1 last_activity burst_timer)), out))"

section \<open>Nothing is lost in a worker\<close>

fun tpu_response_sigs :: "tpu_sender_response \<Rightarrow> signature multiset" where
  "tpu_response_sigs (TpuTxSent r) = {#ts_tx_sig r#}"
| "tpu_response_sigs (TpuTxFailed r) = {#tf_tx_sig r#}"
| "tpu_response_sigs (TpuTxDrop d) = queue_sigs (xd_dropped_tx_vec d)"

definition tpu_responses_sigs :: "tpu_sender_response list \<Rightarrow> signature multiset" where
  "tpu_responses_sigs rs = (\<Sum>r\<leftarrow>rs. tpu_response_sigs r)"

fun tpu_task_sigs :: "tpu_worker_task \<Rightarrow> signature multiset" where
  "tpu_task_sigs (TpuRunning conn w last_activity burst_timer) = incoming_sigs (w_incoming w) + queue_sigs (w_tx_queue w)"
| "tpu_task_sigs (TpuFinished c) = incoming_sigs (wc_rx c) + queue_sigs (wc_pending_tx c)"

lemma tpu_responses_sigs_simps [simp]:
  "tpu_responses_sigs [] = {#}"
  "tpu_responses_sigs (r # rs) = tpu_response_sigs r + tpu_responses_sigs rs"
  "tpu_responses_sigs (rs @ rs') = tpu_responses_sigs rs + tpu_responses_sigs rs'"
  by (simp_all add: tpu_responses_sigs_def)

lemma tpu_response_of_sigs [simp]: "tpu_responses_sigs (map tpu_response_of rs) = responses_sigs rs"
proof (induction rs)
  case (Cons r rs)
  then show ?case by (cases r) simp_all
qed simp

lemma tpu_worker_iteration_sigs:
  assumes "tpu_worker_iteration answers sel now conn w last_activity burst_timer = (t, out)"
  shows "incoming_sigs (w_incoming w) + queue_sigs (w_tx_queue w) = tpu_task_sigs t + tpu_responses_sigs out"
proof -
  obtain w1 out1 err where p: "try_process_tx_in_queue answers w = (w1, out1, err)" by (metis prod_cases3)
  then have "tpu_try_process_tx_in_queue answers w = (w1, map tpu_response_of out1, err)" by (simp add: tpu_try_process_eq)
  then show ?thesis
    using assms try_process_sigs [OF p] try_process_fields [OF p]
    by (cases err; cases sel)
       (auto simp: tpu_worker_iteration_def completed_def split: list.splits if_splits)
qed

text \<open>
  A worker ends for idleness only when it has received no transaction for ten seconds, and then it holds none in its
  queue; what still waits in its channel is handed over.
\<close>

lemma idle_exit_only_after_idle:
  assumes "tpu_worker_iteration answers TpuSelBurst now conn w last_activity burst_timer = (TpuFinished c, out)"
    and "wc_err c = None"
  shows "last_activity + max_idle_duration \<le> now" and "wc_pending_tx c = []" and "wc_rx c = w_incoming w"
proof -
  obtain w1 out1 err where p: "try_process_tx_in_queue answers w = (w1, out1, err)" by (metis prod_cases3)
  then have tp: "tpu_try_process_tx_in_queue answers w = (w1, map tpu_response_of out1, err)" by (simp add: tpu_try_process_eq)
  have "err = None" using assms tp by (cases err) (auto simp: tpu_worker_iteration_def completed_def)
  have drained: "err = None \<Longrightarrow> w_tx_queue w1 = []"
    using p
  proof (induction answers w arbitrary: out1 rule: try_process_tx_in_queue.induct)
    case (1 answers w)
    show ?case
    proof (cases "w_tx_queue w")
      case (Cons e rest)
      obtain tx attempt where e: "e = (tx, attempt)" by fastforce
      obtain w2 out2 err2 where q: "process_tx (answers 0) tx attempt (w\<lparr>w_tx_queue := rest\<rparr>) = (w2, out2, err2)"
        by (metis prod_cases3)
      have "err2 = None" using "1.prems" by (cases err2) (simp_all add: try_process_tx_in_queue.simps [of answers w] Cons e q)
      then obtain out3 where "try_process_tx_in_queue (\<lambda>k. answers (Suc k)) w2 = (w1, out3, err)"
        using "1.prems"(2) by (auto simp: try_process_tx_in_queue.simps [of answers w] Cons e q split: prod.splits)
      then show ?thesis using "1.IH" [OF Cons e [symmetric] q [symmetric] refl \<open>err2 = None\<close> "1.prems"(1)] by blast
    qed (use "1.prems" in \<open>simp add: try_process_tx_in_queue.simps [of answers w]\<close>)
  qed
  have "max_idle_duration \<noteq> 0" by (simp add: max_idle_duration_def)
  then show "last_activity + max_idle_duration \<le> now" and "wc_pending_tx c = []" and "wc_rx c = w_incoming w"
    using assms tp \<open>err = None\<close> drained try_process_fields [OF p]
    by (auto simp: tpu_worker_iteration_def completed_def split: if_splits)
qed

text \<open>The limit depends on the first byte alone; the empty wire is short enough for either kind.\<close>

lemma transaction_size_rule:
  "transaction_data_size_is_valid wire \<longleftrightarrow> length wire \<le> 1232 \<or> (length wire \<le> 4096 \<and> hd wire = 0x81)"
  by (cases wire) (auto simp: transaction_data_size_is_valid_def transaction_data_size_limit_def tpu_packet_data_size_def
      v1_transaction_data_size_def)

end
