(* ===== verification/Tpu_Driver.thy ===== *)
theory Tpu_Driver
  imports Tpu_Sets Tpu_Eviction Tpu_Worker Jet_Watcher
begin

text \<open>
  \<open>crates/tpu-client/src/core.rs\<close>: \<open>TpuSenderDriver\<close>, the task of the client library that owns the connections. It
  connects lazily, shares one connection among the peers that listen on the same address, runs one worker per peer,
  queues transactions while a connection is made, closes connections when there are too many and when they have been
  unused for their time to live, and reconnects under a new identity.

  The record \<open>tpu_driver\<close> has the fields of the driver. A \<open>JoinSet\<close> is the map of its running tasks; task ids are drawn
  from \<open>d_next_task_id\<close>, so they are unique as tokio's are. A connecting task carries whether it still waits for an
  eviction; the \<open>Notify\<close> it waits on is its id in \<open>d_blocked\<close>, and it cannot end before it is notified. The task that
  drops the workers of an old identity is a \<open>tpu_tasklet\<close>. The callback is the list of the responses it was called with,
  if there is one. What the driver asks of the address watcher is logged, and so are the connections it closes. Time,
  stakes, predicted leaders and addresses come with each event as the record \<open>tpu_env\<close>; the eviction strategy is the
  argument \<open>plan\<close>. Certificates and the QUIC handshake are outside: a connecting task ends with a connection or an
  error. \<open>d_unreported\<close> is not a field of the code: it collects the transactions that leave the driver without a response.
\<close>

section \<open>Configuration\<close>

record tpu_config =
  tc_endpoint_port_range :: "nat \<times> nat"
  tc_max_idle_timeout :: duration
  tc_max_connection_attempts :: nat
  tc_worker_channel_capacity :: nat
  tc_connecting_timeout :: duration
  tc_tpu_port :: config_quic_tpu_port
  tc_max_concurrent_connection :: nat
  tc_max_local_port_binding_attempts :: nat
  tc_num_endpoints :: nat
  tc_max_send_attempt :: nat
  tc_remote_peer_addr_watch_interval :: duration
  tc_send_timeout :: duration
  tc_leader_prediction_lookahead :: "nat option"
  tc_send_fanout_slots :: nat
  tc_tpu_info_override :: "tpu_override_info list"
  tc_orphan_connection_ttl :: duration
  tc_unsafe_allow_arbitrary_txn_size :: bool

text \<open>The range of ports is a constant of \<open>solana_net_utils\<close>.\<close>

definition tpu_config_default :: "nat \<times> nat \<Rightarrow> tpu_config" where
  "tpu_config_default validator_port_range =
     \<lparr>tc_endpoint_port_range = validator_port_range, tc_max_idle_timeout = 10 * 1000000000,
      tc_max_connection_attempts = 3, tc_worker_channel_capacity = 10000, tc_connecting_timeout = 4 * 1000000000,
      tc_tpu_port = Forwards, tc_max_concurrent_connection = 1024, tc_max_local_port_binding_attempts = 3,
      tc_num_endpoints = 5, tc_max_send_attempt = 3, tc_remote_peer_addr_watch_interval = 5 * 1000000000,
      tc_send_timeout = 2 * 1000000000, tc_leader_prediction_lookahead = Some 4, tc_send_fanout_slots = 12,
      tc_tpu_info_override = [], tc_orphan_connection_ttl = 10 * 1000000000,
      tc_unsafe_allow_arbitrary_txn_size = False\<rparr>"

definition leader_prediction_refresh_interval :: duration where
  "leader_prediction_refresh_interval = 600 * 1000000"

definition tpu_forever :: duration where
  "tpu_forever = 31536000 * 1000000000"

section \<open>State\<close>

type_synonym task_id = nat
type_synonym endpoint = nat

datatype tpu_connect_error = TpuEndpointStopping | TpuOtherConnectError string

datatype tpu_connecting_error =
    TpuConnectError tpu_connect_error
  | TpuConnectionError connection_error
  | TpuClientConfig string

record tpu_connecting_meta =
  tm_current_client_identity :: pubkey
  tm_multiplexed_peers :: "pubkey list"
  tm_remote_peer_address :: socket_addr
  tm_connection_attempt :: nat

record tpu_worker_handle =
  th_remote_peer_addr :: socket_addr
  th_connection_version :: u64
  th_task :: task_id

datatype driver_command = DriverUpdateIdentity pubkey | DriverMultiStepIdentitySynchronization pubkey

record tpu_tasklet =
  tk_worker_meta :: "(task_id, pubkey) hmap"
  tk_worker_set :: "(task_id, tpu_worker_task) hmap"
  tk_tx_queues :: "(pubkey, tx_queue) hmap"

record tpu_driver =
  d_config :: tpu_config
  d_worker_handles :: "(pubkey, tpu_worker_handle) hmap"
  d_active_peers :: "pubkey staked_sorted_set"
  d_worker_meta :: "(task_id, pubkey) hmap"
  d_worker_set :: "(task_id, tpu_worker_task) hmap"
  d_tx_queues :: "(pubkey, tx_queue) hmap"
  d_endpoints :: "endpoint list"
  d_connecting_tasks :: "(task_id, bool) hmap"
  d_connecting_meta :: "(task_id, tpu_connecting_meta) hmap"
  d_connecting_peers :: "(pubkey, task_id) hmap"
  d_connecting_addrs :: "(socket_addr, task_id) hmap"
  d_identity :: pubkey
  d_response_outlet :: "tpu_sender_response list option"
  d_tasklet :: "(task_id, tpu_tasklet) hmap"
  d_tasklet_meta :: "task_id list"
  d_last_peer_activity :: "(pubkey, instant) hmap"
  d_being_evicted :: "pubkey set"
  d_blocked :: "(socket_addr \<times> task_id) list"
  d_watcher_out :: "watcher_command list"
  d_prediction_deadline :: instant
  d_connection_map :: connection_map
  d_connection_version :: u64
  d_endpoint_sequence :: nat
  d_pending_eviction :: connection_eviction_set
  d_active_addrs :: "socket_addr staked_sorted_set"
  d_orphans :: orphan_connection_set
  d_sleep_timer :: "instant option"
  d_next_task_id :: task_id
  d_closed :: "quinn_connection list"
  d_unreported :: tx_queue

record tpu_env =
  te_now :: instant
  te_stake :: "pubkey \<Rightarrow> u64 option"
  te_predict :: "nat \<Rightarrow> pubkey list"
  te_service :: tpu_info_service

type_synonym tpu_eviction_plan =
  "instant \<Rightarrow> pubkey staked_sorted_set \<Rightarrow> (pubkey, instant) hmap \<Rightarrow> pubkey set \<Rightarrow> nat
     \<Rightarrow> connection_map \<Rightarrow> socket_addr staked_sorted_set \<Rightarrow> pubkey list"

definition stake_based_plan :: "duration \<Rightarrow> tpu_eviction_plan" where
  "stake_based_plan grace now ss usage already_evicting n conns addrs =
     plan_eviction_with_addr_map grace now usage already_evicting n conns addrs"

text \<open>
  \<open>spawn_on\<close>: the endpoints are bound first, each with a number of attempts; \<open>bind i j\<close> is what attempt \<open>j\<close> for endpoint \<open>i\<close>
  gives. Outside integration tests the unsafe flag of the configuration is reset.
\<close>

fun bind_endpoints :: "(nat \<Rightarrow> nat \<Rightarrow> endpoint option) \<Rightarrow> nat \<Rightarrow> nat list \<Rightarrow> endpoint list res" where
  "bind_endpoints bind attempts [] = Inr []"
| "bind_endpoints bind attempts (i # is) =
     res_bind (expect ''Failed to create QUIC endpoint''
                (case List.map_filter (bind i) [0..<attempts] of [] \<Rightarrow> None | e # _ \<Rightarrow> Some e)) (\<lambda>e.
     res_bind (bind_endpoints bind attempts is) (\<lambda>es. Inr (e # es)))"

definition tpu_spawn_on ::
  "(nat \<Rightarrow> nat \<Rightarrow> endpoint option) \<Rightarrow> tpu_config \<Rightarrow> pubkey \<Rightarrow> bool \<Rightarrow> instant \<Rightarrow> tpu_driver res" where
  "tpu_spawn_on bind c me has_callback now =
     (let c = (if tc_unsafe_allow_arbitrary_txn_size c then c\<lparr>tc_unsafe_allow_arbitrary_txn_size := False\<rparr> else c)
      in res_bind (bind_endpoints bind (tc_max_local_port_binding_attempts c) [0..<tc_num_endpoints c]) (\<lambda>endpoints.
           Inr \<lparr>d_config = c, d_worker_handles = [], d_active_peers = peers_default, d_worker_meta = [],
                d_worker_set = [], d_tx_queues = [], d_endpoints = endpoints, d_connecting_tasks = [],
                d_connecting_meta = [], d_connecting_peers = [], d_connecting_addrs = [], d_identity = me,
                d_response_outlet = (if has_callback then Some [] else None), d_tasklet = [], d_tasklet_meta = [],
                d_last_peer_activity = [], d_being_evicted = {}, d_blocked = [], d_watcher_out = [],
                d_prediction_deadline = now, d_connection_map = [], d_connection_version = 0,
                d_endpoint_sequence = 0, d_pending_eviction = evictions_default, d_active_addrs = peers_default,
                d_orphans = orphan_default, d_sleep_timer = None, d_next_task_id = 0, d_closed = [],
                d_unreported = []\<rparr>))"

section \<open>Dropping and queueing\<close>

definition callback_call :: "tpu_sender_response \<Rightarrow> tpu_driver \<Rightarrow> tpu_driver" where
  "callback_call r s = s\<lparr>d_response_outlet := map_option (\<lambda>rs. rs @ [r]) (d_response_outlet s)\<rparr>"

definition tpu_drop_peer_queued_tx :: "pubkey \<Rightarrow> tpu_drop_reason \<Rightarrow> tpu_driver \<Rightarrow> tpu_driver" where
  "tpu_drop_peer_queued_tx peer reason s =
     (case hm_get (d_tx_queues s) peer of
        Some q \<Rightarrow> callback_call
          (TpuTxDrop \<lparr>xd_remote_peer_identity = peer, xd_drop_reason = reason, xd_dropped_tx_vec = q\<rparr>)
          (s\<lparr>d_tx_queues := hm_remove peer (d_tx_queues s)\<rparr>)
      | None \<Rightarrow> s)"

definition tpu_drop_single_tx :: "pubkey \<Rightarrow> tpu_sender_txn \<Rightarrow> nat \<Rightarrow> tpu_drop_reason \<Rightarrow> tpu_driver \<Rightarrow> tpu_driver" where
  "tpu_drop_single_tx peer tx attempt reason s =
     callback_call (TpuTxDrop \<lparr>xd_remote_peer_identity = peer, xd_drop_reason = reason,
                               xd_dropped_tx_vec = [(tx, attempt)]\<rparr>) s"

abbreviation queue_of :: "(pubkey, tx_queue) hmap \<Rightarrow> pubkey \<Rightarrow> tx_queue" where
  "queue_of qs peer \<equiv> (case hm_get qs peer of None \<Rightarrow> [] | Some q \<Rightarrow> q)"

definition queue_tx_or_drop :: "pubkey \<Rightarrow> tpu_sender_txn \<Rightarrow> nat \<Rightarrow> tpu_driver \<Rightarrow> bool \<times> tpu_driver" where
  "queue_tx_or_drop peer tx attempt s =
     (if length (queue_of (d_tx_queues s) peer) \<ge> tc_worker_channel_capacity (d_config s)
      then (False, tpu_drop_single_tx peer tx attempt TpuRateLimited s)
      else (True, s\<lparr>d_tx_queues := hm_insert peer (queue_of (d_tx_queues s) peer @ [(tx, attempt)]) (d_tx_queues s)\<rparr>))"

definition tpu_unreachable_peer :: "pubkey \<Rightarrow> tpu_driver \<Rightarrow> tpu_driver" where
  "tpu_unreachable_peer peer s = tpu_drop_peer_queued_tx peer TpuRemotePeerUnreachable s"

definition tpu_has_connection_capacity :: "tpu_driver \<Rightarrow> bool" where
  "tpu_has_connection_capacity s \<longleftrightarrow> length (d_connection_map s) < tc_max_concurrent_connection (d_config s)"

section \<open>Workers\<close>

text \<open>\<open>mpsc::channel\<close> panics when asked for a channel without room.\<close>

definition tpu_install_worker :: "tpu_env \<Rightarrow> pubkey \<Rightarrow> socket_addr \<Rightarrow> tpu_driver \<Rightarrow> tpu_driver res" where
  "tpu_install_worker env peer addr s =
     (if hm_contains (d_worker_handles s) peer then Inr s
      else if tc_worker_channel_capacity (d_config s) = 0
      then Inl (Panic ''mpsc bounded channel requires buffer > 0'')
      else (case hm_get (d_connection_map s) addr of
        None \<Rightarrow> Inr (tpu_unreachable_peer peer s)
      | Some c \<Rightarrow>
          (let tid = d_next_task_id s; version = ac_connection_version c;
               w = \<lparr>w_remote_peer = peer, w_remote_addr = addr, w_incoming = [], w_senders_open = True,
                    w_tx_queue = queue_of (d_tx_queues s) peer, w_cancel = False,
                    w_max_tx_attempt = tc_max_send_attempt (d_config s)\<rparr>;
               stake = (case te_stake env peer of None \<Rightarrow> 0 | Some x \<Rightarrow> x);
               peers = hm_insert peer stake (ac_multiplexed c)
           in Inr (s\<lparr>d_tx_queues := hm_remove peer (d_tx_queues s),
                     d_worker_set := hm_insert tid (tpu_worker_start (ac_conn c) w (te_now env)) (d_worker_set s),
                     d_worker_handles := hm_insert peer
                       \<lparr>th_remote_peer_addr = addr, th_connection_version = version, th_task = tid\<rparr> (d_worker_handles s),
                     d_worker_meta := hm_insert tid peer (d_worker_meta s),
                     d_connection_map := hm_insert addr (c\<lparr>ac_multiplexed := peers\<rparr>) (d_connection_map s),
                     d_active_addrs := snd (peers_insert addr (total_stake peers) (d_active_addrs s)),
                     d_active_peers := snd (peers_insert peer stake (d_active_peers s)),
                     d_watcher_out := d_watcher_out s @ [RegisterWatch peer addr],
                     d_orphans := snd (orphan_remove addr version (d_orphans s)),
                     d_next_task_id := Suc tid\<rparr>))))"

section \<open>Connecting\<close>

definition next_endpoint_idx :: "tpu_driver \<Rightarrow> (nat \<times> tpu_driver) res" where
  "next_endpoint_idx s =
     (if d_endpoints s = [] then Inl (Panic ''attempt to calculate the remainder with a divisor of zero'')
      else Inr (d_endpoint_sequence s, s\<lparr>d_endpoint_sequence := (d_endpoint_sequence s + 1) mod length (d_endpoints s)\<rparr>))"

text \<open>The part of \<open>spawn_connecting\<close> that starts a task of its own: with no capacity left it waits for an eviction.\<close>

definition spawn_connecting_task :: "pubkey \<Rightarrow> socket_addr \<Rightarrow> nat \<Rightarrow> tpu_driver \<Rightarrow> tpu_driver res" where
  "spawn_connecting_task peer addr attempt s =
     (let tid = d_next_task_id s; waits = \<not> tpu_has_connection_capacity s;
          s1 = (if waits then s\<lparr>d_blocked := d_blocked s @ [(addr, tid)]\<rparr> else s)
      in res_bind (next_endpoint_idx s1) (\<lambda>(idx, s2).
           if idx \<ge> length (d_endpoints s2) then Inl (Panic ''index out of bounds'')
           else Inr (s2\<lparr>d_connecting_tasks := hm_insert tid waits (d_connecting_tasks s2),
                        d_connecting_peers := hm_insert peer tid (d_connecting_peers s2),
                        d_connecting_meta := hm_insert tid
                          \<lparr>tm_current_client_identity = d_identity s2, tm_multiplexed_peers = [peer],
                           tm_remote_peer_address = addr, tm_connection_attempt = attempt\<rparr> (d_connecting_meta s2),
                        d_connecting_addrs := hm_insert addr tid (d_connecting_addrs s2),
                        d_next_task_id := Suc tid\<rparr>)))"

text \<open>
  When the metadata of the address's task is missing, the code forgets the task and calls itself; the second call
  passes the same checks and ends in the last branch.
\<close>

definition tpu_spawn_connecting :: "tpu_env \<Rightarrow> pubkey \<Rightarrow> nat \<Rightarrow> tpu_driver \<Rightarrow> tpu_driver res" where
  "tpu_spawn_connecting env peer attempt s =
     (if hm_contains (d_connecting_peers s) peer then Inr s
      else if peer \<in> d_being_evicted s then Inr s
      else if hm_contains (d_worker_handles s) peer then Inr s
      else (case get_quic_dest_addr (te_service env) peer (tc_tpu_port (d_config s)) of
        None \<Rightarrow> Inr (tpu_unreachable_peer peer s)
      | Some addr \<Rightarrow>
          (if evictions_contains_addr addr (d_pending_eviction s) then Inr s
           else if hm_contains (d_connection_map s) addr then tpu_install_worker env peer addr s
           else (case hm_get (d_connecting_addrs s) addr of
                   Some tid \<Rightarrow>
                     (case hm_get (d_connecting_meta s) tid of
                        None \<Rightarrow> spawn_connecting_task peer addr attempt
                                  (s\<lparr>d_connecting_addrs := hm_remove addr (d_connecting_addrs s)\<rparr>)
                      | Some m \<Rightarrow>
                          Inr (s\<lparr>d_connecting_meta := hm_insert tid
                                   (m\<lparr>tm_multiplexed_peers := tm_multiplexed_peers m @ [peer]\<rparr>) (d_connecting_meta s),
                                 d_connecting_peers := hm_insert peer tid (d_connecting_peers s)\<rparr>))
                 | None \<Rightarrow> spawn_connecting_task peer addr attempt s))))"

text \<open>A loop whose body may panic.\<close>

fun res_fold :: "('a \<Rightarrow> 's \<Rightarrow> 's res) \<Rightarrow> 'a list \<Rightarrow> 's \<Rightarrow> 's res" where
  "res_fold f [] s = Inr s"
| "res_fold f (x # xs) s = res_bind (f x s) (res_fold f xs)"

definition connecting_forget :: "task_id \<Rightarrow> tpu_connecting_meta \<Rightarrow> tpu_driver \<Rightarrow> tpu_driver" where
  "connecting_forget tid m s =
     s\<lparr>d_connecting_meta := hm_remove tid (d_connecting_meta s),
       d_connecting_peers := fold hm_remove (tm_multiplexed_peers m) (d_connecting_peers s),
       d_connecting_addrs := hm_remove (tm_remote_peer_address m) (d_connecting_addrs s)\<rparr>"

definition tpu_reattempt :: "tpu_env \<Rightarrow> tpu_connecting_meta \<Rightarrow> pubkey \<Rightarrow> tpu_driver \<Rightarrow> tpu_driver res" where
  "tpu_reattempt env m peer s =
     (case get_quic_dest_addr (te_service env) peer (tc_tpu_port (d_config s)) of
        None \<Rightarrow> Inr (tpu_unreachable_peer peer s)
      | Some addr \<Rightarrow>
          tpu_spawn_connecting env peer
            (if addr \<noteq> tm_remote_peer_address m then 1 else tm_connection_attempt m + 1) s)"

definition next_connection_version :: "tpu_driver \<Rightarrow> u64 \<times> tpu_driver" where
  "next_connection_version s = (d_connection_version s, s\<lparr>d_connection_version := d_connection_version s + 1\<rparr>)"

definition tpu_handle_connecting_ok ::
  "tpu_env \<Rightarrow> task_id \<Rightarrow> tpu_connecting_error + quinn_connection \<Rightarrow> tpu_driver \<Rightarrow> tpu_driver res" where
  "tpu_handle_connecting_ok env tid result s =
     (case hm_get (d_connecting_meta s) tid of
        None \<Rightarrow> Inr s
      | Some m \<Rightarrow>
          (let s1 = connecting_forget tid m s; peers = tm_multiplexed_peers m; addr = tm_remote_peer_address m
           in if d_identity s1 \<noteq> tm_current_client_identity m
              then res_fold (\<lambda>peer. tpu_spawn_connecting env peer (tm_connection_attempt m)) peers s1
              else (case result of
                Inr conn \<Rightarrow>
                  (let (version, s2) = next_connection_version s1
                   in res_fold (\<lambda>peer. tpu_install_worker env peer addr) peers
                        (s2\<lparr>d_connection_map := hm_insert addr
                             \<lparr>ac_remote_peer_addr = addr, ac_conn = conn, ac_connection_version = version,
                              ac_multiplexed = []\<rparr> (d_connection_map s2)\<rparr>))
              | Inl (TpuConnectError TpuEndpointStopping) \<Rightarrow> Inr (fold tpu_unreachable_peer peers s1)
              | Inl (TpuConnectionError e) \<Rightarrow>
                  (if tm_connection_attempt m < tc_max_connection_attempts (d_config s1)
                   then res_fold (tpu_reattempt env m) peers s1
                   else Inr (fold tpu_unreachable_peer peers s1))
              | Inl _ \<Rightarrow> Inr (fold tpu_unreachable_peer peers s1))))"

definition tpu_handle_connecting_join_err :: "task_id \<Rightarrow> tpu_driver \<Rightarrow> tpu_driver" where
  "tpu_handle_connecting_join_err tid s =
     (case hm_get (d_connecting_meta s) tid of
        None \<Rightarrow> s
      | Some m \<Rightarrow> fold (\<lambda>peer. tpu_drop_peer_queued_tx peer TpuRemotePeerUnreachable) (tm_multiplexed_peers m)
                    (connecting_forget tid m s))"

section \<open>Eviction\<close>

fun tpu_cancel_task :: "tpu_worker_task \<Rightarrow> tpu_worker_task" where
  "tpu_cancel_task (TpuRunning conn w last_activity burst_timer) =
     TpuRunning conn (w\<lparr>w_cancel := True\<rparr>) last_activity burst_timer"
| "tpu_cancel_task (TpuFinished c) = TpuFinished c"

definition tpu_notify_cancel :: "task_id \<Rightarrow> tpu_driver \<Rightarrow> tpu_driver" where
  "tpu_notify_cancel tid s =
     (case hm_get (d_worker_set s) tid of
        None \<Rightarrow> s
      | Some t \<Rightarrow> s\<lparr>d_worker_set := hm_insert tid (tpu_cancel_task t) (d_worker_set s)\<rparr>)"

text \<open>
  One peer of the plan: it and all the peers that share its connection are marked, and their workers are to be
  cancelled after the loop.
\<close>

definition tpu_evict_peer :: "pubkey \<Rightarrow> tpu_driver \<times> task_id list \<Rightarrow> tpu_driver \<times> task_id list" where
  "tpu_evict_peer peer sc =
     (let (s, cancels) = sc
      in case hm_get (d_worker_handles s) peer of
           None \<Rightarrow> (s, cancels)
         | Some handle \<Rightarrow>
             (let s1 = s\<lparr>d_being_evicted := insert peer (d_being_evicted s)\<rparr>; cancels1 = cancels @ [th_task handle]
              in case hm_get (d_connection_map s1) (th_remote_peer_addr handle) of
                   None \<Rightarrow> (s1, cancels1)
                 | Some c \<Rightarrow>
                     (if ac_connection_version c \<noteq> th_connection_version handle then (s1, cancels1)
                      else (s1\<lparr>d_pending_eviction := snd (evictions_insert
                                 \<lparr>ce_remote_peer_addr = ac_remote_peer_addr c,
                                  ce_connection_version = ac_connection_version c\<rparr> (d_pending_eviction s1)),
                               d_being_evicted := d_being_evicted s1 \<union> set (hm_keys (ac_multiplexed c))\<rparr>,
                            cancels1 @ List.map_filter (\<lambda>p. map_option th_task (hm_get (d_worker_handles s1) p))
                              (hm_keys (ac_multiplexed c))))))"

text \<open>\<open>min_by_key\<close> returns the first of the connections with the least stake.\<close>

definition min_staked_connection :: "connection_map \<Rightarrow> active_connection option" where
  "min_staked_connection conns =
     find (\<lambda>c. \<forall>c' \<in> set (hm_values conns). total_stake (ac_multiplexed c) \<le> total_stake (ac_multiplexed c')) (hm_values conns)"

definition tpu_do_eviction_if_required :: "tpu_eviction_plan \<Rightarrow> instant \<Rightarrow> tpu_driver \<Rightarrow> tpu_driver" where
  "tpu_do_eviction_if_required plan now s =
     (let eviction_count_required = length (d_blocked s) - evictions_len (d_pending_eviction s)
      in if eviction_count_required = 0 then s
         else
           (let eviction_plan = plan now (d_active_peers s) (d_last_peer_activity s) (d_being_evicted s)
                  eviction_count_required (d_connection_map s) (d_active_addrs s);
                eviction_plan =
                  (if eviction_plan = [] \<and> evictions_is_empty (d_pending_eviction s)
                   then (case min_staked_connection (d_connection_map s) of
                           None \<Rightarrow> [] | Some c \<Rightarrow> hm_keys (ac_multiplexed c))
                   else eviction_plan);
                (s1, cancels) = fold tpu_evict_peer eviction_plan (s, [])
            in fold tpu_notify_cancel cancels s1))"

section \<open>Transactions\<close>

datatype tpu_try_send = TpuSendOk tpu_worker_task | TpuSendFull | TpuSendClosed

fun tpu_try_send_to :: "nat \<Rightarrow> tpu_sender_txn \<Rightarrow> tpu_worker_task option \<Rightarrow> tpu_try_send" where
  "tpu_try_send_to capacity tx None = TpuSendClosed"
| "tpu_try_send_to capacity tx (Some (TpuRunning conn w last_activity burst_timer)) =
     (if length (w_incoming w) < capacity
      then TpuSendOk (TpuRunning conn (w\<lparr>w_incoming := w_incoming w @ [tx]\<rparr>) last_activity burst_timer) else TpuSendFull)"
| "tpu_try_send_to capacity tx (Some (TpuFinished c)) =
     (if length (wc_rx c) < capacity then TpuSendOk (TpuFinished (c\<lparr>wc_rx := wc_rx c @ [tx]\<rparr>)) else TpuSendFull)"

definition tpu_accept_tx :: "tpu_env \<Rightarrow> tpu_sender_txn \<Rightarrow> tpu_driver \<Rightarrow> tpu_driver res" where
  "tpu_accept_tx env tx s =
     (let peer = gt_remote_peer tx;
          s1 = s\<lparr>d_last_peer_activity := hm_insert peer (te_now env) (d_last_peer_activity s)\<rparr>
      in if \<not> transaction_data_size_is_valid (gt_wire tx) \<and> \<not> tc_unsafe_allow_arbitrary_txn_size (d_config s1)
         then Inr (tpu_drop_single_tx peer tx 1 InvalidPacketSize s1)
         else (case hm_get (d_worker_handles s1) peer of
           Some handle \<Rightarrow>
             (case tpu_try_send_to (tc_worker_channel_capacity (d_config s1)) tx (hm_get (d_worker_set s1) (th_task handle)) of
                TpuSendOk t \<Rightarrow> Inr (s1\<lparr>d_worker_set := hm_insert (th_task handle) t (d_worker_set s1)\<rparr>)
              | TpuSendFull \<Rightarrow> Inr (tpu_drop_single_tx peer tx 1 TpuRateLimited s1)
              | TpuSendClosed \<Rightarrow> Inr (snd (queue_tx_or_drop peer tx 1 s1)))
         | None \<Rightarrow>
             (let (queued, s2) = queue_tx_or_drop peer tx 1 s1
              in if queued then tpu_spawn_connecting env peer 1 s2 else Inr s2)))"

section \<open>The end of a worker\<close>

definition tpu_notify_task :: "task_id \<Rightarrow> tpu_driver \<Rightarrow> tpu_driver" where
  "tpu_notify_task tid s =
     (if hm_contains (d_connecting_tasks s) tid
      then s\<lparr>d_connecting_tasks := hm_insert tid False (d_connecting_tasks s)\<rparr> else s)"

definition tpu_unblock_eviction_waiting_connection :: "tpu_driver \<Rightarrow> tpu_driver" where
  "tpu_unblock_eviction_waiting_connection s =
     (case d_blocked s of [] \<Rightarrow> s | (addr, tid) # rest \<Rightarrow> tpu_notify_task tid (s\<lparr>d_blocked := rest\<rparr>))"

definition remove_worker_from_active_connection ::
  "instant \<Rightarrow> socket_addr \<Rightarrow> pubkey \<Rightarrow> u64 \<Rightarrow> tpu_driver \<Rightarrow> tpu_driver" where
  "remove_worker_from_active_connection now addr peer expected_connection_version s =
     (case hm_get (d_connection_map s) addr of
        None \<Rightarrow> s
      | Some c \<Rightarrow>
          (if ac_connection_version c \<noteq> expected_connection_version then s
           else
             (let peers = hm_remove peer (ac_multiplexed c);
                  eviction = \<lparr>ce_remote_peer_addr = addr, ce_connection_version = expected_connection_version\<rparr>;
                  marked = evictions_contains eviction (d_pending_eviction s);
                  s1 = s\<lparr>d_connection_map := hm_insert addr (c\<lparr>ac_multiplexed := peers\<rparr>) (d_connection_map s),
                         d_active_addrs := snd (peers_insert addr (total_stake peers) (d_active_addrs s))\<rparr>
              in if peers \<noteq> [] then s1
                 else if marked then
                   (let s2 = tpu_unblock_eviction_waiting_connection
                         (s1\<lparr>d_connection_map := hm_remove addr (d_connection_map s1),
                             d_pending_eviction := snd (evictions_remove eviction (d_pending_eviction s1))\<rparr>)
                    in s2\<lparr>d_active_addrs := snd (peers_remove addr (d_active_addrs s2))\<rparr>)
                 else s1\<lparr>d_orphans := orphan_insert
                   \<lparr>oi_remote_peer_addr = addr, oi_connection_version = expected_connection_version\<rparr> now (d_orphans s1)\<rparr>)))"

text \<open>The two loops that put the transactions of a finished worker back into the queue of its peer.\<close>

definition requeue_all :: "pubkey \<Rightarrow> tx_queue \<Rightarrow> tpu_driver \<Rightarrow> tpu_driver" where
  "requeue_all peer q s = fold (\<lambda>(tx, attempt) s. snd (queue_tx_or_drop peer tx attempt s)) q s"

abbreviation received_then_pending :: "tx_sender_worker_completed \<Rightarrow> tx_queue" where
  "received_then_pending c \<equiv> map (\<lambda>tx. (tx, 1)) (wc_rx c) @ wc_pending_tx c"

text \<open>What \<open>handle_worker_result\<close> does with the transactions once the worker is gone.\<close>

definition rescue_or_drop :: "tpu_env \<Rightarrow> pubkey \<Rightarrow> bool \<Rightarrow> tx_sender_worker_error option \<Rightarrow> tpu_driver \<Rightarrow> tpu_driver res" where
  "rescue_or_drop env peer is_being_evicted err s =
     (if err = Some (ConnectionLost VersionMismatch) then Inr (tpu_unreachable_peer peer s)
      else if is_being_evicted then Inr (tpu_drop_peer_queued_tx peer TpuRemotePeerBeingEvicted s)
      else if queue_of (d_tx_queues s) peer \<noteq> []
      then tpu_spawn_connecting env peer 1
             (s\<lparr>d_last_peer_activity := hm_insert peer (te_now env) (d_last_peer_activity s)\<rparr>)
      else Inr s)"

definition tpu_handle_worker_completed ::
  "tpu_env \<Rightarrow> task_id \<Rightarrow> tx_sender_worker_completed \<Rightarrow> tpu_driver \<Rightarrow> tpu_driver res" where
  "tpu_handle_worker_completed env tid c s =
     (case hm_get (d_worker_meta s) tid of
        None \<Rightarrow> Inr (s\<lparr>d_unreported := d_unreported s @ received_then_pending c\<rparr>)
      | Some peer \<Rightarrow>
          (let is_being_evicted = (peer \<in> d_being_evicted s);
               s1 = s\<lparr>d_worker_meta := hm_remove tid (d_worker_meta s),
                      d_active_peers := snd (peers_remove peer (d_active_peers s)),
                      d_watcher_out := d_watcher_out s @ [DeregisterWatch peer],
                      d_being_evicted := d_being_evicted s - {peer}\<rparr>
           in case hm_get (d_worker_handles s1) peer of
                None \<Rightarrow>
                  Inr (tpu_unreachable_peer peer (s1\<lparr>d_tx_queues := hm_insert peer
                    (queue_of (d_tx_queues s1) peer @ received_then_pending c) (d_tx_queues s1)\<rparr>))
              | Some handle \<Rightarrow>
                  (let addr = th_remote_peer_addr handle;
                       s2 = s1\<lparr>d_worker_handles := hm_remove peer (d_worker_handles s1)\<rparr>;
                       s3 = (case hm_get (d_connection_map s2) addr of
                               None \<Rightarrow> s2
                             | Some conn \<Rightarrow>
                                 (if ac_connection_version conn = th_connection_version handle
                                  then remove_worker_from_active_connection (te_now env) addr peer
                                         (th_connection_version handle) s2
                                  else s2));
                       s4 = requeue_all peer (received_then_pending c)
                              (s3\<lparr>d_last_peer_activity := hm_remove peer (d_last_peer_activity s3)\<rparr>)
                   in rescue_or_drop env peer is_being_evicted (wc_err c) s4)))"

definition tpu_handle_worker_join_err :: "task_id \<Rightarrow> tpu_driver \<Rightarrow> tpu_driver" where
  "tpu_handle_worker_join_err tid s =
     (case hm_get (d_worker_meta s) tid of
        None \<Rightarrow> s
      | Some peer \<Rightarrow>
          tpu_unreachable_peer peer
            (s\<lparr>d_worker_meta := hm_remove tid (d_worker_meta s),
               d_worker_handles := hm_remove peer (d_worker_handles s)\<rparr>))"

section \<open>Identity\<close>

fun tpu_drop_sender :: "tpu_worker_task \<Rightarrow> tpu_worker_task" where
  "tpu_drop_sender (TpuRunning conn w last_activity burst_timer) =
     TpuRunning conn (w\<lparr>w_senders_open := False\<rparr>) last_activity burst_timer"
| "tpu_drop_sender (TpuFinished c) = TpuFinished c"

text \<open>The tasklet owns the workers, their metadata and the queues of all peers; its first act is to drop the senders.\<close>

definition tpu_schedule_graceful_drop_all_worker :: "tpu_driver \<Rightarrow> tpu_driver" where
  "tpu_schedule_graceful_drop_all_worker s =
     s\<lparr>d_worker_meta := [], d_worker_handles := [], d_worker_set := [], d_tx_queues := [],
       d_active_peers := staked_clear (d_active_peers s),
       d_tasklet := hm_insert (d_next_task_id s)
         \<lparr>tk_worker_meta = d_worker_meta s,
          tk_worker_set = map (\<lambda>(tid, t). (tid, tpu_drop_sender t)) (d_worker_set s),
          tk_tx_queues = d_tx_queues s\<rparr> (d_tasklet s),
       d_tasklet_meta := List.insert (d_next_task_id s) (d_tasklet_meta s),
       d_next_task_id := Suc (d_next_task_id s)\<rparr>"

text \<open>
  The tasklet joins a worker that has ended: it answers for the peer's queue, what the worker had received and what it had
  not sent. A worker that panicked has lost its own.
\<close>

definition tasklet_join_worker ::
  "task_id \<Rightarrow> task_id \<Rightarrow> tx_sender_worker_completed option \<Rightarrow> tpu_tasklet \<Rightarrow> tpu_driver \<Rightarrow> tpu_driver" where
  "tasklet_join_worker tk tid result t s =
     (let t1 = t\<lparr>tk_worker_set := hm_remove tid (tk_worker_set t)\<rparr>
      in case hm_get (tk_worker_meta t1) tid of
           None \<Rightarrow> s\<lparr>d_tasklet := hm_insert tk t1 (d_tasklet s),
                     d_unreported := d_unreported s @
                       (case result of Some c \<Rightarrow> received_then_pending c | None \<Rightarrow> [])\<rparr>
         | Some peer \<Rightarrow>
             (let inflight_txn = (case result of Some c \<Rightarrow> received_then_pending c | None \<Rightarrow> []);
                  t2 = t1\<lparr>tk_worker_meta := hm_remove tid (tk_worker_meta t1),
                          tk_tx_queues := hm_remove peer (tk_tx_queues t1)\<rparr>
              in callback_call
                   (TpuTxDrop \<lparr>xd_remote_peer_identity = peer, xd_drop_reason = DriverIdentityChanged,
                               xd_dropped_tx_vec = queue_of (tk_tx_queues t1) peer @ inflight_txn\<rparr>)
                   (s\<lparr>d_tasklet := hm_insert tk t2 (d_tasklet s)\<rparr>)))"

text \<open>When no worker is left the tasklet ends, and the queues it still owns are dropped with it.\<close>

definition tpu_handle_tasklet_result :: "task_id \<Rightarrow> tpu_tasklet \<Rightarrow> tpu_driver \<Rightarrow> tpu_driver" where
  "tpu_handle_tasklet_result tk t s =
     s\<lparr>d_tasklet_meta := removeAll tk (d_tasklet_meta s),
       d_unreported := d_unreported s @ concat (hm_values (tk_tx_queues t))\<rparr>"

definition connecting_attempts :: "(task_id, tpu_connecting_meta) hmap \<Rightarrow> (pubkey \<times> nat) list" where
  "connecting_attempts metas =
     concat (map (\<lambda>m. map (\<lambda>peer. (peer, tm_connection_attempt m)) (tm_multiplexed_peers m)) (hm_values metas))"

definition tpu_update_identity :: "tpu_env \<Rightarrow> pubkey \<Rightarrow> tpu_driver \<Rightarrow> tpu_driver res" where
  "tpu_update_identity env new_identity s =
     (let s1 = tpu_schedule_graceful_drop_all_worker s;
          metas = d_connecting_meta s1;
          s2 = s1\<lparr>d_connection_map := [], d_orphans := orphan_clear (d_orphans s1), d_being_evicted := {},
                  d_pending_eviction := evictions_clear (d_pending_eviction s1), d_connecting_tasks := [],
                  d_connecting_peers := [], d_connecting_addrs := [], d_blocked := [],
                  d_active_addrs := staked_clear (d_active_addrs s1), d_connecting_meta := [],
                  d_identity := new_identity\<rparr>
      in res_fold (\<lambda>(peer, attempt). tpu_spawn_connecting env peer attempt) (connecting_attempts metas) s2)"

text \<open>The two commands differ in what they wait for and wake; their effect on the driver is the same.\<close>

fun tpu_handle_cnc :: "tpu_env \<Rightarrow> driver_command \<Rightarrow> tpu_driver \<Rightarrow> tpu_driver res" where
  "tpu_handle_cnc env (DriverUpdateIdentity new_identity) s = tpu_update_identity env new_identity s"
| "tpu_handle_cnc env (DriverMultiStepIdentitySynchronization new_identity) s = tpu_update_identity env new_identity s"

section \<open>Addresses, predictions and unused connections\<close>

definition tpu_peer_addr_changed :: "tpu_env \<Rightarrow> pubkey \<Rightarrow> tpu_driver \<Rightarrow> tpu_driver" where
  "tpu_peer_addr_changed env peer s =
     (case hm_get (d_worker_handles s) peer of
        None \<Rightarrow> s
      | Some handle \<Rightarrow>
          (case get_quic_dest_addr (te_service env) peer (tc_tpu_port (d_config s)) of
             Some new_addr \<Rightarrow>
               if new_addr \<noteq> th_remote_peer_addr handle then tpu_notify_cancel (th_task handle) s else s
           | None \<Rightarrow>
               (let s1 = tpu_notify_cancel (th_task handle) s
                in s1\<lparr>d_pending_eviction := snd (evictions_insert
                     \<lparr>ce_remote_peer_addr = th_remote_peer_addr handle,
                      ce_connection_version = th_connection_version handle\<rparr> (d_pending_eviction s1))\<rparr>)))"

definition tpu_handle_remote_peer_addr_change :: "tpu_env \<Rightarrow> pubkey list \<Rightarrow> tpu_driver \<Rightarrow> tpu_driver" where
  "tpu_handle_remote_peer_addr_change env peers s = fold (tpu_peer_addr_changed env) peers s"

fun tpu_spawn_predicted :: "tpu_env \<Rightarrow> pubkey set \<Rightarrow> pubkey list \<Rightarrow> tpu_driver \<Rightarrow> tpu_driver res" where
  "tpu_spawn_predicted env visited [] s = Inr s"
| "tpu_spawn_predicted env visited (leader # leaders) s =
     (if leader \<in> visited then tpu_spawn_predicted env visited leaders s
      else res_bind
             (if hm_contains (d_worker_handles s) leader \<or> hm_contains (d_connecting_peers s) leader then Inr s
              else tpu_spawn_connecting env leader 1 s)
             (tpu_spawn_predicted env (insert leader visited) leaders))"

definition tpu_try_predict_upcoming_leaders_if_necessary :: "tpu_env \<Rightarrow> tpu_driver \<Rightarrow> tpu_driver res" where
  "tpu_try_predict_upcoming_leaders_if_necessary env s =
     (if te_now env < d_prediction_deadline s then Inr s
      else (case tc_leader_prediction_lookahead (d_config s) of
              Some lh \<Rightarrow>
                tpu_spawn_predicted env {} (te_predict env lh)
                  (s\<lparr>d_prediction_deadline := te_now env + leader_prediction_refresh_interval\<rparr>)
            | None \<Rightarrow> Inr (s\<lparr>d_prediction_deadline := te_now env + tpu_forever\<rparr>)))"

definition next_orphan_connection_expiration :: "tpu_driver \<Rightarrow> instant option" where
  "next_orphan_connection_expiration s =
     map_option (\<lambda>oldest. oldest + tc_orphan_connection_ttl (d_config s)) (orphan_oldest (d_orphans s))"

text \<open>One entry of the expiry loop: the connection is closed if it is still the one that was orphaned and has no worker.\<close>

definition close_orphan :: "orphan_connection_info \<Rightarrow> tpu_driver \<Rightarrow> tpu_driver res" where
  "close_orphan info s =
     (case hm_get (d_connection_map s) (oi_remote_peer_addr info) of
        None \<Rightarrow> Inr s
      | Some c \<Rightarrow>
          (if ac_connection_version c \<noteq> oi_connection_version info then Inr s
           else if ac_multiplexed c \<noteq> [] then Inr s
           else
             (let s1 = s\<lparr>d_connection_map := hm_remove (oi_remote_peer_addr info) (d_connection_map s)\<rparr>
              in if ac_multiplexed c \<noteq> [] then Inl (Panic ''Evicting connection that still has multiplexed peers'')
                 else Inr (tpu_unblock_eviction_waiting_connection (s1\<lparr>d_closed := d_closed s1 @ [ac_conn c]\<rparr>)))))"

definition try_evict_orphan_connections :: "instant \<Rightarrow> tpu_driver \<Rightarrow> tpu_driver res" where
  "try_evict_orphan_connections now s =
     (let (infos, orphans) = orphan_drain (tc_orphan_connection_ttl (d_config s)) now (d_orphans s)
      in res_fold close_orphan infos (s\<lparr>d_orphans := orphans\<rparr>))"

section \<open>The loop\<close>

text \<open>
  The events of \<open>run\<close>, and the steps the other tasks take between them: a worker's iteration, an iteration of a worker that
  belongs to a tasklet, and the tasklet joining one. An event that cannot occur changes nothing.
\<close>

datatype tpu_event =
    TpuTxInlet tpu_sender_txn
  | TpuOrphanTimer
  | TpuPredictionTimer
  | TpuCnc driver_command
  | TpuWorkerJoined task_id
  | TpuWorkerJoinErr task_id
  | TpuConnectingJoined task_id "tpu_connecting_error + quinn_connection"
  | TpuConnectingJoinErr task_id
  | TpuTaskletJoined task_id
  | TpuAddrChanges "pubkey list"
  | TpuWorkerStep task_id "nat \<Rightarrow> uni_outcome" tpu_worker_select
  | TpuDetachedStep task_id task_id "nat \<Rightarrow> uni_outcome" tpu_worker_select
  | TpuDetachedJoined task_id task_id
  | TpuDetachedJoinErr task_id task_id

fun tpu_iterate_task ::
  "(nat \<Rightarrow> uni_outcome) \<Rightarrow> tpu_worker_select \<Rightarrow> instant \<Rightarrow> tpu_worker_task \<Rightarrow> tpu_worker_task \<times> tpu_sender_response list" where
  "tpu_iterate_task answers sel now (TpuRunning conn w last_activity burst_timer) =
     tpu_worker_iteration answers sel now conn w last_activity burst_timer"
| "tpu_iterate_task answers sel now (TpuFinished c) = (TpuFinished c, [])"

fun tpu_task_txs :: "tpu_worker_task \<Rightarrow> tx_queue" where
  "tpu_task_txs (TpuRunning conn w last_activity burst_timer) = map (\<lambda>tx. (tx, 1)) (w_incoming w) @ w_tx_queue w"
| "tpu_task_txs (TpuFinished c) = received_then_pending c"

fun tpu_handle :: "tpu_env \<Rightarrow> tpu_event \<Rightarrow> tpu_driver \<Rightarrow> tpu_driver res" where
  "tpu_handle env (TpuTxInlet tx) s = tpu_accept_tx env tx s"
| "tpu_handle env TpuOrphanTimer s =
     (case d_sleep_timer s of
        Some deadline \<Rightarrow>
          (if deadline \<le> te_now env
           then res_bind (try_evict_orphan_connections (te_now env) s) (\<lambda>s1. Inr (s1\<lparr>d_sleep_timer := None\<rparr>))
           else Inr s)
      | None \<Rightarrow> Inr s)"
| "tpu_handle env TpuPredictionTimer s = Inr s"
| "tpu_handle env (TpuCnc command) s = tpu_handle_cnc env command s"
| "tpu_handle env (TpuWorkerJoined tid) s =
     (case hm_get (d_worker_set s) tid of
        Some (TpuFinished c) \<Rightarrow>
          tpu_handle_worker_completed env tid c (s\<lparr>d_worker_set := hm_remove tid (d_worker_set s)\<rparr>)
      | _ \<Rightarrow> Inr s)"
| "tpu_handle env (TpuWorkerJoinErr tid) s =
     (case hm_get (d_worker_set s) tid of
        Some t \<Rightarrow>
          Inr (tpu_handle_worker_join_err tid
            (s\<lparr>d_worker_set := hm_remove tid (d_worker_set s), d_unreported := d_unreported s @ tpu_task_txs t\<rparr>))
      | None \<Rightarrow> Inr s)"
| "tpu_handle env (TpuConnectingJoined tid result) s =
     (case hm_get (d_connecting_tasks s) tid of
        Some False \<Rightarrow>
          tpu_handle_connecting_ok env tid result (s\<lparr>d_connecting_tasks := hm_remove tid (d_connecting_tasks s)\<rparr>)
      | _ \<Rightarrow> Inr s)"
| "tpu_handle env (TpuConnectingJoinErr tid) s =
     (if hm_contains (d_connecting_tasks s) tid
      then Inr (tpu_handle_connecting_join_err tid (s\<lparr>d_connecting_tasks := hm_remove tid (d_connecting_tasks s)\<rparr>))
      else Inr s)"
| "tpu_handle env (TpuTaskletJoined tk) s =
     (case hm_get (d_tasklet s) tk of
        Some t \<Rightarrow>
          (if tk_worker_set t = []
           then Inr (tpu_handle_tasklet_result tk t (s\<lparr>d_tasklet := hm_remove tk (d_tasklet s)\<rparr>)) else Inr s)
      | None \<Rightarrow> Inr s)"
| "tpu_handle env (TpuAddrChanges peers) s = Inr (tpu_handle_remote_peer_addr_change env peers s)"
| "tpu_handle env (TpuWorkerStep tid answers sel) s =
     (case hm_get (d_worker_set s) tid of
        Some t \<Rightarrow>
          (let (t', out) = tpu_iterate_task answers sel (te_now env) t
           in Inr (fold callback_call out (s\<lparr>d_worker_set := hm_insert tid t' (d_worker_set s)\<rparr>)))
      | None \<Rightarrow> Inr s)"
| "tpu_handle env (TpuDetachedStep tk tid answers sel) s =
     (case hm_get (d_tasklet s) tk of
        Some t \<Rightarrow>
          (case hm_get (tk_worker_set t) tid of
             Some w \<Rightarrow>
               (let (w', out) = tpu_iterate_task answers sel (te_now env) w
                in Inr (fold callback_call out (s\<lparr>d_tasklet := hm_insert tk
                     (t\<lparr>tk_worker_set := hm_insert tid w' (tk_worker_set t)\<rparr>) (d_tasklet s)\<rparr>)))
           | None \<Rightarrow> Inr s)
      | None \<Rightarrow> Inr s)"
| "tpu_handle env (TpuDetachedJoined tk tid) s =
     (case hm_get (d_tasklet s) tk of
        Some t \<Rightarrow>
          (case hm_get (tk_worker_set t) tid of
             Some (TpuFinished c) \<Rightarrow> Inr (tasklet_join_worker tk tid (Some c) t s)
           | _ \<Rightarrow> Inr s)
      | None \<Rightarrow> Inr s)"
| "tpu_handle env (TpuDetachedJoinErr tk tid) s =
     (case hm_get (d_tasklet s) tk of
        Some t \<Rightarrow>
          (case hm_get (tk_worker_set t) tid of
             Some w \<Rightarrow> Inr (tasklet_join_worker tk tid None t (s\<lparr>d_unreported := d_unreported s @ tpu_task_txs w\<rparr>))
           | None \<Rightarrow> Inr s)
      | None \<Rightarrow> Inr s)"

fun is_driver_event :: "tpu_event \<Rightarrow> bool" where
  "is_driver_event (TpuWorkerStep _ _ _) = False"
| "is_driver_event (TpuDetachedStep _ _ _ _) = False"
| "is_driver_event (TpuDetachedJoined _ _) = False"
| "is_driver_event (TpuDetachedJoinErr _ _) = False"
| "is_driver_event _ = True"

text \<open>The timer for unused connections is set when there are some and it is not running, and dropped when there are none.\<close>

definition arm_sleep_timer :: "instant \<Rightarrow> tpu_driver \<Rightarrow> tpu_driver" where
  "arm_sleep_timer now s =
     (case next_orphan_connection_expiration s of
        Some expiration \<Rightarrow>
          (if d_sleep_timer s = None then s\<lparr>d_sleep_timer := Some (now + (expiration - now))\<rparr> else s)
      | None \<Rightarrow> s\<lparr>d_sleep_timer := None\<rparr>)"

definition tpu_loop_top :: "tpu_eviction_plan \<Rightarrow> tpu_env \<Rightarrow> tpu_driver \<Rightarrow> tpu_driver res" where
  "tpu_loop_top plan env s =
     res_bind (tpu_try_predict_upcoming_leaders_if_necessary env (tpu_do_eviction_if_required plan (te_now env) s)) (\<lambda>s1.
       Inr (arm_sleep_timer (te_now env) s1))"

definition tpu_step :: "tpu_eviction_plan \<Rightarrow> tpu_env \<times> tpu_event \<Rightarrow> tpu_driver \<Rightarrow> tpu_driver res" where
  "tpu_step plan ev s =
     (let (env, e) = ev
      in if is_driver_event e then res_bind (tpu_handle env e s) (tpu_loop_top plan env)
         else tpu_handle env e s)"

definition tpu_run :: "tpu_eviction_plan \<Rightarrow> tpu_env \<Rightarrow> (tpu_env \<times> tpu_event) list \<Rightarrow> tpu_driver \<Rightarrow> tpu_driver res" where
  "tpu_run plan env es s = res_bind (tpu_loop_top plan env s) (res_fold (tpu_step plan) es)"

text \<open>When the inlet closes, the driver leaves the loop and hands its workers and queues to a last tasklet.\<close>

definition tpu_inlet_closed :: "tpu_driver \<Rightarrow> tpu_driver" where
  "tpu_inlet_closed s = tpu_schedule_graceful_drop_all_worker s"

end
