(* ===== verification/Tpu_Driver_Flow.thy ===== *)
theory Tpu_Driver_Flow
  imports Tpu_Driver
begin

text \<open>
  What happens to a transaction in the driver of the TPU client (\<open>Tpu_Driver\<close>).

  The interface \<open>driver_invariant\<close> is a property of the fields that hold transactions, kept by the few operations that
  change those fields; its lemmas show once that everything the driver composes of them runs without a panic and keeps
  the property. It is interpreted twice: on the account of all transactions (every one accepted is
  reported, held or counted as unreported) and on the queue an identity change has taken over, which is never reported.
\<close>

section \<open>Operations that may panic\<close>

lemma res_ok_fold:
  "P s \<Longrightarrow> (\<And>x s. x \<in> set xs \<Longrightarrow> P s \<Longrightarrow> res_ok P (f x s)) \<Longrightarrow> res_ok P (res_fold f xs s)"
  by (induction xs arbitrary: s) (auto intro: res_ok_bind)

lemma fold_keeps: "P s \<Longrightarrow> (\<And>x s. P s \<Longrightarrow> P (f x s)) \<Longrightarrow> P (fold f xs s)"
  by (induction xs arbitrary: s) simp_all

section \<open>The fields that hold transactions\<close>

definition core :: "tpu_driver \<Rightarrow> _" where
  "core s = (d_config s, d_endpoints s, d_endpoint_sequence s, d_tx_queues s, d_worker_set s, d_response_outlet s,
     d_tasklet s, d_next_task_id s, d_unreported s, d_worker_meta s)"

lemma core_eqD:
  assumes "core s' = core s"
  shows "d_config s' = d_config s" "d_endpoints s' = d_endpoints s" "d_endpoint_sequence s' = d_endpoint_sequence s"
    "d_tx_queues s' = d_tx_queues s" "d_worker_set s' = d_worker_set s" "d_response_outlet s' = d_response_outlet s"
    "d_tasklet s' = d_tasklet s" "d_next_task_id s' = d_next_task_id s" "d_unreported s' = d_unreported s"
    "d_worker_meta s' = d_worker_meta s"
  using assms by (simp_all add: core_def)

lemma core_unblock [simp]: "core (tpu_unblock_eviction_waiting_connection s) = core s"
  by (auto simp: tpu_unblock_eviction_waiting_connection_def tpu_notify_task_def core_def split: list.split)

lemma core_evict_peer: "core (fst (tpu_evict_peer p sc)) = core (fst sc)"
  by (auto simp: tpu_evict_peer_def core_def Let_def split: prod.splits option.split)

lemma core_evict_peers: "core (fst (fold tpu_evict_peer ps sc)) = core (fst sc)"
  by (induction ps arbitrary: sc) (simp_all add: core_evict_peer)

lemma core_remove_worker [simp]: "core (remove_worker_from_active_connection now addr p v s) = core s"
proof -
  have "core (tpu_unblock_eviction_waiting_connection s' \<lparr>d_active_addrs := x\<rparr>) = core s'" for s' x
    using core_unblock [of s'] by (simp add: core_def)
  then show ?thesis
    by (simp add: remove_worker_from_active_connection_def Let_def split: option.split) (simp add: core_def)
qed

lemma core_connecting_forget [simp]: "core (connecting_forget tid m s) = core s"
  by (simp add: connecting_forget_def core_def)

lemma core_callback [simp]:
  "d_tx_queues (callback_call r s) = d_tx_queues s" "d_config (callback_call r s) = d_config s"
  "d_worker_set (callback_call r s) = d_worker_set s" "d_tasklet (callback_call r s) = d_tasklet s"
  "d_unreported (callback_call r s) = d_unreported s" "d_next_task_id (callback_call r s) = d_next_task_id s"
  "d_worker_meta (callback_call r s) = d_worker_meta s"
  "d_endpoints (callback_call r s) = d_endpoints s" "d_endpoint_sequence (callback_call r s) = d_endpoint_sequence s"
  by (simp_all add: callback_call_def)

locale driver_invariant =
  fixes I :: "tpu_driver \<Rightarrow> bool"
  assumes core_only: "I s \<Longrightarrow> core s' = core s \<Longrightarrow> I s'"
    and keeps_drop: "I s \<Longrightarrow> I (tpu_drop_peer_queued_tx peer reason s)"
    and keeps_install: "I s \<Longrightarrow> res_ok I (tpu_install_worker env peer addr s)"
    and keeps_spawn: "I s \<Longrightarrow> res_ok I (spawn_connecting_task peer addr attempt s)"
    and keeps_cancel: "I s \<Longrightarrow> I (tpu_notify_cancel tid s)"
begin

lemma keeps_unreachable: "I s \<Longrightarrow> I (tpu_unreachable_peer peer s)"
  unfolding tpu_unreachable_peer_def by (rule keeps_drop)

lemma keeps_spawn_connecting:
  assumes "I s"
  shows "res_ok I (tpu_spawn_connecting env peer attempt s)"
proof -
  have "I (s\<lparr>d_connecting_addrs := a\<rparr>)" "I (s\<lparr>d_connecting_meta := m, d_connecting_peers := p\<rparr>)" for a m p
    by (rule core_only [OF assms], simp add: core_def)+
  then show ?thesis
    using assms by (simp add: tpu_spawn_connecting_def keeps_unreachable keeps_install keeps_spawn split: option.split)
qed

lemma keeps_reattempt: "I s \<Longrightarrow> res_ok I (tpu_reattempt env m peer s)"
  by (simp add: tpu_reattempt_def keeps_unreachable keeps_spawn_connecting split: option.split)

lemma keeps_connecting_ok:
  assumes "I s"
  shows "res_ok I (tpu_handle_connecting_ok env tid result s)"
proof (cases "hm_get (d_connecting_meta s) tid")
  case (Some m)
  define s1 where "s1 = connecting_forget tid m s"
  have I1: "I s1" unfolding s1_def by (rule core_only [OF assms]) simp
  have "I (s1\<lparr>d_connection_version := v, d_connection_map := c\<rparr>)" for v c by (rule core_only [OF I1]) (simp add: core_def)
  then have conn: "res_ok I (res_fold (\<lambda>p. tpu_install_worker env p addr) ps
      (s1\<lparr>d_connection_version := v, d_connection_map := c\<rparr>))" for addr ps v c
    by (auto intro: res_ok_fold keeps_install)
  have lost: "I (fold tpu_unreachable_peer ps s1)" for ps using I1 keeps_unreachable by (rule fold_keeps)
  have again: "res_ok I (res_fold (\<lambda>p. tpu_spawn_connecting env p n) ps s1)"
    "res_ok I (res_fold (tpu_reattempt env m) ps s1)" for n ps
    using I1 by (auto intro: res_ok_fold keeps_spawn_connecting keeps_reattempt)
  show ?thesis
    using conn lost again
    by (simp add: tpu_handle_connecting_ok_def Some Let_def s1_def [symmetric] next_connection_version_def
        split: sum.split tpu_connecting_error.split tpu_connect_error.split)
qed (simp add: tpu_handle_connecting_ok_def assms)

lemma keeps_connecting_join_err:
  assumes "I s"
  shows "I (tpu_handle_connecting_join_err tid s)"
proof -
  have "I (connecting_forget tid m s)" for m by (rule core_only [OF assms]) simp
  then show ?thesis
    using assms by (auto simp: tpu_handle_connecting_join_err_def intro: fold_keeps keeps_drop split: option.split)
qed

lemma keeps_eviction:
  assumes "I s"
  shows "I (tpu_do_eviction_if_required plan now s)"
proof -
  have "I (fold tpu_notify_cancel cancels s')" if "fold tpu_evict_peer ps (s, []) = (s', cancels)" for ps s' cancels
    using core_only [OF assms] core_evict_peers [of ps "(s, [])"] that
    by (intro fold_keeps [where P = I]) (simp_all add: keeps_cancel)
  then show ?thesis
    using assms by (auto simp: tpu_do_eviction_if_required_def Let_def split: prod.split)
qed

lemma keeps_predicted: "I s \<Longrightarrow> res_ok I (tpu_spawn_predicted env visited leaders s)"
  by (induction leaders arbitrary: visited s) (auto intro!: res_ok_bind keeps_spawn_connecting)

lemma keeps_predict:
  assumes "I s"
  shows "res_ok I (tpu_try_predict_upcoming_leaders_if_necessary env s)"
proof -
  have "I (s\<lparr>d_prediction_deadline := t\<rparr>)" for t by (rule core_only [OF assms]) (simp add: core_def)
  then show ?thesis
    using assms by (simp add: tpu_try_predict_upcoming_leaders_if_necessary_def keeps_predicted split: option.split)
qed

lemma keeps_loop_top:
  assumes "I s"
  shows "res_ok I (tpu_loop_top plan env s)"
  unfolding tpu_loop_top_def
proof (rule res_ok_bind [OF keeps_predict [OF keeps_eviction [OF assms]]])
  fix s1 assume "I s1"
  then have "I (arm_sleep_timer now s1)" for now
    by (rule core_only) (auto simp: arm_sleep_timer_def core_def split: option.split)
  then show "res_ok I (Inr (arm_sleep_timer (te_now env) s1))" by simp
qed

lemma keeps_rescue:
  assumes "I s"
  shows "res_ok I (rescue_or_drop env peer evicted err s)"
proof -
  have "I (s\<lparr>d_last_peer_activity := a\<rparr>)" for a by (rule core_only [OF assms]) (simp add: core_def)
  then show ?thesis
    using assms by (simp add: rescue_or_drop_def keeps_unreachable keeps_drop keeps_spawn_connecting)
qed

lemma keeps_close_orphan: "I s \<Longrightarrow> res_ok I (close_orphan info s)"
  by (auto simp: close_orphan_def Let_def split: option.split)
     (erule core_only, simp, simp add: core_def)

lemma keeps_orphan_timer:
  assumes "I s"
  shows "res_ok I (try_evict_orphan_connections now s)"
proof -
  have "I (s\<lparr>d_orphans := x\<rparr>)" for x by (rule core_only [OF assms]) (simp add: core_def)
  then show ?thesis
    by (auto simp: try_evict_orphan_connections_def Let_def intro: res_ok_fold keeps_close_orphan split: prod.split)
qed

lemma keeps_replay:
  assumes "I (tpu_schedule_graceful_drop_all_worker s)"
  shows "res_ok I (tpu_update_identity env me s)"
  unfolding tpu_update_identity_def Let_def
proof (rule res_ok_fold)
  show "I ((tpu_schedule_graceful_drop_all_worker s)
      \<lparr>d_connection_map := [], d_orphans := orphan_clear (d_orphans (tpu_schedule_graceful_drop_all_worker s)),
       d_being_evicted := {}, d_pending_eviction := evictions_clear (d_pending_eviction (tpu_schedule_graceful_drop_all_worker s)),
       d_connecting_tasks := [], d_connecting_peers := [], d_connecting_addrs := [], d_blocked := [],
       d_active_addrs := staked_clear (d_active_addrs (tpu_schedule_graceful_drop_all_worker s)), d_connecting_meta := [],
       d_identity := me\<rparr>)"
    by (rule core_only [OF assms]) (simp add: core_def)
qed (auto intro: keeps_spawn_connecting)

lemma keeps_addr_change: "I s \<Longrightarrow> I (tpu_handle_remote_peer_addr_change env peers s)"
  unfolding tpu_handle_remote_peer_addr_change_def
proof (erule fold_keeps)
  fix p s assume I: "I s"
  have "I ((tpu_notify_cancel tid s)\<lparr>d_pending_eviction := e\<rparr>)" for tid e
    by (rule core_only [OF keeps_cancel [OF I]]) (simp add: core_def)
  then show "I (tpu_peer_addr_changed env p s)"
    using I by (simp add: tpu_peer_addr_changed_def Let_def keeps_cancel split: option.split)
qed

text \<open>The events that do not take transactions in, out of a worker or out of a tasklet.\<close>

lemma keeps_handle:
  assumes "I s"
  shows "res_ok I (tpu_handle env TpuOrphanTimer s)"
    and "res_ok I (tpu_handle env (TpuConnectingJoined tid result) s)"
    and "res_ok I (tpu_handle env (TpuConnectingJoinErr tid) s)"
    and "res_ok I (tpu_handle env (TpuAddrChanges peers) s)"
proof -
  have "I (s'\<lparr>d_sleep_timer := None\<rparr>)" if "I s'" for s' by (rule core_only [OF that]) (simp add: core_def)
  then show "res_ok I (tpu_handle env TpuOrphanTimer s)"
    using assms by (auto intro!: res_ok_bind [OF keeps_orphan_timer] split: option.split)
  have "I (s\<lparr>d_connecting_tasks := t\<rparr>)" for t by (rule core_only [OF assms]) (simp add: core_def)
  then show "res_ok I (tpu_handle env (TpuConnectingJoined tid result) s)"
    and "res_ok I (tpu_handle env (TpuConnectingJoinErr tid) s)"
    using assms by (auto simp: keeps_connecting_ok keeps_connecting_join_err split: option.split bool.split)
  show "res_ok I (tpu_handle env (TpuAddrChanges peers) s)" using assms by (simp add: keeps_addr_change)
qed

end

text \<open>A property that also survives the workers and queues being handed to a tasklet survives a change of identity.\<close>

locale driver_identity_invariant = driver_invariant +
  assumes keeps_graceful: "I s \<Longrightarrow> I (tpu_schedule_graceful_drop_all_worker s)"
begin

lemma keeps_update_identity: "I s \<Longrightarrow> res_ok I (tpu_update_identity env me s)"
  by (rule keeps_replay [OF keeps_graceful])

lemma keeps_cnc: "I s \<Longrightarrow> res_ok I (tpu_handle env (TpuCnc command) s)"
  by (cases command) (simp_all add: keeps_update_identity)

end

section \<open>The account of all transactions\<close>

definition reported :: "tpu_driver \<Rightarrow> signature multiset" where
  "reported s = (case d_response_outlet s of None \<Rightarrow> {#} | Some rs \<Rightarrow> tpu_responses_sigs rs)"

definition tasklet_sigs :: "tpu_tasklet \<Rightarrow> signature multiset" where
  "tasklet_sigs t = hm_sum tpu_task_sigs (tk_worker_set t) + hm_sum queue_sigs (tk_tx_queues t)"

text \<open>The transactions the driver and its tasks hold.\<close>

definition held :: "tpu_driver \<Rightarrow> signature multiset" where
  "held s = hm_sum queue_sigs (d_tx_queues s) + hm_sum tpu_task_sigs (d_worker_set s) + hm_sum tasklet_sigs (d_tasklet s)"

definition tpu_sigs :: "tpu_driver \<Rightarrow> signature multiset" where
  "tpu_sigs s = reported s + held s + queue_sigs (d_unreported s)"

definition tasklet_wf :: "tpu_tasklet \<Rightarrow> bool" where
  "tasklet_wf t \<longleftrightarrow> hm_wf (tk_worker_set t) \<and> hm_wf (tk_tx_queues t)"

definition tpu_ok :: "tpu_driver \<Rightarrow> bool" where
  "tpu_ok s \<longleftrightarrow>
     d_endpoint_sequence s < length (d_endpoints s) \<and> tc_worker_channel_capacity (d_config s) > 0 \<and>
     d_response_outlet s \<noteq> None \<and> hm_wf (d_tx_queues s) \<and> hm_wf (d_worker_set s) \<and> hm_wf (d_tasklet s) \<and>
     (\<forall>tid t. hm_get (d_worker_set s) tid = Some t \<longrightarrow> tid < d_next_task_id s) \<and>
     (\<forall>tk t. hm_get (d_tasklet s) tk = Some t \<longrightarrow> tk < d_next_task_id s \<and> tasklet_wf t) \<and>
     (\<forall>peer q. hm_get (d_tx_queues s) peer = Some q \<longrightarrow> length q \<le> tc_worker_channel_capacity (d_config s))"

definition accounted :: "signature multiset \<Rightarrow> tpu_driver \<Rightarrow> bool" where
  "accounted M s \<longleftrightarrow> tpu_ok s \<and> tpu_sigs s = M"

lemma tpu_okD:
  assumes "tpu_ok s"
  shows "d_endpoint_sequence s < length (d_endpoints s)" "tc_worker_channel_capacity (d_config s) > 0"
    "d_response_outlet s \<noteq> None" "hm_wf (d_tx_queues s)" "hm_wf (d_worker_set s)" "hm_wf (d_tasklet s)"
    "hm_get (d_worker_set s) tid = Some t \<Longrightarrow> tid < d_next_task_id s"
    "hm_get (d_tasklet s) tk = Some tsk \<Longrightarrow> tk < d_next_task_id s" "hm_get (d_tasklet s) tk = Some tsk \<Longrightarrow> tasklet_wf tsk"
    "hm_get (d_tx_queues s) peer = Some q \<Longrightarrow> length q \<le> tc_worker_channel_capacity (d_config s)"
    "hm_get (d_worker_set s) (d_next_task_id s) = None" "hm_get (d_tasklet s) (d_next_task_id s) = None"
  using assms unfolding tpu_ok_def by (blast, blast, blast, blast, blast, blast, blast, blast, blast, blast, fastforce, fastforce)

lemma queue_sigs_of: "queue_sigs (queue_of qs peer) = (case hm_get qs peer of None \<Rightarrow> {#} | Some q \<Rightarrow> queue_sigs q)"
  by (simp split: option.split)

lemma queue_sum_insert:
  assumes "hm_wf qs"
  shows "hm_sum queue_sigs (hm_insert peer (queue_of qs peer @ q) qs) = hm_sum queue_sigs qs + queue_sigs q"
  using hm_sum_insert [OF assms, of queue_sigs peer "queue_of qs peer @ q"]
  by (cases "hm_get qs peer") (simp_all add: ac_simps)

lemma queue_sum_remove:
  assumes "hm_wf qs"
  shows "hm_sum queue_sigs qs = queue_sigs (queue_of qs peer) + hm_sum queue_sigs (hm_remove peer qs)"
  using hm_sum_remove [OF assms, of queue_sigs peer] by (simp add: queue_sigs_of)

lemma callback_call_sigs:
  "d_response_outlet s \<noteq> None \<Longrightarrow> reported (callback_call r s) = reported s + tpu_response_sigs r"
  "held (callback_call r s) = held s"
  "d_response_outlet s \<noteq> None \<Longrightarrow> d_response_outlet (callback_call r s) \<noteq> None"
  "tpu_ok s \<Longrightarrow> tpu_ok (callback_call r s)"
  by (auto simp: callback_call_def reported_def held_def tpu_ok_def)

lemma callbacks_sigs:
  assumes "tpu_ok s"
  shows "tpu_sigs (fold callback_call rs s) = tpu_sigs s + tpu_responses_sigs rs \<and> tpu_ok (fold callback_call rs s)"
  using assms
proof (induction rs arbitrary: s)
  case (Cons r rs)
  have "tpu_sigs (callback_call r s) = tpu_sigs s + tpu_response_sigs r"
    using callback_call_sigs [where s = s and r = r] tpu_okD(3) [OF Cons.prems] by (simp add: tpu_sigs_def ac_simps)
  then show ?case using Cons.IH [OF callback_call_sigs(4) [OF Cons.prems]] by simp
qed simp

lemma accounted_core:
  assumes "accounted M s" and "core s' = core s"
  shows "accounted M s'"
  using assms(1) unfolding accounted_def tpu_ok_def tpu_sigs_def reported_def held_def core_eqD [OF assms(2)] .

lemma accounted_drop:
  assumes "accounted M s"
  shows "accounted M (tpu_drop_peer_queued_tx peer reason s)"
proof (cases "hm_get (d_tx_queues s) peer")
  case (Some q)
  have ok: "tpu_ok s" using assms by (simp add: accounted_def)
  define s1 where "s1 = s\<lparr>d_tx_queues := hm_remove peer (d_tx_queues s)\<rparr>"
  have ok1: "tpu_ok s1" using ok by (auto simp: s1_def tpu_ok_def split: if_splits)
  have "held s = queue_sigs q + held s1"
    using queue_sum_remove [OF tpu_okD(4) [OF ok], of peer] Some by (simp add: s1_def held_def ac_simps)
  moreover have "reported s1 = reported s" "d_unreported s1 = d_unreported s" by (simp_all add: s1_def reported_def)
  ultimately show ?thesis
    using assms callback_call_sigs [where s = s1] ok1 tpu_okD(3) [OF ok1] Some
    by (simp add: accounted_def tpu_sigs_def tpu_drop_peer_queued_tx_def s1_def [symmetric] ac_simps)
qed (use assms in \<open>simp add: tpu_drop_peer_queued_tx_def\<close>)

lemma accounted_install:
  assumes "accounted M s"
  shows "res_ok (accounted M) (tpu_install_worker env peer addr s)"
proof -
  have ok: "tpu_ok s" using assms by (simp add: accounted_def)
  note D = tpu_okD [OF ok]
  have gone: "accounted M (tpu_unreachable_peer peer s)" unfolding tpu_unreachable_peer_def by (rule accounted_drop [OF assms])
  show ?thesis
  proof (cases "hm_contains (d_worker_handles s) peer \<or> hm_get (d_connection_map s) addr = None")
    case True
    then show ?thesis using assms gone D(2) by (auto simp: tpu_install_worker_def)
  next
    case False
    then obtain c where c: "hm_get (d_connection_map s) addr = Some c" by auto
    obtain s1 where s1: "tpu_install_worker env peer addr s = Inr s1" using False c D(2) by (simp add: tpu_install_worker_def Let_def)
    define w where "w = \<lparr>w_remote_peer = peer, w_remote_addr = addr, w_incoming = [], w_senders_open = True,
      w_tx_queue = queue_of (d_tx_queues s) peer, w_cancel = False, w_max_tx_attempt = tc_max_send_attempt (d_config s)\<rparr>"
    let ?t = "tpu_worker_start (ac_conn c) w (te_now env)"
    have core: "core s1 = core (s\<lparr>d_tx_queues := hm_remove peer (d_tx_queues s),
        d_worker_set := hm_insert (d_next_task_id s) ?t (d_worker_set s), d_next_task_id := Suc (d_next_task_id s),
        d_worker_meta := hm_insert (d_next_task_id s) peer (d_worker_meta s)\<rparr>)"
      using s1 False c D(2) by (auto simp: tpu_install_worker_def core_def w_def Let_def)
    have sigs: "tpu_task_sigs ?t = queue_sigs (queue_of (d_tx_queues s) peer)" by (simp add: tpu_worker_start_def w_def)
    have "tpu_ok s1" using ok unfolding tpu_ok_def core_eqD [OF core] by (auto simp: less_Suc_eq split: if_splits)
    moreover have "tpu_sigs s1 = tpu_sigs s"
      using queue_sum_remove [OF D(4), of peer] hm_sum_insert_new [OF D(11), of tpu_task_sigs ?t] sigs
      by (simp add: tpu_sigs_def held_def reported_def core_eqD [OF core] ac_simps)
    ultimately show ?thesis using assms s1 by (simp add: accounted_def)
  qed
qed

lemma accounted_spawn:
  assumes "accounted M s"
  shows "res_ok (accounted M) (spawn_connecting_task peer addr attempt s)"
proof -
  have ok: "tpu_ok s" using assms by (simp add: accounted_def)
  note D = tpu_okD [OF ok]
  have "d_endpoints s \<noteq> []" using D(1) by auto
  then obtain s1 where s1: "spawn_connecting_task peer addr attempt s = Inr s1"
    using D(1) by (cases "tpu_has_connection_capacity s") (simp_all add: spawn_connecting_task_def next_endpoint_idx_def Let_def)
  have core: "core s1 = core (s\<lparr>d_endpoint_sequence := (d_endpoint_sequence s + 1) mod length (d_endpoints s),
      d_next_task_id := Suc (d_next_task_id s)\<rparr>)"
    using s1 D(1) \<open>d_endpoints s \<noteq> []\<close>
    by (cases "tpu_has_connection_capacity s") (auto simp: spawn_connecting_task_def next_endpoint_idx_def Let_def core_def)
  have "tpu_ok s1" using ok \<open>d_endpoints s \<noteq> []\<close> unfolding tpu_ok_def core_eqD [OF core] by (auto simp: less_Suc_eq)
  moreover have "tpu_sigs s1 = tpu_sigs s" by (simp add: tpu_sigs_def held_def reported_def core_eqD [OF core])
  ultimately show ?thesis using assms s1 by (simp add: accounted_def)
qed

lemma tpu_cancel_task_sigs [simp]: "tpu_task_sigs (tpu_cancel_task t) = tpu_task_sigs t"
  "tpu_task_sigs (tpu_drop_sender t) = tpu_task_sigs t"
  by (cases t; simp)+

lemma accounted_cancel:
  assumes "accounted M s"
  shows "accounted M (tpu_notify_cancel tid s)"
proof (cases "hm_get (d_worker_set s) tid")
  case (Some t)
  have ok: "tpu_ok s" using assms by (simp add: accounted_def)
  have "tpu_ok (tpu_notify_cancel tid s)"
    using ok tpu_okD(7) [OF ok Some] by (auto simp: tpu_notify_cancel_def Some tpu_ok_def)
  moreover have "tpu_sigs (tpu_notify_cancel tid s) = tpu_sigs s"
    using hm_sum_insert_same [OF tpu_okD(5) [OF ok] Some, of tpu_task_sigs "tpu_cancel_task t"]
    by (simp add: tpu_notify_cancel_def Some tpu_sigs_def held_def reported_def)
  ultimately show ?thesis using assms by (simp add: accounted_def)
qed (use assms in \<open>simp add: tpu_notify_cancel_def\<close>)

lemma accounted_graceful:
  assumes "accounted M s"
  shows "accounted M (tpu_schedule_graceful_drop_all_worker s)"
proof -
  have ok: "tpu_ok s" using assms by (simp add: accounted_def)
  note D = tpu_okD [OF ok]
  let ?ws = "map (\<lambda>(tid, t). (tid, tpu_drop_sender t)) (d_worker_set s)"
  have "map fst ?ws = map fst (d_worker_set s)" by (simp add: comp_def case_prod_beta)
  then have "hm_wf ?ws" using D(5) by metis
  then have "tpu_ok (tpu_schedule_graceful_drop_all_worker s)"
    using ok by (auto simp: tpu_schedule_graceful_drop_all_worker_def tpu_ok_def tasklet_wf_def less_Suc_eq)
  moreover have "tpu_sigs (tpu_schedule_graceful_drop_all_worker s) = tpu_sigs s"
    using hm_sum_insert_new [OF D(12), of tasklet_sigs]
    by (simp add: tpu_schedule_graceful_drop_all_worker_def tpu_sigs_def held_def reported_def tasklet_sigs_def
        hm_sum_map_values ac_simps)
  ultimately show ?thesis using assms by (simp add: accounted_def)
qed

interpretation account: driver_identity_invariant "accounted M" for M
  by unfold_locales
     (auto intro: accounted_core accounted_drop accounted_install accounted_spawn accounted_cancel accounted_graceful)

section \<open>Transactions that move\<close>

lemma accounted_more:
  assumes "accounted M s" and "core s' = core (s\<lparr>d_unreported := d_unreported s @ q\<rparr>)"
  shows "accounted (M + queue_sigs q) s'"
  using assms(1) unfolding accounted_def tpu_ok_def tpu_sigs_def reported_def held_def core_eqD [OF assms(2)]
  by (auto simp: ac_simps)

lemma accounted_drop_single:
  assumes "accounted M s"
  shows "accounted (add_mset (gt_tx_sig tx) M) (tpu_drop_single_tx peer tx attempt reason s)"
  using assms callback_call_sigs [where s = s] tpu_okD(3)
  by (simp add: accounted_def tpu_drop_single_tx_def tpu_sigs_def)

lemma accounted_queue:
  assumes "accounted M s"
  shows "accounted (add_mset (gt_tx_sig tx) M) (snd (queue_tx_or_drop peer tx attempt s))"
proof (cases "tc_worker_channel_capacity (d_config s) \<le> length (queue_of (d_tx_queues s) peer)")
  case True
  then show ?thesis by (simp add: queue_tx_or_drop_def accounted_drop_single [OF assms])
next
  case False
  have ok: "tpu_ok s" using assms by (simp add: accounted_def)
  let ?s = "snd (queue_tx_or_drop peer tx attempt s)"
  have eq: "?s = s\<lparr>d_tx_queues := hm_insert peer (queue_of (d_tx_queues s) peer @ [(tx, attempt)]) (d_tx_queues s)\<rparr>"
    using False by (simp add: queue_tx_or_drop_def)
  have "tpu_ok ?s" using ok False by (auto simp: eq tpu_ok_def)
  moreover have "tpu_sigs ?s = add_mset (gt_tx_sig tx) (tpu_sigs s)"
    using queue_sum_insert [OF tpu_okD(4) [OF ok], of peer "[(tx, attempt)]"]
    by (simp add: eq tpu_sigs_def held_def reported_def)
  ultimately show ?thesis using assms by (simp add: accounted_def)
qed

lemma accounted_requeue: "accounted M s \<Longrightarrow> accounted (M + queue_sigs q) (requeue_all peer q s)"
proof (induction q arbitrary: M s)
  case (Cons e q)
  obtain tx n where e: "e = (tx, n)" by fastforce
  show ?case
    using Cons.IH [OF accounted_queue [OF Cons.prems, of tx peer n]] by (simp add: requeue_all_def e)
qed (simp add: requeue_all_def)

lemma accounted_accept:
  assumes "accounted M s"
  shows "res_ok (accounted (add_mset (gt_tx_sig tx) M)) (tpu_accept_tx env tx s)"
proof -
  define s1 where "s1 = s\<lparr>d_last_peer_activity := hm_insert (gt_remote_peer tx) (te_now env) (d_last_peer_activity s)\<rparr>"
  have I: "accounted M s1" unfolding s1_def by (rule accounted_core [OF assms]) (simp add: core_def)
  have ok: "tpu_ok s1" using I by (simp add: accounted_def)
  let ?M = "add_mset (gt_tx_sig tx) M"
  have dropped: "accounted ?M (tpu_drop_single_tx p tx n r s1)" for p n r by (rule accounted_drop_single [OF I])
  have queued: "accounted ?M (snd (queue_tx_or_drop p tx n s1))" for p n by (rule accounted_queue [OF I])
  have sent: "accounted ?M (s1\<lparr>d_worker_set := hm_insert tid t' (d_worker_set s1)\<rparr>)"
    if room: "tpu_try_send_to cap tx (hm_get (d_worker_set s1) tid) = TpuSendOk t'" for cap tid t'
  proof -
    obtain t where t: "hm_get (d_worker_set s1) tid = Some t" using room by (cases "hm_get (d_worker_set s1) tid") auto
    then have "tpu_task_sigs t' = add_mset (gt_tx_sig tx) (tpu_task_sigs t)"
      using room by (cases t) (auto split: if_splits)
    then have "tpu_sigs (s1\<lparr>d_worker_set := hm_insert tid t' (d_worker_set s1)\<rparr>) = add_mset (gt_tx_sig tx) (tpu_sigs s1)"
      using hm_sum_insert [OF tpu_okD(5) [OF ok], of tpu_task_sigs tid t'] t
      by (simp add: tpu_sigs_def held_def reported_def)
    moreover have "tpu_ok (s1\<lparr>d_worker_set := hm_insert tid t' (d_worker_set s1)\<rparr>)"
      using ok tpu_okD(7) [OF ok t] by (auto simp: tpu_ok_def)
    ultimately show ?thesis using I by (simp add: accounted_def)
  qed
  show ?thesis
    using dropped queued sent account.keeps_spawn_connecting
    by (auto simp: tpu_accept_tx_def Let_def s1_def [symmetric] split: option.split tpu_try_send.split prod.split)
       (metis snd_conv)+
qed

lemma accounted_worker_removed:
  assumes "accounted M s" and t: "hm_get (d_worker_set s) tid = Some t"
  obtains M0 where "M = M0 + tpu_task_sigs t" and "accounted M0 (s\<lparr>d_worker_set := hm_remove tid (d_worker_set s)\<rparr>)"
proof -
  have ok: "tpu_ok s" using assms by (simp add: accounted_def)
  let ?s = "s\<lparr>d_worker_set := hm_remove tid (d_worker_set s)\<rparr>"
  have "tpu_sigs s = tpu_sigs ?s + tpu_task_sigs t"
    using hm_sum_remove [OF tpu_okD(5) [OF ok], of tpu_task_sigs tid] t
    by (simp add: tpu_sigs_def held_def reported_def ac_simps)
  moreover have "tpu_ok ?s" using ok by (auto simp: tpu_ok_def split: if_splits)
  ultimately show ?thesis using that [of "tpu_sigs ?s"] assms(1) by (simp add: accounted_def)
qed

lemma fresh_queue_sigs [simp]: "queue_sigs (map (\<lambda>tx. (tx, n)) txs) = incoming_sigs txs"
  by (simp add: queue_sigs_def incoming_sigs_def comp_def)

lemma task_txs_sigs [simp]: "queue_sigs (tpu_task_txs t) = tpu_task_sigs t"
  by (cases t) simp_all

lemma accounted_drop_extended:
  assumes "accounted M s"
  shows "accounted (M + queue_sigs q) (tpu_unreachable_peer peer
    (s\<lparr>d_tx_queues := hm_insert peer (queue_of (d_tx_queues s) peer @ q) (d_tx_queues s)\<rparr>))"
proof -
  have ok: "tpu_ok s" using assms by (simp add: accounted_def)
  note wf = tpu_okD(4) [OF ok]
  let ?qs = "hm_insert peer (queue_of (d_tx_queues s) peer @ q) (d_tx_queues s)"
  define s1 where "s1 = s\<lparr>d_tx_queues := hm_remove peer ?qs\<rparr>"
  have "hm_sum queue_sigs ?qs = queue_sigs (queue_of ?qs peer) + hm_sum queue_sigs (hm_remove peer ?qs)"
    using wf by (intro queue_sum_remove) simp
  then have "held s + queue_sigs q = queue_sigs (queue_of (d_tx_queues s) peer @ q) + held s1"
    using queue_sum_insert [OF wf, of peer q] by (simp add: held_def s1_def ac_simps)
  moreover have ok1: "tpu_ok s1" using ok by (auto simp: s1_def tpu_ok_def split: if_splits)
  moreover have "reported s1 = reported s" "d_unreported s1 = d_unreported s" by (simp_all add: s1_def reported_def)
  ultimately show ?thesis
    using assms callback_call_sigs [where s = s1] tpu_okD(3) [OF ok1]
    by (simp add: accounted_def tpu_sigs_def tpu_unreachable_peer_def tpu_drop_peer_queued_tx_def s1_def [symmetric] ac_simps)
qed

text \<open>How the handler of a finished worker with metadata ends; \<open>s1\<close> is the driver once the worker is forgotten.\<close>

lemma worker_completed_ends:
  assumes "hm_get (d_worker_meta s) tid = Some peer"
  obtains s1 where "core s1 = core (s\<lparr>d_worker_meta := hm_remove tid (d_worker_meta s)\<rparr>)"
      and "tpu_handle_worker_completed env tid c s = Inr (tpu_unreachable_peer peer (s1\<lparr>d_tx_queues :=
        hm_insert peer (queue_of (d_tx_queues s1) peer @ received_then_pending c) (d_tx_queues s1)\<rparr>))"
  | s1 evicted where "core s1 = core (s\<lparr>d_worker_meta := hm_remove tid (d_worker_meta s)\<rparr>)"
      and "tpu_handle_worker_completed env tid c s =
        rescue_or_drop env peer evicted (wc_err c) (requeue_all peer (received_then_pending c) s1)"
proof -
  define s1 where "s1 = s\<lparr>d_worker_meta := hm_remove tid (d_worker_meta s),
    d_active_peers := snd (peers_remove peer (d_active_peers s)), d_watcher_out := d_watcher_out s @ [DeregisterWatch peer],
    d_being_evicted := d_being_evicted s - {peer}\<rparr>"
  have c1: "core s1 = core (s\<lparr>d_worker_meta := hm_remove tid (d_worker_meta s)\<rparr>)" by (simp add: s1_def core_def)
  show ?thesis
  proof (cases "hm_get (d_worker_handles s1) peer")
    case None
    show ?thesis
      by (rule that(1) [OF c1]) (use None assms in \<open>simp add: tpu_handle_worker_completed_def Let_def s1_def [symmetric]\<close>)
  next
    case handle: (Some handle)
    define s2 where "s2 = s1\<lparr>d_worker_handles := hm_remove peer (d_worker_handles s1)\<rparr>"
    define s3 where "s3 = (case hm_get (d_connection_map s2) (th_remote_peer_addr handle) of
        None \<Rightarrow> s2
      | Some conn \<Rightarrow> (if ac_connection_version conn = th_connection_version handle
          then remove_worker_from_active_connection (te_now env) (th_remote_peer_addr handle) peer (th_connection_version handle) s2
          else s2))"
    have "core s2 = core s1" by (simp add: s2_def core_def)
    then have "core s3 = core s1" by (simp add: s3_def split: option.split)
    then have "core (s3\<lparr>d_last_peer_activity := hm_remove peer (d_last_peer_activity s3)\<rparr>) = core s1" by (simp add: core_def)
    then show ?thesis
      by (rule that(2) [OF trans [OF _ c1]])
         (use handle assms in \<open>simp add: tpu_handle_worker_completed_def Let_def s1_def [symmetric] s2_def [symmetric] s3_def [symmetric]\<close>)
  qed
qed

lemma accounted_worker_completed:
  assumes "accounted M s"
  shows "res_ok (accounted (M + incoming_sigs (wc_rx c) + queue_sigs (wc_pending_tx c))) (tpu_handle_worker_completed env tid c s)"
proof (cases "hm_get (d_worker_meta s) tid")
  case None
  then show ?thesis
    using accounted_more [OF assms refl, of "received_then_pending c"]
    by (simp add: tpu_handle_worker_completed_def ac_simps)
next
  case (Some peer)
  have I: "accounted M (s\<lparr>d_worker_meta := hm_remove tid (d_worker_meta s)\<rparr>)"
    using assms by (simp add: accounted_def tpu_ok_def tpu_sigs_def reported_def held_def)
  have M: "M + queue_sigs (received_then_pending c) = M + incoming_sigs (wc_rx c) + queue_sigs (wc_pending_tx c)"
    by (simp add: ac_simps)
  show ?thesis
  proof (rule worker_completed_ends [OF Some, of env c], goal_cases)
    case (1 s1)
    show ?case
      unfolding 1(2) res_ok_simps M [symmetric] by (rule accounted_drop_extended [OF accounted_core [OF I 1(1)]])
  next
    case (2 s1 evicted)
    show ?case
      unfolding 2(2) M [symmetric] by (rule account.keeps_rescue [OF accounted_requeue [OF accounted_core [OF I 2(1)]]])
  qed
qed

lemma accounted_worker_join_err:
  assumes "accounted M s"
  shows "accounted M (tpu_handle_worker_join_err tid s)"
proof -
  have "accounted M (s\<lparr>d_worker_meta := a, d_worker_handles := b\<rparr>)" for a b
    using assms by (simp add: accounted_def tpu_ok_def tpu_sigs_def reported_def held_def)
  then show ?thesis
    using assms by (simp add: tpu_handle_worker_join_err_def account.keeps_unreachable split: option.split)
qed

lemma tpu_iterate_task_sigs:
  "tpu_iterate_task answers sel now t = (t', out) \<Longrightarrow> tpu_task_sigs t = tpu_task_sigs t' + tpu_responses_sigs out"
  by (cases t) (auto dest: tpu_worker_iteration_sigs)

lemma accounted_callbacks:
  "accounted M s \<Longrightarrow> accounted (M + tpu_responses_sigs rs) (fold callback_call rs s)"
  using callbacks_sigs [of s rs] by (simp add: accounted_def)

lemma accounted_worker_step:
  assumes "accounted M s"
  shows "res_ok (accounted M) (tpu_handle env (TpuWorkerStep tid answers sel) s)"
proof (cases "hm_get (d_worker_set s) tid")
  case (Some t)
  have ok: "tpu_ok s" using assms by (simp add: accounted_def)
  obtain t' out where it: "tpu_iterate_task answers sel (te_now env) t = (t', out)" by fastforce
  define s1 where "s1 = s\<lparr>d_worker_set := hm_insert tid t' (d_worker_set s)\<rparr>"
  have "tpu_sigs s1 + tpu_responses_sigs out = M"
    using hm_sum_insert [OF tpu_okD(5) [OF ok], of tpu_task_sigs tid t'] Some tpu_iterate_task_sigs [OF it] assms
    by (auto simp: s1_def tpu_sigs_def held_def reported_def accounted_def ac_simps)
  moreover have "tpu_ok s1" using ok tpu_okD(7) [OF ok Some] by (auto simp: s1_def tpu_ok_def)
  ultimately show ?thesis
    using accounted_callbacks [of "tpu_sigs s1" s1 out] Some it by (simp add: accounted_def s1_def)
qed (simp add: assms)

text \<open>A tasklet is replaced: what it holds less is what is reported or counted as unreported.\<close>

lemma accounted_tasklet:
  assumes "accounted M s" and t: "hm_get (d_tasklet s) tk = Some t" and "tasklet_wf t'"
    and "tasklet_sigs t = tasklet_sigs t' + D"
  shows "\<exists>M0. accounted M0 (s\<lparr>d_tasklet := hm_insert tk t' (d_tasklet s)\<rparr>) \<and> M = M0 + D"
proof -
  have ok: "tpu_ok s" using assms by (simp add: accounted_def)
  let ?s = "s\<lparr>d_tasklet := hm_insert tk t' (d_tasklet s)\<rparr>"
  have "tpu_sigs s = tpu_sigs ?s + D"
    using hm_sum_insert [OF tpu_okD(6) [OF ok], of tasklet_sigs tk t'] t assms(4)
    by (auto simp: tpu_sigs_def held_def reported_def ac_simps)
  moreover have "tpu_ok ?s" using ok tpu_okD(8) [OF ok t] assms(3) by (auto simp: tpu_ok_def)
  ultimately show ?thesis using assms(1) by (auto simp: accounted_def)
qed

lemma tasklet_worker_changed:
  assumes "tasklet_wf t" and "hm_get (tk_worker_set t) tid = Some w"
  shows "tpu_task_sigs w = tpu_task_sigs w' + D \<Longrightarrow>
      tasklet_sigs t = tasklet_sigs (t\<lparr>tk_worker_set := hm_insert tid w' (tk_worker_set t)\<rparr>) + D"
    and "tasklet_sigs t = tasklet_sigs (t\<lparr>tk_worker_set := hm_remove tid (tk_worker_set t)\<rparr>) + tpu_task_sigs w"
  using assms hm_sum_insert [of "tk_worker_set t" tpu_task_sigs tid w'] hm_sum_remove [of "tk_worker_set t" tpu_task_sigs tid]
  by (auto simp: tasklet_wf_def tasklet_sigs_def ac_simps)

lemma tasklet_queue_removed:
  assumes "tasklet_wf t"
  shows "tasklet_sigs t = tasklet_sigs (t\<lparr>tk_tx_queues := hm_remove peer (tk_tx_queues t)\<rparr>) + queue_sigs (queue_of (tk_tx_queues t) peer)"
  using assms queue_sum_remove [of "tk_tx_queues t" peer] by (simp add: tasklet_wf_def tasklet_sigs_def ac_simps)

lemma accounted_detached_step:
  assumes "accounted M s"
  shows "res_ok (accounted M) (tpu_handle env (TpuDetachedStep tk tid answers sel) s)"
proof (cases "hm_get (d_tasklet s) tk")
  case (Some t)
  have wf: "tasklet_wf t" using assms tpu_okD(9) [OF _ Some] by (simp add: accounted_def)
  show ?thesis
  proof (cases "hm_get (tk_worker_set t) tid")
    case w: (Some w)
    obtain w' out where it: "tpu_iterate_task answers sel (te_now env) w = (w', out)" by fastforce
    let ?t = "t\<lparr>tk_worker_set := hm_insert tid w' (tk_worker_set t)\<rparr>"
    obtain M0 where "accounted M0 (s\<lparr>d_tasklet := hm_insert tk ?t (d_tasklet s)\<rparr>)" "M = M0 + tpu_responses_sigs out"
      using accounted_tasklet [OF assms Some _ tasklet_worker_changed(1) [OF wf w tpu_iterate_task_sigs [OF it]]] wf
      by (auto simp: tasklet_wf_def)
    then show ?thesis using accounted_callbacks Some w it by simp
  qed (simp add: Some assms)
qed (simp add: assms)

lemma tasklet_join_worker_accounted:
  assumes "accounted M s" and t: "hm_get (d_tasklet s) tk = Some t" and w: "hm_get (tk_worker_set t) tid = Some w"
    and handed: "tpu_task_sigs w = (case result of Some c \<Rightarrow> tpu_task_sigs (TpuFinished c) | None \<Rightarrow> {#}) + D"
  shows "\<exists>M0. accounted M0 (tasklet_join_worker tk tid result t s) \<and> M = M0 + D"
proof -
  let ?in = "case result of Some c \<Rightarrow> received_then_pending c | None \<Rightarrow> []"
  have wf: "tasklet_wf t" using assms tpu_okD(9) [OF _ t] by (simp add: accounted_def)
  define t1 where "t1 = t\<lparr>tk_worker_set := hm_remove tid (tk_worker_set t)\<rparr>"
  have wf1: "tasklet_wf t1" using wf by (auto simp: t1_def tasklet_wf_def)
  have sigs1: "tasklet_sigs t = tasklet_sigs t1 + (queue_sigs ?in + D)"
    using tasklet_worker_changed(2) [OF wf w] handed by (cases result) (simp_all add: t1_def)
  show ?thesis
  proof (cases "hm_get (tk_worker_meta t1) tid")
    case None
    define s1 where "s1 = s\<lparr>d_tasklet := hm_insert tk t1 (d_tasklet s)\<rparr>"
    obtain M0 where I: "accounted M0 s1" and M: "M = M0 + (queue_sigs ?in + D)"
      using accounted_tasklet [OF assms(1) t wf1 sigs1] unfolding s1_def by blast
    have "hm_get (tk_worker_meta t) tid = None" using None by (simp add: t1_def)
    then have "tasklet_join_worker tk tid result t s = s1\<lparr>d_unreported := d_unreported s1 @ ?in\<rparr>"
      by (simp add: tasklet_join_worker_def Let_def t1_def s1_def)
    then have "accounted (M0 + queue_sigs ?in) (tasklet_join_worker tk tid result t s)"
      using accounted_more [OF I refl, of ?in] by (simp only:)
    moreover have "M = M0 + queue_sigs ?in + D" using M by (simp only: add.assoc)
    ultimately show ?thesis by blast
  next
    case (Some peer)
    let ?q = "queue_of (tk_tx_queues t1) peer"
    define t2 where "t2 = t1\<lparr>tk_worker_meta := hm_remove tid (tk_worker_meta t1), tk_tx_queues := hm_remove peer (tk_tx_queues t1)\<rparr>"
    have "tasklet_sigs t = tasklet_sigs t2 + (queue_sigs (?q @ ?in) + D)"
      using sigs1 tasklet_queue_removed [OF wf1, of peer] by (simp add: t2_def tasklet_sigs_def ac_simps)
    moreover have "tasklet_wf t2" using wf1 by (auto simp: t2_def tasklet_wf_def)
    ultimately obtain M0 where I: "accounted M0 (s\<lparr>d_tasklet := hm_insert tk t2 (d_tasklet s)\<rparr>)"
      and M: "M = M0 + (queue_sigs (?q @ ?in) + D)"
      using accounted_tasklet [OF assms(1) t] by blast
    have "accounted (M0 + queue_sigs (?q @ ?in)) (tasklet_join_worker tk tid result t s)"
      using accounted_callbacks [OF I, of "[TpuTxDrop \<lparr>xd_remote_peer_identity = peer,
        xd_drop_reason = DriverIdentityChanged, xd_dropped_tx_vec = ?q @ ?in\<rparr>]"] Some
      by (simp add: tasklet_join_worker_def Let_def t1_def [symmetric] t2_def [symmetric])
    moreover have "M = M0 + queue_sigs (?q @ ?in) + D" using M by (simp only: add.assoc)
    ultimately show ?thesis by blast
  qed
qed

lemma accounted_detached_join:
  assumes "accounted M s"
  shows "res_ok (accounted M) (tpu_handle env (TpuDetachedJoined tk tid) s)"
    and "res_ok (accounted M) (tpu_handle env (TpuDetachedJoinErr tk tid) s)"
proof -
  have "accounted M (tasklet_join_worker tk tid (Some c) t s)"
    if "hm_get (d_tasklet s) tk = Some t" "hm_get (tk_worker_set t) tid = Some (TpuFinished c)" for t c
    using tasklet_join_worker_accounted [OF assms that, of "Some c" "{#}"] by simp
  then show "res_ok (accounted M) (tpu_handle env (TpuDetachedJoined tk tid) s)"
    using assms by (auto split: option.split tpu_worker_task.split)
  have "accounted M (tasklet_join_worker tk tid None t (s\<lparr>d_unreported := d_unreported s @ tpu_task_txs w\<rparr>))"
    if t: "hm_get (d_tasklet s) tk = Some t" and w: "hm_get (tk_worker_set t) tid = Some w" for t w
  proof -
    let ?s = "s\<lparr>d_unreported := d_unreported s @ tpu_task_txs w\<rparr>"
    have I: "accounted (M + tpu_task_sigs w) ?s" using accounted_more [OF assms refl, of "tpu_task_txs w"] by simp
    have "\<exists>M0. accounted M0 (tasklet_join_worker tk tid None t ?s) \<and> M + tpu_task_sigs w = M0 + tpu_task_sigs w"
      by (rule tasklet_join_worker_accounted [OF I]) (use t w in simp_all)
    then obtain M0 where "accounted M0 (tasklet_join_worker tk tid None t ?s)" "M + tpu_task_sigs w = M0 + tpu_task_sigs w"
      by blast
    then show ?thesis by simp
  qed
  then show "res_ok (accounted M) (tpu_handle env (TpuDetachedJoinErr tk tid) s)"
    using assms by (auto split: option.split)
qed

lemma queue_sigs_concat: "queue_sigs (concat (hm_values qs)) = hm_sum queue_sigs qs"
  by (induction qs) simp_all

lemma accounted_tasklet_joined:
  assumes "accounted M s"
  shows "res_ok (accounted M) (tpu_handle env (TpuTaskletJoined tk) s)"
proof -
  have ok: "tpu_ok s" using assms by (simp add: accounted_def)
  have "accounted M (tpu_handle_tasklet_result tk t (s\<lparr>d_tasklet := hm_remove tk (d_tasklet s)\<rparr>))"
    if t: "hm_get (d_tasklet s) tk = Some t" and no_worker: "tk_worker_set t = []" for t
  proof -
    let ?s = "s\<lparr>d_tasklet := hm_remove tk (d_tasklet s)\<rparr>"
    have "tpu_ok ?s" using ok by (auto simp: tpu_ok_def split: if_splits)
    moreover have "tpu_sigs s = tpu_sigs ?s + hm_sum queue_sigs (tk_tx_queues t)"
      using hm_sum_remove [OF tpu_okD(6) [OF ok], of tasklet_sigs tk] t no_worker
      by (simp add: tpu_sigs_def held_def reported_def tasklet_sigs_def ac_simps)
    ultimately have "accounted (tpu_sigs ?s) ?s" and M: "M = tpu_sigs ?s + queue_sigs (concat (hm_values (tk_tx_queues t)))"
      using assms by (simp_all add: accounted_def queue_sigs_concat)
    then show ?thesis
      unfolding M by (intro accounted_more) (auto simp: tpu_handle_tasklet_result_def core_def)
  qed
  then show ?thesis using assms by (auto split: option.split)
qed

section \<open>Every transaction is accounted for\<close>

fun accepted :: "tpu_event \<Rightarrow> signature multiset" where
  "accepted (TpuTxInlet tx) = {#gt_tx_sig tx#}"
| "accepted _ = {#}"

lemma accounted_handle:
  assumes "accounted M s"
  shows "res_ok (accounted (M + accepted e)) (tpu_handle env e s)"
proof (cases e)
  case (TpuTxInlet tx)
  then show ?thesis using accounted_accept [OF assms] by simp
next
  case (TpuWorkerJoined tid)
  have "res_ok (accounted M) (tpu_handle_worker_completed env tid c (s\<lparr>d_worker_set := hm_remove tid (d_worker_set s)\<rparr>))"
    if t: "hm_get (d_worker_set s) tid = Some (TpuFinished c)" for c
  proof -
    obtain M0 where "M = M0 + tpu_task_sigs (TpuFinished c)" and "accounted M0 (s\<lparr>d_worker_set := hm_remove tid (d_worker_set s)\<rparr>)"
      by (rule accounted_worker_removed [OF assms t])
    then show ?thesis using accounted_worker_completed by (simp add: add.assoc)
  qed
  then show ?thesis using TpuWorkerJoined assms by (auto split: option.split tpu_worker_task.split)
next
  case (TpuWorkerJoinErr tid)
  have "accounted M (s\<lparr>d_worker_set := hm_remove tid (d_worker_set s), d_unreported := d_unreported s @ tpu_task_txs t\<rparr>)"
    if t: "hm_get (d_worker_set s) tid = Some t" for t
  proof -
    obtain M0 where "M = M0 + tpu_task_sigs t" and "accounted M0 (s\<lparr>d_worker_set := hm_remove tid (d_worker_set s)\<rparr>)"
      by (rule accounted_worker_removed [OF assms t])
    then show ?thesis using accounted_more [of M0 _ _ "tpu_task_txs t"] by simp
  qed
  then show ?thesis using TpuWorkerJoinErr assms by (auto intro: accounted_worker_join_err split: option.split)
next
  case TpuPredictionTimer
  then show ?thesis using assms by simp
qed (use account.keeps_handle [OF assms] account.keeps_cnc [OF assms] accounted_tasklet_joined [OF assms]
       accounted_worker_step [OF assms] accounted_detached_step [OF assms] accounted_detached_join [OF assms]
     in \<open>simp_all del: tpu_handle.simps\<close>)

lemma accounted_step:
  assumes "accounted M s"
  shows "res_ok (accounted (M + accepted (snd ev))) (tpu_step plan ev s)"
  using accounted_handle [OF assms, of "snd ev" "fst ev"]
  by (cases ev) (auto simp: tpu_step_def intro: res_ok_bind account.keeps_loop_top)

definition all_accepted :: "(tpu_env \<times> tpu_event) list \<Rightarrow> signature multiset" where
  "all_accepted es = (\<Sum>ev\<leftarrow>es. accepted (snd ev))"

lemma accounted_steps:
  "accounted M s \<Longrightarrow> res_ok (accounted (M + all_accepted es)) (res_fold (tpu_step plan) es s)"
proof (induction es arbitrary: M s)
  case (Cons ev es)
  have "res_ok (accounted (M + all_accepted (ev # es))) (res_fold (tpu_step plan) es s1)"
    if "accounted (M + accepted (snd ev)) s1" for s1
    using Cons.IH [OF that] by (simp add: all_accepted_def add.assoc)
  then show ?case unfolding res_fold.simps by (rule res_ok_bind [OF accounted_step [OF Cons.prems]])
qed (simp add: all_accepted_def)

lemma bind_endpoints_length: "bind_endpoints bind n is = Inr es \<Longrightarrow> length es = length is"
  by (induction "is" arbitrary: es) auto

lemma spawn_on_accounted:
  assumes "tpu_spawn_on bind c me True now = Inr s" and "0 < tc_num_endpoints c" and "0 < tc_worker_channel_capacity c"
  shows "accounted {#} s"
proof -
  have "d_endpoints s \<noteq> []" using assms bind_endpoints_length by (fastforce simp: tpu_spawn_on_def Let_def split: if_splits)
  then show ?thesis
    using assms by (auto simp: tpu_spawn_on_def Let_def accounted_def tpu_ok_def tpu_sigs_def reported_def held_def split: if_splits)
qed

lemma accounted_run:
  assumes "tpu_spawn_on bind c me True now = Inr s0" and "0 < tc_num_endpoints c" and "0 < tc_worker_channel_capacity c"
  shows "res_ok (accounted (all_accepted es)) (tpu_run plan env es s0)"
  unfolding tpu_run_def
proof (rule res_ok_bind [OF account.keeps_loop_top [OF spawn_on_accounted [OF assms]]])
  show "res_ok (accounted (all_accepted es)) (res_fold (tpu_step plan) es s)" if "accounted {#} s" for s
    using accounted_steps [OF that] by simp
qed

section \<open>Properties that do not count\<close>

text \<open>
  A property that does not count transactions is kept wherever they come from and go to: the interface for the two that
  follow, with the events the account has to treat one by one.
\<close>

locale driver_open_invariant = driver_invariant +
  assumes keeps_single: "I s \<Longrightarrow> I (tpu_drop_single_tx peer tx attempt reason s)"
    and keeps_queue_tx: "I s \<Longrightarrow> I (snd (queue_tx_or_drop peer tx attempt s))"
    and keeps_extended: "I s \<Longrightarrow> I (tpu_unreachable_peer peer
      (s\<lparr>d_tx_queues := hm_insert peer (queue_of (d_tx_queues s) peer @ q) (d_tx_queues s)\<rparr>))"
    and keeps_callback: "I s \<Longrightarrow> I (callback_call r s)"
    and keeps_task: "I s \<Longrightarrow> hm_get (d_worker_set s) tid = Some t \<Longrightarrow>
      I (s\<lparr>d_worker_set := hm_insert tid t' (d_worker_set s)\<rparr>)"
    and keeps_forget: "I s \<Longrightarrow>
      I (s\<lparr>d_worker_set := hm_remove tid (d_worker_set s), d_worker_meta := hm_remove tid (d_worker_meta s)\<rparr>)"
begin

lemma keeps_accept:
  assumes "I s"
  shows "res_ok I (tpu_handle env (TpuTxInlet tx) s)"
proof -
  define s1 where "s1 = s\<lparr>d_last_peer_activity := hm_insert (gt_remote_peer tx) (te_now env) (d_last_peer_activity s)\<rparr>"
  have I: "I s1" unfolding s1_def by (rule core_only [OF assms]) (simp add: core_def)
  have queued: "I (snd (queue_tx_or_drop p tx n s1))" for p n by (rule keeps_queue_tx [OF I])
  have dropped: "I (tpu_drop_single_tx p tx n r s1)" for p n r by (rule keeps_single [OF I])
  have sent: "I (s1\<lparr>d_worker_set := hm_insert tid t' (d_worker_set s1)\<rparr>)"
    if room: "tpu_try_send_to cap tx (hm_get (d_worker_set s1) tid) = TpuSendOk t'" for cap tid t'
  proof -
    obtain t where "hm_get (d_worker_set s1) tid = Some t" using room by (cases "hm_get (d_worker_set s1) tid") auto
    then show ?thesis by (rule keeps_task [OF I])
  qed
  have spawned: "res_ok I (tpu_spawn_connecting env p n (snd (queue_tx_or_drop p tx n s1)))" for p n
    by (rule keeps_spawn_connecting [OF queued])
  have "res_ok I (case queue_tx_or_drop p tx 1 s1 of (queued, s2) \<Rightarrow>
      if queued then tpu_spawn_connecting env p 1 s2 else Inr s2)" for p
    using spawned [of p 1] queued [of p 1] by (cases "queue_tx_or_drop p tx 1 s1") simp
  then show ?thesis
    using dropped queued sent
    by (simp add: tpu_accept_tx_def Let_def s1_def [symmetric] split: option.split tpu_try_send.split)
qed

lemma keeps_requeue: "I s \<Longrightarrow> I (requeue_all p q s)"
  unfolding requeue_all_def by (erule fold_keeps) (auto intro: keeps_queue_tx)

lemma keeps_completed:
  assumes "I s" and "hm_get (d_worker_meta s) tid = Some peer"
  shows "res_ok I (tpu_handle_worker_completed env tid c (s\<lparr>d_worker_set := hm_remove tid (d_worker_set s)\<rparr>))"
proof -
  let ?s = "s\<lparr>d_worker_set := hm_remove tid (d_worker_set s)\<rparr>"
  have peer: "hm_get (d_worker_meta ?s) tid = Some peer" using assms(2) by simp
  have "I (?s\<lparr>d_worker_meta := hm_remove tid (d_worker_meta ?s)\<rparr>)" using keeps_forget [OF assms(1)] by simp
  then have I: "I s1" if "core s1 = core (?s\<lparr>d_worker_meta := hm_remove tid (d_worker_meta ?s)\<rparr>)" for s1
    using that by (rule core_only)
  show ?thesis
  proof (rule worker_completed_ends [OF peer, of env c], goal_cases)
    case (1 s1)
    show ?case unfolding 1(2) res_ok_simps by (rule keeps_extended [OF I [OF 1(1)]])
  next
    case (2 s1 evicted)
    show ?case unfolding 2(2) by (rule keeps_rescue [OF keeps_requeue [OF I [OF 2(1)]]])
  qed
qed

lemma keeps_callbacks: "I s \<Longrightarrow> I (fold callback_call rs s)"
  by (erule fold_keeps) (rule keeps_callback)

lemma keeps_worker_step:
  assumes "I s"
  shows "res_ok I (tpu_handle env (TpuWorkerStep tid answers sel) s)"
  using assms keeps_task [OF assms] by (auto intro!: keeps_callbacks split: option.split prod.split)

end

section \<open>Nothing is lost silently\<close>

text \<open>
  Transactions leave without a response in two ways only: through a tasklet, which an identity change starts, and with a
  worker that panicked. Without these the list of unreported transactions stays empty.
\<close>

definition quiet :: "tpu_driver \<Rightarrow> bool" where
  "quiet s \<longleftrightarrow> d_tasklet s = [] \<and> d_unreported s = [] \<and>
     (\<forall>tid t. hm_get (d_worker_set s) tid = Some t \<longrightarrow> hm_get (d_worker_meta s) tid \<noteq> None)"

definition quiet_fields :: "tpu_driver \<Rightarrow> _" where
  "quiet_fields s = (d_tasklet s, d_unreported s, d_worker_set s, d_worker_meta s)"

lemma quiet_cong: "quiet_fields s' = quiet_fields s \<Longrightarrow> quiet s' \<longleftrightarrow> quiet s"
  by (simp add: quiet_fields_def quiet_def)

lemma quiet_fields_drop:
  "quiet_fields (callback_call resp s) = quiet_fields s" "quiet_fields (tpu_drop_single_tx p tx n r s) = quiet_fields s"
  "quiet_fields (s\<lparr>d_tx_queues := q\<rparr>) = quiet_fields s"
  by (simp_all add: quiet_fields_def tpu_drop_single_tx_def)

lemma quiet_fields_queue:
  "quiet_fields (tpu_drop_peer_queued_tx p r s) = quiet_fields s"
  by (cases "hm_get (d_tx_queues s) p") (simp_all add: quiet_fields_drop tpu_drop_peer_queued_tx_def)

lemma quiet_fields_queue_tx:
  "quiet_fields (snd (queue_tx_or_drop p tx n s)) = quiet_fields s"
  by (cases "tc_worker_channel_capacity (d_config s) \<le> length (queue_of (d_tx_queues s) p)")
     (simp_all only: queue_tx_or_drop_def if_True if_False snd_conv quiet_fields_drop)

lemmas quiet_frame [simp] = quiet_fields_drop [THEN quiet_cong] quiet_fields_queue [THEN quiet_cong]
  quiet_fields_queue [of _ TpuRemotePeerUnreachable, folded tpu_unreachable_peer_def, THEN quiet_cong]
  quiet_fields_queue_tx [THEN quiet_cong]

lemma res_ok_conj: "res_ok P r \<Longrightarrow> (\<And>s. r = Inr s \<Longrightarrow> Q s) \<Longrightarrow> res_ok (\<lambda>s. P s \<and> Q s) r"
  by (cases r) simp_all

lemma accounted_self: "tpu_ok s \<Longrightarrow> accounted (tpu_sigs s) s"
  by (simp add: accounted_def)

lemma res_ok_mono: "res_ok P r \<Longrightarrow> (\<And>a. P a \<Longrightarrow> Q a) \<Longrightarrow> res_ok Q r"
  by (cases r) simp_all

lemma res_ok_accounted: "res_ok (accounted M) r \<Longrightarrow> res_ok tpu_ok r"
  by (cases r) (simp_all add: accounted_def)

lemma ok_task:
  "tpu_ok s \<Longrightarrow> hm_get (d_worker_set s) tid = Some t \<Longrightarrow> tpu_ok (s\<lparr>d_worker_set := hm_insert tid t' (d_worker_set s)\<rparr>)"
  using tpu_okD(7) [of s tid t] by (auto simp: tpu_ok_def)

lemma ok_forget:
  "tpu_ok s \<Longrightarrow> tpu_ok (s\<lparr>d_worker_set := hm_remove tid (d_worker_set s), d_worker_meta := hm_remove tid (d_worker_meta s)\<rparr>)"
  by (auto simp: tpu_ok_def split: if_splits)

abbreviation quiet_ok :: "tpu_driver \<Rightarrow> bool" where
  "quiet_ok s \<equiv> tpu_ok s \<and> quiet s"

lemma quiet_install:
  assumes "quiet s" and "tpu_install_worker env peer addr s = Inr s'"
  shows "quiet s'"
proof -
  have "d_tasklet s' = d_tasklet s" "d_unreported s' = d_unreported s"
    "s' = s \<or> s' = tpu_unreachable_peer peer s \<or>
     (\<exists>t. d_worker_set s' = hm_insert (d_next_task_id s) t (d_worker_set s)) \<and>
       d_worker_meta s' = hm_insert (d_next_task_id s) peer (d_worker_meta s)"
    using assms(2)
    by (auto simp: tpu_install_worker_def Let_def tpu_unreachable_peer_def tpu_drop_peer_queued_tx_def
        split: if_splits option.splits)
  then show ?thesis
    using assms(1) by (elim disjE) (simp, simp, auto simp: quiet_def split: if_splits)
qed

lemma quiet_spawn:
  assumes "quiet s" and "spawn_connecting_task peer addr attempt s = Inr s'"
  shows "quiet s'"
  using assms by (auto simp: spawn_connecting_task_def next_endpoint_idx_def quiet_def Let_def split: if_splits)

interpretation quiet: driver_open_invariant quiet_ok
proof
  fix s assume I: "quiet_ok s"
  note acc = accounted_self [OF conjunct1 [OF I]]
  show "core s' = core s \<Longrightarrow> quiet_ok s'" for s'
    using I accounted_core [OF acc] by (simp add: accounted_def quiet_def core_def)
  show "quiet_ok (tpu_drop_peer_queued_tx peer reason s)" for peer reason
    using I accounted_drop [OF acc, of peer reason] by (simp add: accounted_def)
  show "res_ok quiet_ok (tpu_install_worker env peer addr s)" for env peer addr
    using I quiet_install by (intro res_ok_conj res_ok_accounted [OF accounted_install [OF acc]]) blast
  show "res_ok quiet_ok (spawn_connecting_task peer addr attempt s)" for peer addr attempt
    using I quiet_spawn by (intro res_ok_conj res_ok_accounted [OF accounted_spawn [OF acc]]) blast
  show "quiet_ok (tpu_notify_cancel tid s)" for tid
    using I accounted_cancel [OF acc, of tid] by (auto simp: accounted_def tpu_notify_cancel_def quiet_def split: option.split)
  show "quiet_ok (tpu_drop_single_tx peer tx attempt reason s)" for peer tx attempt reason
    using I accounted_drop_single [OF acc, of tx peer attempt reason] by (simp add: accounted_def)
  show "quiet_ok (snd (queue_tx_or_drop peer tx attempt s))" for peer tx attempt
    using I accounted_queue [OF acc, of tx peer attempt] by (simp add: accounted_def)
  show "quiet_ok (tpu_unreachable_peer peer
      (s\<lparr>d_tx_queues := hm_insert peer (queue_of (d_tx_queues s) peer @ q) (d_tx_queues s)\<rparr>))" for peer q
    using I accounted_drop_extended [OF acc, of q peer] by (simp add: accounted_def)
  show "quiet_ok (callback_call r s)" for r using I callback_call_sigs(4) by simp
  show "quiet_ok (s\<lparr>d_worker_set := hm_insert tid t' (d_worker_set s)\<rparr>)" if "hm_get (d_worker_set s) tid = Some t" for tid t t'
    using that I ok_task [of s tid t t'] by (auto simp: quiet_def)
  show "quiet_ok (s\<lparr>d_worker_set := hm_remove tid (d_worker_set s), d_worker_meta := hm_remove tid (d_worker_meta s)\<rparr>)" for tid
    using I ok_forget [of s tid] by (auto simp: quiet_def)
qed

fun may_lose :: "tpu_event \<Rightarrow> bool" where
  "may_lose (TpuCnc _) = True"
| "may_lose (TpuWorkerJoinErr _) = True"
| "may_lose _ = False"

lemma quiet_handle:
  assumes I: "quiet_ok s" and "\<not> may_lose e"
  shows "res_ok quiet_ok (tpu_handle env e s)"
proof (rule res_ok_conj)
  show "res_ok tpu_ok (tpu_handle env e s)"
    by (rule res_ok_accounted [OF accounted_handle [OF accounted_self [OF conjunct1 [OF I]]]])
  have no_tasklet: "hm_get (d_tasklet s) tk = None" for tk using I by (simp add: quiet_def)
  have "res_ok quiet (tpu_handle env e s)"
  proof (cases e)
    case (TpuTxInlet tx)
    then show ?thesis using res_ok_mono [OF quiet.keeps_accept [OF I]] by blast
  next
    case (TpuWorkerJoined tid)
    have "res_ok quiet (tpu_handle_worker_completed env tid c (s\<lparr>d_worker_set := hm_remove tid (d_worker_set s)\<rparr>))"
      if c: "hm_get (d_worker_set s) tid = Some (TpuFinished c)" for c
    proof -
      obtain peer where "hm_get (d_worker_meta s) tid = Some peer" using c I unfolding quiet_def by fastforce
      from quiet.keeps_completed [OF I this] show ?thesis by (rule res_ok_mono) simp
    qed
    then show ?thesis using I TpuWorkerJoined by (auto split: option.split tpu_worker_task.split)
  next
    case (TpuWorkerStep tid answers sel)
    then show ?thesis using res_ok_mono [OF quiet.keeps_worker_step [OF I]] by blast
  next
    case (TpuAddrChanges peers)
    then show ?thesis using res_ok_mono [OF quiet.keeps_handle(4) [OF I]] by blast
  next
    case (TpuConnectingJoined tid result)
    then show ?thesis using res_ok_mono [OF quiet.keeps_handle(2) [OF I]] by blast
  next
    case (TpuConnectingJoinErr tid)
    then show ?thesis using res_ok_mono [OF quiet.keeps_handle(3) [OF I]] by blast
  next
    case TpuOrphanTimer
    then show ?thesis using res_ok_mono [OF quiet.keeps_handle(1) [OF I]] by blast
  qed (use assms no_tasklet in simp_all)
  then show "quiet s'" if "tpu_handle env e s = Inr s'" for s' using that by simp
qed

lemma quiet_steps:
  "quiet_ok s \<Longrightarrow> \<forall>ev \<in> set es. \<not> may_lose (snd ev) \<Longrightarrow> res_ok quiet_ok (res_fold (tpu_step plan) es s)"
proof (rule res_ok_fold)
  fix ev s assume "ev \<in> set es" "quiet_ok s" "\<forall>ev \<in> set es. \<not> may_lose (snd ev)"
  then have "res_ok quiet_ok (tpu_handle (fst ev) (snd ev) s)" using quiet_handle by blast
  then show "res_ok quiet_ok (tpu_step plan ev s)"
    by (cases ev) (auto simp: tpu_step_def intro: res_ok_bind quiet.keeps_loop_top)
qed

text \<open>
  C29. The driver loses no transaction and never panics. With a callback, at least one endpoint and a worker channel
  with room, every sequence of events is handled, and afterwards the transactions accepted are, with their
  multiplicities, those reported to the callback, those still held in queues, workers and tasklets, and those on the
  list of the unreported; no queue is longer than the channel of a worker. The list stays empty unless the identity was
  changed or a worker panicked.
\<close>

theorem tpu_driver_accounts_for_every_transaction:
  assumes "tpu_spawn_on bind c me True now = Inr s0" and "0 < tc_num_endpoints c" and "0 < tc_worker_channel_capacity c"
  shows "\<exists>s. tpu_run plan env es s0 = Inr s \<and>
    all_accepted es = reported s + held s + queue_sigs (d_unreported s) \<and>
    (\<forall>peer q. hm_get (d_tx_queues s) peer = Some q \<longrightarrow> length q \<le> tc_worker_channel_capacity (d_config s)) \<and>
    ((\<forall>ev \<in> set es. \<not> may_lose (snd ev)) \<longrightarrow> d_unreported s = [])"
proof -
  obtain s where s: "tpu_run plan env es s0 = Inr s" and acc: "accounted (all_accepted es) s"
    using res_okD [OF accounted_run [OF assms]] by blast
  have "quiet_ok s0"
    using spawn_on_accounted [OF assms] assms(1)
    by (auto simp: accounted_def quiet_def tpu_spawn_on_def Let_def split: if_splits)
  then have "res_ok quiet_ok (tpu_run plan env es s0)" if "\<forall>ev \<in> set es. \<not> may_lose (snd ev)"
    unfolding tpu_run_def using that by (intro res_ok_bind [OF quiet.keeps_loop_top] quiet_steps)
  then have "(\<forall>ev \<in> set es. \<not> may_lose (snd ev)) \<longrightarrow> d_unreported s = []" using s by (auto simp: quiet_def)
  moreover have "all_accepted es = reported s + held s + queue_sigs (d_unreported s)"
    using acc by (simp add: accounted_def tpu_sigs_def)
  moreover have "length q \<le> tc_worker_channel_capacity (d_config s)" if "hm_get (d_tx_queues s) peer = Some q" for peer q
    using acc tpu_okD(10) [OF _ that] by (simp add: accounted_def)
  ultimately show ?thesis using s by blast
qed

section \<open>A change of identity drops queues\<close>

definition parked :: "task_id \<Rightarrow> pubkey \<Rightarrow> tx_queue \<Rightarrow> tpu_driver \<Rightarrow> bool" where
  "parked tk peer q s \<longleftrightarrow> tk < d_next_task_id s \<and>
     ((\<exists>t. hm_get (d_tasklet s) tk = Some t \<and> hm_get (tk_tx_queues t) peer = Some q \<and>
           (\<forall>tid. hm_get (tk_worker_meta t) tid \<noteq> Some peer)) \<or>
      set q \<subseteq> set (d_unreported s))"

lemma parked_frame:
  assumes "parked tk peer q s" and "d_next_task_id s \<le> d_next_task_id s'" and "hm_get (d_tasklet s') tk = hm_get (d_tasklet s) tk"
    and "set (d_unreported s) \<subseteq> set (d_unreported s')"
  shows "parked tk peer q s'"
  using assms unfolding parked_def by auto

lemma drop_fields:
  "d_next_task_id (tpu_drop_peer_queued_tx p r s) = d_next_task_id s"
  "d_tasklet (tpu_drop_peer_queued_tx p r s) = d_tasklet s"
  "d_unreported (tpu_drop_peer_queued_tx p r s) = d_unreported s"
  by (cases "hm_get (d_tx_queues s) p"; simp add: tpu_drop_peer_queued_tx_def)+

abbreviation parked_ok :: "task_id \<Rightarrow> pubkey \<Rightarrow> tx_queue \<Rightarrow> tpu_driver \<Rightarrow> bool" where
  "parked_ok tk peer q s \<equiv> tpu_ok s \<and> parked tk peer q s"

lemma parked_install:
  assumes "parked tk peer q s" and "tpu_install_worker env p addr s = Inr s'"
  shows "parked tk peer q s'"
  using assms(2) by (intro parked_frame [OF assms(1)]) (auto simp: tpu_install_worker_def tpu_unreachable_peer_def drop_fields Let_def split: if_splits option.splits)

lemma parked_spawn:
  assumes "parked tk peer q s" and "spawn_connecting_task p addr attempt s = Inr s'"
  shows "parked tk peer q s'"
  using assms(2) by (intro parked_frame [OF assms(1)]) (auto simp: spawn_connecting_task_def next_endpoint_idx_def Let_def split: if_splits)

interpretation parked: driver_identity_invariant "parked_ok tk peer q" for tk peer q
proof
  fix s assume I: "parked_ok tk peer q s"
  note acc = accounted_self [OF conjunct1 [OF I]]
  show "core s' = core s \<Longrightarrow> parked_ok tk peer q s'" for s'
    using I accounted_core [OF acc] by (simp add: accounted_def parked_def core_def)
  show "parked_ok tk peer q (tpu_drop_peer_queued_tx p reason s)" for p reason
    using I accounted_drop [OF acc, of p reason] by (simp add: accounted_def parked_def drop_fields)
  show "res_ok (parked_ok tk peer q) (tpu_install_worker env p addr s)" for env p addr
    using I parked_install by (intro res_ok_conj res_ok_accounted [OF accounted_install [OF acc]]) blast
  show "res_ok (parked_ok tk peer q) (spawn_connecting_task p addr attempt s)" for p addr attempt
    using I parked_spawn by (intro res_ok_conj res_ok_accounted [OF accounted_spawn [OF acc]]) blast
  show "parked_ok tk peer q (tpu_notify_cancel tid s)" for tid
    using I accounted_cancel [OF acc, of tid] by (auto simp: accounted_def tpu_notify_cancel_def parked_def split: option.split)
  have "tk < d_next_task_id s" using I by (simp add: parked_def)
  then show "parked_ok tk peer q (tpu_schedule_graceful_drop_all_worker s)"
    using I accounted_graceful [OF acc]
    by (auto simp: accounted_def tpu_schedule_graceful_drop_all_worker_def intro: parked_frame [of tk peer q s])
qed

lemma queue_tx_fields:
  "d_next_task_id (snd (queue_tx_or_drop p tx n s)) = d_next_task_id s"
  "d_tasklet (snd (queue_tx_or_drop p tx n s)) = d_tasklet s"
  "d_unreported (snd (queue_tx_or_drop p tx n s)) = d_unreported s"
  by (auto simp: queue_tx_or_drop_def tpu_drop_single_tx_def)

interpretation parked_open: driver_open_invariant "parked_ok tk peer q" for tk peer q
proof unfold_locales
  fix s assume I: "parked_ok tk peer q s"
  note acc = accounted_self [OF conjunct1 [OF I]]
  show "parked_ok tk peer q (tpu_drop_single_tx p tx attempt reason s)" for p tx attempt reason
    using I accounted_drop_single [OF acc, of tx p attempt reason] by (simp add: accounted_def parked_def tpu_drop_single_tx_def)
  show "parked_ok tk peer q (snd (queue_tx_or_drop p tx attempt s))" for p tx attempt
    using I accounted_queue [OF acc, of tx p attempt] by (simp add: accounted_def parked_def queue_tx_fields)
  show "parked_ok tk peer q (tpu_unreachable_peer p
      (s\<lparr>d_tx_queues := hm_insert p (queue_of (d_tx_queues s) p @ q') (d_tx_queues s)\<rparr>))" for p q'
    using I accounted_drop_extended [OF acc, of q' p] by (simp add: accounted_def parked_def tpu_unreachable_peer_def drop_fields)
  show "parked_ok tk peer q (callback_call r s)" for r using I callback_call_sigs(4) by (simp add: parked_def)
  show "parked_ok tk peer q (s\<lparr>d_worker_set := hm_insert tid t' (d_worker_set s)\<rparr>)"
    if "hm_get (d_worker_set s) tid = Some t" for tid t t'
    using that I ok_task [of s tid t t'] by (simp add: parked_def)
  show "parked_ok tk peer q (s\<lparr>d_worker_set := hm_remove tid (d_worker_set s), d_worker_meta := hm_remove tid (d_worker_meta s)\<rparr>)" for tid
    using I ok_forget [of s tid] by (simp add: parked_def)
qed

lemma parked_tasklet_update:
  assumes "parked tk peer q s" and "hm_get (d_tasklet s) tk' = Some t"
    and "hm_get (tk_tx_queues t') peer = hm_get (tk_tx_queues t) peer \<or> (\<exists>tid. hm_get (tk_worker_meta t) tid = Some peer)"
    and "\<And>tid. hm_get (tk_worker_meta t') tid = Some peer \<Longrightarrow> hm_get (tk_worker_meta t) tid = Some peer"
  shows "parked tk peer q (s\<lparr>d_tasklet := hm_insert tk' t' (d_tasklet s), d_unreported := d_unreported s @ u\<rparr>)"
  using assms unfolding parked_def by (cases "tk = tk'") fastforce+

lemma parked_join_worker:
  assumes "parked tk peer q s" and "hm_get (d_tasklet s) tk' = Some t"
  shows "parked tk peer q (tasklet_join_worker tk' tid result t s)"
proof (cases "hm_get (tk_worker_meta t) tid")
  case None
  then show ?thesis using assms
    by (simp add: tasklet_join_worker_def Let_def) (rule parked_tasklet_update, auto)
next
  case (Some p)
  let ?t = "t\<lparr>tk_worker_set := hm_remove tid (tk_worker_set t), tk_worker_meta := hm_remove tid (tk_worker_meta t),
    tk_tx_queues := hm_remove p (tk_tx_queues t)\<rparr>"
  have "parked tk peer q (s\<lparr>d_tasklet := hm_insert tk' ?t (d_tasklet s), d_unreported := d_unreported s @ []\<rparr>)"
    by (rule parked_tasklet_update [OF assms]) (use Some in \<open>auto split: if_splits\<close>)
  then show ?thesis by (simp add: tasklet_join_worker_def Let_def Some parked_def)
qed

lemma parked_handle:
  assumes I: "parked_ok tk peer q s"
  shows "res_ok (parked_ok tk peer q) (tpu_handle env e s)"
proof (rule res_ok_conj)
  have P: "parked tk peer q s" using I by blast
  show "res_ok tpu_ok (tpu_handle env e s)"
    by (rule res_ok_accounted [OF accounted_handle [OF accounted_self [OF conjunct1 [OF I]]]])
  note weaken = res_ok_mono [of "parked_ok tk peer q" _ "parked tk peer q"]
  have "res_ok (parked tk peer q) (tpu_handle env e s)"
  proof (cases e)
    case (TpuWorkerJoined tid)
    have "res_ok (parked tk peer q) (tpu_handle_worker_completed env tid c (s\<lparr>d_worker_set := hm_remove tid (d_worker_set s)\<rparr>))" for c
    proof (cases "hm_get (d_worker_meta s) tid")
      case None
      then show ?thesis using P by (auto simp: tpu_handle_worker_completed_def parked_def)
    qed (rule weaken [OF parked_open.keeps_completed [OF I]], simp_all)
    then show ?thesis using P TpuWorkerJoined by (auto split: option.split tpu_worker_task.split)
  next
    case (TpuWorkerJoinErr tid)
    then show ?thesis using P
      by (auto simp: tpu_handle_worker_join_err_def tpu_unreachable_peer_def drop_fields parked_def split: option.split)
  next
    case (TpuTaskletJoined tk')
    have "parked tk peer q (tpu_handle_tasklet_result tk' t (s\<lparr>d_tasklet := hm_remove tk' (d_tasklet s)\<rparr>))"
      if "hm_get (d_tasklet s) tk' = Some t" for t
    proof -
      have "set q \<subseteq> set (concat (hm_values qs))" if "hm_get qs peer = Some q" for qs using map_of_SomeD [OF that] by force
      then show ?thesis using P that by (cases "tk' = tk") (auto simp: parked_def tpu_handle_tasklet_result_def)
    qed
    then show ?thesis using P TpuTaskletJoined by (auto split: option.split)
  next
    case (TpuDetachedStep tk' tid answers sel)
    have upd: "parked tk peer q (s\<lparr>d_tasklet := hm_insert tk' (t\<lparr>tk_worker_set := ws\<rparr>) (d_tasklet s)\<rparr>)"
      if "hm_get (d_tasklet s) tk' = Some t" for t ws
      using parked_tasklet_update [OF P that, of "t\<lparr>tk_worker_set := ws\<rparr>" "[]"] by (simp add: parked_def)
    have "parked tk peer q (fold callback_call out s')" if "parked tk peer q s'" for out s'
      using that by (rule fold_keeps) (simp add: parked_def)
    then show ?thesis using P TpuDetachedStep upd by (auto split: option.split prod.split)
  next
    case (TpuDetachedJoined tk' tid)
    then show ?thesis using P parked_join_worker [OF P] by (auto split: option.split tpu_worker_task.split)
  next
    case (TpuDetachedJoinErr tk' tid)
    have "parked tk peer q (s\<lparr>d_unreported := d_unreported s @ u\<rparr>)" for u by (rule parked_frame [OF P]) auto
    then show ?thesis using P TpuDetachedJoinErr by (auto intro: parked_join_worker split: option.split)
  next
    case TpuPredictionTimer
    then show ?thesis using P by simp
  qed (use parked.keeps_handle [OF I, THEN weaken] parked.keeps_cnc [OF I, THEN weaken]
         parked_open.keeps_accept [OF I, THEN weaken] parked_open.keeps_worker_step [OF I, THEN weaken]
       in \<open>simp_all del: tpu_handle.simps\<close>)
  then show "parked tk peer q s'" if "tpu_handle env e s = Inr s'" for s' using that by simp
qed

lemma parked_step: "parked_ok tk peer q s \<Longrightarrow> res_ok (parked_ok tk peer q) (tpu_step plan ev s)"
  by (cases ev) (auto simp: tpu_step_def intro: res_ok_bind parked_handle parked.keeps_loop_top)

text \<open>
  C30. A change of identity loses queued transactions without a response. The queues of all peers are handed to the task
  that winds the old workers down, but it answers only for peers that have a worker: when it ends, the queue of a peer that
  was still being connected to is dropped, whatever happens in between, although the driver goes on connecting to that
  peer under the new identity.
\<close>

theorem identity_change_drops_queues_silently:
  assumes "tpu_ok s" and "hm_get (d_tx_queues s) peer = Some q" and "\<And>tid. hm_get (d_worker_meta s) tid \<noteq> Some peer"
    and "tpu_update_identity env new_identity s = Inr s1" and "res_fold (tpu_step plan) es s1 = Inr s2"
    and "hm_get (d_tasklet s2) (d_next_task_id s) = None"
  shows "set q \<subseteq> set (d_unreported s2)"
proof -
  let ?s = "tpu_schedule_graceful_drop_all_worker s"
  have ok: "tpu_ok ?s" using accounted_graceful [OF accounted_self [OF assms(1)]] by (simp add: accounted_def)
  have "parked_ok (d_next_task_id s) peer q ?s"
    using ok assms(2,3) by (simp add: parked_def tpu_schedule_graceful_drop_all_worker_def)
  from parked.keeps_replay [OF this] have "parked_ok (d_next_task_id s) peer q s1" using assms(4) by (metis res_ok_simps(1))
  then have "res_ok (parked_ok (d_next_task_id s) peer q) (res_fold (tpu_step plan) es s1)"
    by (rule res_ok_fold) (rule parked_step)
  then show ?thesis using assms(5,6) by (simp add: parked_def)
qed

section \<open>Witnesses\<close>

abbreviation ex_tpu_service :: "nat \<Rightarrow> tpu_info_service" where
  "ex_tpu_service port \<equiv> \<lparr>get_quic_tpu_socket_addr = (\<lambda>_. Some (SocketAddr 1 port)),
     get_quic_tpu_fwd_socket_addr = (\<lambda>_. Some (SocketAddr 1 port))\<rparr>"

abbreviation ex_tpu_env :: "instant \<Rightarrow> tpu_env" where
  "ex_tpu_env now \<equiv> \<lparr>te_now = now, te_stake = (\<lambda>_. Some 10), te_predict = (\<lambda>_. []), te_service = ex_tpu_service 8000\<rparr>"

definition ex_tpu_config :: tpu_config where
  "ex_tpu_config = (tpu_config_default (8000, 10000))\<lparr>tc_num_endpoints := 1, tc_leader_prediction_lookahead := None\<rparr>"

definition ex_tpu_start :: tpu_driver where
  "ex_tpu_start = (case tpu_spawn_on (\<lambda>i j. Some j) ex_tpu_config (Pubkey 100) True 0 of Inr s \<Rightarrow> s)"

lemma ex_tpu_spawn: "tpu_spawn_on (\<lambda>i j. Some j) ex_tpu_config (Pubkey 100) True 0 = Inr ex_tpu_start"
  by (simp add: ex_tpu_start_def tpu_spawn_on_def ex_tpu_config_def tpu_config_default_def upt_rec map_filter_simps)

theorem tpu_driver_accounts_for_every_transaction_witness:
  "\<exists>s. tpu_run (stake_based_plan 800) (ex_tpu_env 0) [(ex_tpu_env 1, TpuTxInlet (ex_gtx 1))] ex_tpu_start = Inr s \<and>
     {#Signature 1#} = reported s + held s"
  using tpu_driver_accounts_for_every_transaction [OF ex_tpu_spawn, of "stake_based_plan 800" "ex_tpu_env 0"
      "[(ex_tpu_env 1, TpuTxInlet (ex_gtx 1))]"]
  by (auto simp: ex_tpu_config_def tpu_config_default_def all_accepted_def)

lemmas tpu_eval = tpu_step_def tpu_accept_tx_def tpu_loop_top_def tpu_do_eviction_if_required_def
  tpu_try_predict_upcoming_leaders_if_necessary_def arm_sleep_timer_def next_orphan_connection_expiration_def
  orphan_oldest_def orphan_default_def transaction_size_rule queue_tx_or_drop_def tpu_spawn_connecting_def
  spawn_connecting_task_def next_endpoint_idx_def tpu_has_connection_capacity_def evictions_contains_addr_def
  evictions_default_def tpu_update_identity_def tpu_schedule_graceful_drop_all_worker_def connecting_attempts_def
  orphan_clear_def evictions_clear_def tpu_handle_tasklet_result_def evictions_len_def Let_def

lemma ex_tpu_start_eq: "ex_tpu_start = \<lparr>d_config = ex_tpu_config, d_worker_handles = [], d_active_peers = peers_default,
  d_worker_meta = [], d_worker_set = [], d_tx_queues = [], d_endpoints = [0], d_connecting_tasks = [],
  d_connecting_meta = [], d_connecting_peers = [], d_connecting_addrs = [], d_identity = Pubkey 100,
  d_response_outlet = Some [], d_tasklet = [], d_tasklet_meta = [], d_last_peer_activity = [], d_being_evicted = {},
  d_blocked = [], d_watcher_out = [], d_prediction_deadline = 0, d_connection_map = [], d_connection_version = 0,
  d_endpoint_sequence = 0, d_pending_eviction = evictions_default, d_active_addrs = peers_default,
  d_orphans = orphan_default, d_sleep_timer = None, d_next_task_id = 0, d_closed = [], d_unreported = []\<rparr>"
  by (simp add: ex_tpu_start_def tpu_spawn_on_def ex_tpu_config_def tpu_config_default_def upt_rec map_filter_simps)

lemma ex_config: "tc_worker_channel_capacity ex_tpu_config = 10000" "tc_tpu_port ex_tpu_config = Forwards"
  "tc_leader_prediction_lookahead ex_tpu_config = None" "\<not> tc_unsafe_allow_arbitrary_txn_size ex_tpu_config"
  "tc_max_concurrent_connection ex_tpu_config = 1024" "tc_orphan_connection_ttl ex_tpu_config = 10000000000"
  by (simp_all add: ex_tpu_config_def tpu_config_default_def)


text \<open>A transaction has arrived for a peer the driver is now connecting to; then the identity changes.\<close>

definition ex_tpu_queued :: tpu_driver where
  "ex_tpu_queued = ex_tpu_start
     \<lparr>d_last_peer_activity := [(Pubkey 1, 1)], d_tx_queues := [(Pubkey 1, [(ex_gtx 1, 1)])],
      d_connecting_tasks := [(0, False)], d_connecting_peers := [(Pubkey 1, 0)],
      d_connecting_meta := [(0, \<lparr>tm_current_client_identity = Pubkey 100, tm_multiplexed_peers = [Pubkey 1],
        tm_remote_peer_address = SocketAddr 1 8000, tm_connection_attempt = 1\<rparr>)],
      d_connecting_addrs := [(SocketAddr 1 8000, 0)], d_next_task_id := 1, d_prediction_deadline := 1 + tpu_forever\<rparr>"

lemma ex_tpu_queued_reached:
  "tpu_step (stake_based_plan 800) (ex_tpu_env 1, TpuTxInlet (ex_gtx 1)) ex_tpu_start = Inr ex_tpu_queued"
  by (simp add: ex_tpu_queued_def tpu_eval ex_tpu_start_eq ex_config del: res_bind_eq_Inr)

lemma ex_tpu_queued_ok: "tpu_ok ex_tpu_queued"
  using accounted_step [OF spawn_on_accounted [OF ex_tpu_spawn], of "(ex_tpu_env 1, TpuTxInlet (ex_gtx 1))" "stake_based_plan 800"]
  unfolding ex_tpu_queued_reached by (simp add: accounted_def ex_tpu_config_def tpu_config_default_def)

definition ex_tpu_renamed :: tpu_driver where
  "ex_tpu_renamed = ex_tpu_queued
     \<lparr>d_tx_queues := [], d_identity := Pubkey 200, d_connecting_tasks := [(2, False)], d_connecting_peers := [(Pubkey 1, 2)],
      d_connecting_meta := [(2, \<lparr>tm_current_client_identity = Pubkey 200, tm_multiplexed_peers = [Pubkey 1],
        tm_remote_peer_address = SocketAddr 1 8000, tm_connection_attempt = 1\<rparr>)],
      d_connecting_addrs := [(SocketAddr 1 8000, 2)], d_next_task_id := 3,
      d_tasklet := [(1, \<lparr>tk_worker_meta = [], tk_worker_set = [], tk_tx_queues = [(Pubkey 1, [(ex_gtx 1, 1)])]\<rparr>)],
      d_tasklet_meta := [1]\<rparr>"

lemma ex_tpu_update: "tpu_update_identity (ex_tpu_env 2) (Pubkey 200) ex_tpu_queued = Inr ex_tpu_renamed"
  by (simp add: ex_tpu_renamed_def ex_tpu_queued_def tpu_eval ex_tpu_start_eq ex_config peers_default_def staked_clear_def del: res_bind_eq_Inr)

definition ex_tpu_wound_down :: tpu_driver where
  "ex_tpu_wound_down = ex_tpu_renamed\<lparr>d_tasklet := [], d_tasklet_meta := [], d_unreported := [(ex_gtx 1, 1)]\<rparr>"

lemma ex_tpu_tasklet:
  "res_fold (tpu_step (stake_based_plan 800)) [(ex_tpu_env 3, TpuTaskletJoined 1)] ex_tpu_renamed = Inr ex_tpu_wound_down"
  by (simp add: ex_tpu_wound_down_def ex_tpu_renamed_def ex_tpu_queued_def tpu_eval ex_tpu_start_eq ex_config tpu_forever_def del: res_bind_eq_Inr)

theorem identity_change_drops_queues_silently_witness:
  "set [(ex_gtx 1, 1)] \<subseteq> set (d_unreported ex_tpu_wound_down) \<and> d_response_outlet ex_tpu_wound_down = Some []"
proof
  show "d_response_outlet ex_tpu_wound_down = Some []"
    by (simp add: ex_tpu_wound_down_def ex_tpu_renamed_def ex_tpu_queued_def ex_tpu_start_eq)
  show "set [(ex_gtx 1, 1)] \<subseteq> set (d_unreported ex_tpu_wound_down)"
    by (rule identity_change_drops_queues_silently [OF ex_tpu_queued_ok _ _ ex_tpu_update ex_tpu_tasklet])
       (simp_all add: ex_tpu_wound_down_def ex_tpu_queued_def ex_tpu_start_eq)
qed

end
