(* ===== verification/Tpu_Driver_Conn.thy ===== *)
theory Tpu_Driver_Conn
  imports Tpu_Driver_Flow
begin

text \<open>
  The connections of the driver of the TPU client (\<open>Tpu_Driver\<close>): which worker uses which connection, what becomes of a
  connection that was lost, and what unused connections do to evictions.

  The code tags every connection with a version \<open>to assert that it did not create any orphan worker\<close>. The invariant \<open>conn_inv\<close>
  says what the tag stands for: the worker of a peer uses the connection that is in the map under its address, and is
  listed among its peers. The other theorems are about the two ways connections live longer than they are useful.
\<close>

section \<open>Every worker has its connection\<close>

definition task_conn :: "(task_id, tpu_worker_task) hmap \<Rightarrow> task_id \<Rightarrow> quinn_connection option" where
  "task_conn ws =
     (\<lambda>tid. case hm_get ws tid of Some (TpuRunning conn _ _ _) \<Rightarrow> Some conn | _ \<Rightarrow> None)"

definition uses_connection ::
  "(task_id, tpu_worker_task) hmap \<Rightarrow> pubkey \<Rightarrow> tpu_worker_handle \<Rightarrow> active_connection \<Rightarrow> bool" where
  "uses_connection ws peer h c \<longleftrightarrow>
     ac_connection_version c = th_connection_version h \<and> hm_contains (ac_multiplexed c) peer \<and>
     (task_conn ws (th_task h) = None \<or> task_conn ws (th_task h) = Some (ac_conn c))"

definition handles_ok :: "tpu_driver \<Rightarrow> bool" where
  "handles_ok s \<longleftrightarrow>
     (\<forall>peer h. hm_get (d_worker_handles s) peer = Some h \<longrightarrow> th_task h < d_next_task_id s \<and>
        (\<exists>c. hm_get (d_connection_map s) (th_remote_peer_addr h) = Some c \<and> uses_connection (d_worker_set s) peer h c))"

text \<open>An address is being connected to by one task, and only while there is no connection to it.\<close>

definition metas_ok :: "tpu_driver \<Rightarrow> bool" where
  "metas_ok s \<longleftrightarrow>
     (\<forall>tid m. hm_get (d_connecting_meta s) tid = Some m \<longrightarrow>
        hm_get (d_connecting_addrs s) (tm_remote_peer_address m) = Some tid \<and>
        hm_get (d_connection_map s) (tm_remote_peer_address m) = None)"

definition conn_inv :: "tpu_driver \<Rightarrow> bool" where
  "conn_inv s \<longleftrightarrow> handles_ok s \<and> metas_ok s"

definition conn_fields :: "tpu_driver \<Rightarrow> _" where
  "conn_fields s = (d_worker_handles s, d_connection_map s, d_connecting_meta s, d_connecting_addrs s, d_next_task_id s,
     task_conn (d_worker_set s))"

lemma conn_fewer_tasks:
  assumes "conn_inv s" and "conn_fields s' = conn_fields (s\<lparr>d_worker_set := d_worker_set s'\<rparr>)"
    and "\<And>tid. task_conn (d_worker_set s') tid = None \<or> task_conn (d_worker_set s') tid = task_conn (d_worker_set s) tid"
  shows "conn_inv s'"
proof -
  have "uses_connection (d_worker_set s) p h c \<Longrightarrow> uses_connection (d_worker_set s') p h c" for p h c
    using assms(3) [of "th_task h"] by (auto simp: uses_connection_def)
  then show ?thesis
    using assms(1,2) by (simp add: conn_inv_def handles_ok_def metas_ok_def conn_fields_def) blast
qed

lemma conn_cong: "conn_inv s \<Longrightarrow> conn_fields s' = conn_fields s \<Longrightarrow> conn_inv s'"
  by (simp add: conn_inv_def handles_ok_def metas_ok_def conn_fields_def uses_connection_def)

lemma conn_fields_cancel [simp]: "conn_fields (tpu_notify_cancel tid s) = conn_fields s"
proof (cases "hm_get (d_worker_set s) tid")
  case (Some t)
  then show ?thesis by (cases t) (auto simp: tpu_notify_cancel_def conn_fields_def task_conn_def fun_eq_iff)
qed (simp add: tpu_notify_cancel_def)

lemma conn_fields_simps [simp]:
  "conn_fields (callback_call r s) = conn_fields s" "conn_fields (tpu_drop_peer_queued_tx p reason s) = conn_fields s"
  "conn_fields (tpu_unreachable_peer p s) = conn_fields s" "conn_fields (tpu_drop_single_tx p tx n reason s) = conn_fields s"
  "conn_fields (tpu_notify_task tid s) = conn_fields s"
  "conn_fields (tpu_unblock_eviction_waiting_connection s) = conn_fields s"
  by (simp_all add: conn_fields_def callback_call_def tpu_drop_peer_queued_tx_def tpu_unreachable_peer_def
      tpu_drop_single_tx_def tpu_notify_task_def tpu_unblock_eviction_waiting_connection_def
      split: option.split list.split)

lemma conn_fields_other [simp]:
  "conn_fields (s\<lparr>d_tx_queues := q\<rparr>) = conn_fields s" "conn_fields (s\<lparr>d_last_peer_activity := a\<rparr>) = conn_fields s"
  "conn_fields (s\<lparr>d_unreported := u\<rparr>) = conn_fields s"
  "conn_fields (s\<lparr>d_orphans := x\<rparr>) = conn_fields s" "conn_fields (s\<lparr>d_tasklet := y\<rparr>) = conn_fields s"
  "conn_fields (s\<lparr>d_sleep_timer := z\<rparr>) = conn_fields s" "conn_fields (s\<lparr>d_connecting_tasks := t\<rparr>) = conn_fields s"
  "conn_fields (s\<lparr>d_pending_eviction := e\<rparr>) = conn_fields s" "conn_fields (s\<lparr>d_prediction_deadline := d\<rparr>) = conn_fields s"
  by (simp_all add: conn_fields_def)

lemma conn_fields_queue [simp]: "conn_fields (snd (queue_tx_or_drop p tx n s)) = conn_fields s"
  by (simp add: queue_tx_or_drop_def)

lemma conn_fields_fold: "(\<And>x s. conn_fields (f x s) = conn_fields s) \<Longrightarrow> conn_fields (fold f xs s) = conn_fields s"
  by (induction xs arbitrary: s) simp_all

lemma conn_fields_requeue [simp]: "conn_fields (requeue_all p q s) = conn_fields s"
  unfolding requeue_all_def by (rule conn_fields_fold) (auto split: prod.split)

lemma conn_fields_evictions: "conn_fields (fst (fold tpu_evict_peer ps sc)) = conn_fields (fst sc)"
proof (induction ps arbitrary: sc)
  case (Cons p ps)
  have "conn_fields (fst (tpu_evict_peer p sc)) = conn_fields (fst sc)"
    by (auto simp: tpu_evict_peer_def conn_fields_def Let_def split: prod.splits option.split)
  then show ?case using Cons.IH by simp
qed simp

lemma conn_install:
  assumes "conn_inv s" and "tpu_install_worker env peer addr s = Inr s'"
  shows "conn_inv s'"
proof (cases "hm_contains (d_worker_handles s) peer \<or> hm_get (d_connection_map s) addr = None")
  case True
  then have "s' = s \<or> s' = tpu_unreachable_peer peer s"
    using assms(2) by (auto simp: tpu_install_worker_def split: if_splits)
  then show ?thesis using assms(1) conn_cong [OF assms(1)] by auto
next
  case False
  then obtain c where c: "hm_get (d_connection_map s) addr = Some c" by auto
  define st where "st = (case te_stake env peer of None \<Rightarrow> 0 | Some x \<Rightarrow> x)"
  define c' where "c' = c\<lparr>ac_multiplexed := hm_insert peer st (ac_multiplexed c)\<rparr>"
  have fields: "d_worker_handles s' = hm_insert peer \<lparr>th_remote_peer_addr = addr,
      th_connection_version = ac_connection_version c, th_task = d_next_task_id s\<rparr> (d_worker_handles s)"
    "d_connection_map s' = hm_insert addr c' (d_connection_map s)"
    "d_connecting_meta s' = d_connecting_meta s" "d_connecting_addrs s' = d_connecting_addrs s"
    "d_next_task_id s' = Suc (d_next_task_id s)"
    "task_conn (d_worker_set s') = (task_conn (d_worker_set s))(d_next_task_id s \<mapsto> ac_conn c)"
    using assms(2) False c
    by (auto simp: tpu_install_worker_def Let_def c'_def st_def task_conn_def tpu_worker_start_def fun_eq_iff split: if_splits)
  have "handles_ok s'"
    unfolding handles_ok_def
  proof (intro allI impI)
    fix p h assume h: "hm_get (d_worker_handles s') p = Some h"
    show "th_task h < d_next_task_id s' \<and> (\<exists>c. hm_get (d_connection_map s') (th_remote_peer_addr h) = Some c \<and>
        uses_connection (d_worker_set s') p h c)"
    proof (cases "p = peer")
      case True
      then show ?thesis using h by (auto simp: fields c'_def uses_connection_def)
    next
      case False
      then have "hm_get (d_worker_handles s) p = Some h" using h by (simp add: fields)
      then obtain e where "hm_get (d_connection_map s) (th_remote_peer_addr h) = Some e"
        "uses_connection (d_worker_set s) p h e" "th_task h < d_next_task_id s"
        using assms(1) unfolding conn_inv_def handles_ok_def by blast
      then show ?thesis
        using c by (cases "th_remote_peer_addr h = addr") (auto simp: fields c'_def uses_connection_def)
    qed
  qed
  moreover have "metas_ok s'" using assms(1) c unfolding conn_inv_def metas_ok_def fields by fastforce
  ultimately show ?thesis by (simp add: conn_inv_def)
qed

lemma conn_spawn_task:
  assumes "conn_inv s" and "spawn_connecting_task peer addr attempt s = Inr s'"
    and "hm_get (d_connection_map s) addr = None"
    and "\<And>tid m. hm_get (d_connecting_meta s) tid = Some m \<Longrightarrow> tm_remote_peer_address m \<noteq> addr"
  shows "conn_inv s'"
proof -
  obtain m where fields: "d_worker_handles s' = d_worker_handles s" "d_connection_map s' = d_connection_map s"
    "d_connecting_meta s' = hm_insert (d_next_task_id s) m (d_connecting_meta s)" "tm_remote_peer_address m = addr"
    "d_connecting_addrs s' = hm_insert addr (d_next_task_id s) (d_connecting_addrs s)"
    "d_next_task_id s' = Suc (d_next_task_id s)" "d_worker_set s' = d_worker_set s"
    using assms(2) by (auto simp: spawn_connecting_task_def next_endpoint_idx_def Let_def split: if_splits)
  have "handles_ok s'" using assms(1) unfolding conn_inv_def handles_ok_def fields using less_SucI by blast
  moreover have "metas_ok s'"
    using assms(1,3,4) unfolding conn_inv_def metas_ok_def fields(1,2,3,5) by (auto simp: fields(4))
  ultimately show ?thesis by (simp add: conn_inv_def)
qed

lemma conn_spawn_connecting:
  assumes inv: "conn_inv s" and run: "tpu_spawn_connecting env peer attempt s = Inr s'"
  shows "conn_inv s'"
proof (cases "hm_contains (d_connecting_peers s) peer \<or> peer \<in> d_being_evicted s \<or> hm_contains (d_worker_handles s) peer")
  case True
  then have "tpu_spawn_connecting env peer attempt s = Inr s" unfolding tpu_spawn_connecting_def by presburger
  then have "s' = s" using run by simp
  then show ?thesis using inv by simp
next
  case False
  note run' = run [unfolded tpu_spawn_connecting_def]
  show ?thesis
  proof (cases "get_quic_dest_addr (te_service env) peer (tc_tpu_port (d_config s))")
    case None
    then have "s' = tpu_unreachable_peer peer s" using run' False by simp
    then show ?thesis using conn_cong [OF inv] by simp
  next
    case addr: (Some addr)
    note run'' = run' [unfolded addr option.case]
    consider "evictions_contains_addr addr (d_pending_eviction s)"
      | "\<not> evictions_contains_addr addr (d_pending_eviction s)" "hm_contains (d_connection_map s) addr"
      | "\<not> evictions_contains_addr addr (d_pending_eviction s)" "\<not> hm_contains (d_connection_map s) addr" by blast
    then show ?thesis
    proof cases
      case 1
      then have "s' = s" using run'' False by simp
      then show ?thesis using inv by simp
    next
      case 2
      then have "tpu_install_worker env peer addr s = Inr s'" using run'' False by simp
      then show ?thesis by (rule conn_install [OF inv])
    next
      case 3
      then have no_conn: "hm_get (d_connection_map s) addr = None" by (simp add: map_of_eq_None_iff)
      show ?thesis
      proof (cases "hm_get (d_connecting_addrs s) addr")
        case None
        then have "spawn_connecting_task peer addr attempt s = Inr s'" using run'' False 3 by simp
        then show ?thesis
          using inv None no_conn by (intro conn_spawn_task [OF inv]) (auto simp: conn_inv_def metas_ok_def)
      next
        case tid: (Some tid)
        show ?thesis
        proof (cases "hm_get (d_connecting_meta s) tid")
          case None
          let ?s = "s\<lparr>d_connecting_addrs := hm_remove addr (d_connecting_addrs s)\<rparr>"
          have other: "tm_remote_peer_address m \<noteq> addr" if "hm_get (d_connecting_meta s) tid' = Some m" for tid' m
            using inv that tid None unfolding conn_inv_def metas_ok_def by fastforce
          then have inv': "conn_inv ?s" using inv by (auto simp: conn_inv_def handles_ok_def metas_ok_def)
          have "spawn_connecting_task peer addr attempt ?s = Inr s'" using run'' False 3 tid None by simp
          then show ?thesis using no_conn other by (intro conn_spawn_task [OF inv']) auto
        next
          case (Some m)
          have "s' = s\<lparr>d_connecting_meta := hm_insert tid (m\<lparr>tm_multiplexed_peers := tm_multiplexed_peers m @ [peer]\<rparr>)
              (d_connecting_meta s), d_connecting_peers := hm_insert peer tid (d_connecting_peers s)\<rparr>"
            using run'' False 3 tid Some by simp
          then show ?thesis using inv Some by (auto simp: conn_inv_def handles_ok_def metas_ok_def)
        qed
      qed
    qed
  qed
qed

lemma conn_reattempt: "conn_inv s \<Longrightarrow> tpu_reattempt env m peer s = Inr s' \<Longrightarrow> conn_inv s'"
  by (auto simp: tpu_reattempt_def intro: conn_cong conn_spawn_connecting split: option.splits)

lemma res_fold_keeps:
  "P s \<Longrightarrow> res_fold f xs s = Inr s' \<Longrightarrow> (\<And>x s s'. P s \<Longrightarrow> f x s = Inr s' \<Longrightarrow> P s') \<Longrightarrow> P s'"
  by (induction xs arbitrary: s) auto

lemmas conn_res_fold = res_fold_keeps [of conn_inv]

lemma conn_forget:
  assumes "conn_inv s" and "hm_get (d_connecting_meta s) tid = Some m"
  shows "conn_inv (connecting_forget tid m s)"
    and "hm_get (d_connection_map (connecting_forget tid m s)) (tm_remote_peer_address m) = None"
    and "hm_get (d_connecting_meta (connecting_forget tid m s)) tid' = Some m' \<Longrightarrow>
      tm_remote_peer_address m' \<noteq> tm_remote_peer_address m"
proof -
  have m: "hm_get (d_connecting_addrs s) (tm_remote_peer_address m) = Some tid"
    "hm_get (d_connection_map s) (tm_remote_peer_address m) = None"
    using assms unfolding conn_inv_def metas_ok_def by blast+
  have other: "tm_remote_peer_address m' \<noteq> tm_remote_peer_address m"
    if "hm_get (d_connecting_meta s) t = Some m'" "t \<noteq> tid" for t m'
  proof
    assume "tm_remote_peer_address m' = tm_remote_peer_address m"
    moreover have "hm_get (d_connecting_addrs s) (tm_remote_peer_address m') = Some t"
      using assms(1) that(1) unfolding conn_inv_def metas_ok_def by blast
    ultimately show False using m(1) that(2) by simp
  qed
  then show "conn_inv (connecting_forget tid m s)"
    using assms(1) by (auto simp: conn_inv_def handles_ok_def metas_ok_def connecting_forget_def)
  show "hm_get (d_connection_map (connecting_forget tid m s)) (tm_remote_peer_address m) = None"
    using m(2) by (simp add: connecting_forget_def)
  show "hm_get (d_connecting_meta (connecting_forget tid m s)) tid' = Some m' \<Longrightarrow>
      tm_remote_peer_address m' \<noteq> tm_remote_peer_address m"
    using other by (auto simp: connecting_forget_def split: if_splits)
qed

lemma conn_connecting_ok:
  assumes inv: "conn_inv s" and run: "tpu_handle_connecting_ok env tid result s = Inr s'"
  shows "conn_inv s'"
proof (cases "hm_get (d_connecting_meta s) tid")
  case None
  then show ?thesis using assms by (simp add: tpu_handle_connecting_ok_def)
next
  case (Some m)
  define s1 where "s1 = connecting_forget tid m s"
  let ?peers = "tm_multiplexed_peers m" and ?addr = "tm_remote_peer_address m"
  note F = conn_forget [OF inv Some, folded s1_def]
  have lost: "conn_inv (fold tpu_unreachable_peer ?peers s1)"
    by (rule conn_cong [OF F(1) conn_fields_fold]) simp
  have connected: "conn_inv s'"
    if "res_fold (\<lambda>p. tpu_install_worker env p ?addr) ?peers
      (s1\<lparr>d_connection_version := v, d_connection_map := hm_insert ?addr c (d_connection_map s1)\<rparr>) = Inr s'" for v c
  proof (rule res_fold_keeps [OF _ that conn_install])
    have old: "th_remote_peer_addr h \<noteq> ?addr" if "hm_get (d_worker_handles s1) p = Some h" for p h
      using that F(1,2) unfolding conn_inv_def handles_ok_def by fastforce
    have "handles_ok (s1\<lparr>d_connection_version := v, d_connection_map := hm_insert ?addr c (d_connection_map s1)\<rparr>)"
      using F(1) old by (simp add: conn_inv_def handles_ok_def)
    then show "conn_inv (s1\<lparr>d_connection_version := v, d_connection_map := hm_insert ?addr c (d_connection_map s1)\<rparr>)"
      using F(1,3) by (simp add: conn_inv_def metas_ok_def)
  qed
  show ?thesis
  proof (cases "d_identity s1 = tm_current_client_identity m")
    case False
    then have "res_fold (\<lambda>p. tpu_spawn_connecting env p (tm_connection_attempt m)) ?peers s1 = Inr s'"
      using run by (simp add: tpu_handle_connecting_ok_def Some Let_def s1_def)
    then show ?thesis using conn_spawn_connecting by (rule conn_res_fold [OF F(1)])
  next
    case same: True
    note run' = run [unfolded tpu_handle_connecting_ok_def Some option.case Let_def, folded s1_def]
    show ?thesis
    proof (cases result)
      case (Inr conn)
      then show ?thesis using run' same by (intro connected) (auto simp: next_connection_version_def)
    next
      case (Inl e)
      then show ?thesis
        using run' same lost conn_res_fold [OF F(1) _ conn_reattempt]
        by (cases e) (auto split: if_splits tpu_connect_error.splits)
    qed
  qed
qed

lemma conn_connecting_join_err:
  assumes "conn_inv s"
  shows "conn_inv (tpu_handle_connecting_join_err tid s)"
proof (cases "hm_get (d_connecting_meta s) tid")
  case (Some m)
  have "conn_inv (fold (\<lambda>p. tpu_drop_peer_queued_tx p TpuRemotePeerUnreachable) (tm_multiplexed_peers m) (connecting_forget tid m s))"
    by (rule conn_cong [OF conn_forget(1) [OF assms Some] conn_fields_fold]) simp
  then show ?thesis using Some by (simp add: tpu_handle_connecting_join_err_def)
qed (use assms in \<open>simp add: tpu_handle_connecting_join_err_def\<close>)

text \<open>A worker that is gone: its peer leaves the connection; a connection without peers may be removed.\<close>

lemma conn_remove_worker:
  assumes inv: "conn_inv s" and gone: "hm_get (d_worker_handles s) peer = None"
  shows "conn_inv (remove_worker_from_active_connection now addr peer v s)"
proof (cases "hm_get (d_connection_map s) addr")
  case (Some c)
  show ?thesis
  proof (cases "ac_connection_version c = v")
    case True
    define peers where "peers = hm_remove peer (ac_multiplexed c)"
    define s' where "s' = remove_worker_from_active_connection now addr peer v s"
    have fields: "d_worker_handles s' = d_worker_handles s" "d_connecting_meta s' = d_connecting_meta s"
      "d_connecting_addrs s' = d_connecting_addrs s \<and> d_next_task_id s' = d_next_task_id s \<and> d_worker_set s' = d_worker_set s"
      "d_connection_map s' = hm_insert addr (c\<lparr>ac_multiplexed := peers\<rparr>) (d_connection_map s) \<or>
       peers = [] \<and> d_connection_map s' = hm_remove addr (hm_insert addr (c\<lparr>ac_multiplexed := peers\<rparr>) (d_connection_map s))"
      using True Some
      by (auto simp: s'_def remove_worker_from_active_connection_def Let_def peers_def [symmetric]
          tpu_unblock_eviction_waiting_connection_def tpu_notify_task_def split: list.split)
    have member: "hm_contains peers p" if h: "hm_get (d_worker_handles s) p = Some h" and "th_remote_peer_addr h = addr" for p h
    proof -
      have "hm_contains (ac_multiplexed c) p"
        using inv h that(2) Some unfolding conn_inv_def handles_ok_def uses_connection_def by fastforce
      moreover have "p \<noteq> peer" using gone h by auto
      ultimately show ?thesis by (simp add: peers_def)
    qed
    have lookup: "hm_get (d_connection_map s') a = (if a = addr then hm_get (d_connection_map s') addr else hm_get (d_connection_map s) a)" for a
      using fields(4) by auto
    have "handles_ok s'"
      unfolding handles_ok_def fields(1)
    proof (intro allI impI)
      fix p h assume h: "hm_get (d_worker_handles s) p = Some h"
      obtain d where d: "hm_get (d_connection_map s) (th_remote_peer_addr h) = Some d"
        "uses_connection (d_worker_set s) p h d" "th_task h < d_next_task_id s"
        using inv h unfolding conn_inv_def handles_ok_def by blast
      show "th_task h < d_next_task_id s' \<and> (\<exists>c. hm_get (d_connection_map s') (th_remote_peer_addr h) = Some c \<and>
          uses_connection (d_worker_set s') p h c)"
      proof (cases "th_remote_peer_addr h = addr")
        case True
        have "hm_contains peers p" using member [OF h True] .
        moreover from this have "peers \<noteq> []" by (auto simp: hm_contains_get)
        ultimately show ?thesis using fields(3,4) d Some True by (simp add: uses_connection_def)
      next
        case False
        then show ?thesis using d lookup fields(3) by simp
      qed
    qed
    moreover have "metas_ok s'"
      using inv Some fields(3,4) unfolding conn_inv_def metas_ok_def fields(2) by fastforce
    ultimately show ?thesis by (simp add: conn_inv_def s'_def)
  qed (use Some inv in \<open>simp add: remove_worker_from_active_connection_def\<close>)
qed (use inv in \<open>simp add: remove_worker_from_active_connection_def\<close>)

lemma conn_drop_handles:
  "conn_inv s \<Longrightarrow> d_worker_handles s' = hm_remove peer (d_worker_handles s) \<Longrightarrow> d_connection_map s' = d_connection_map s \<Longrightarrow>
   d_connecting_meta s' = d_connecting_meta s \<Longrightarrow> d_connecting_addrs s' = d_connecting_addrs s \<Longrightarrow>
   d_next_task_id s' = d_next_task_id s \<Longrightarrow> d_worker_set s' = d_worker_set s \<Longrightarrow> conn_inv s'"
  by (simp add: conn_inv_def handles_ok_def metas_ok_def)

lemma conn_rescue: "conn_inv s \<Longrightarrow> rescue_or_drop env peer evicted err s = Inr s' \<Longrightarrow> conn_inv s'"
proof -
  assume inv: "conn_inv s" and run: "rescue_or_drop env peer evicted err s = Inr s'"
  have "conn_inv (s\<lparr>d_last_peer_activity := a\<rparr>)" for a by (rule conn_cong [OF inv]) simp
  then show "conn_inv s'"
    using inv run
    by (auto simp: rescue_or_drop_def split: if_splits intro: conn_cong conn_spawn_connecting)
qed

lemma conn_worker_completed:
  assumes inv: "conn_inv s" and run: "tpu_handle_worker_completed env tid c s = Inr s'"
  shows "conn_inv s'"
proof (cases "hm_get (d_worker_meta s) tid")
  case None
  then have "s' = s\<lparr>d_unreported := d_unreported s @ received_then_pending c\<rparr>"
    using run by (simp add: tpu_handle_worker_completed_def)
  then show ?thesis using conn_cong [OF inv] by simp
next
  case peer: (Some peer)
  define s1 where "s1 = s\<lparr>d_worker_meta := hm_remove tid (d_worker_meta s),
    d_active_peers := snd (peers_remove peer (d_active_peers s)), d_watcher_out := d_watcher_out s @ [DeregisterWatch peer],
    d_being_evicted := d_being_evicted s - {peer}\<rparr>"
  note run' = run [unfolded tpu_handle_worker_completed_def peer option.case Let_def, folded s1_def]
  have inv1: "conn_inv s1" by (rule conn_cong [OF inv]) (simp add: conn_fields_def s1_def)
  show ?thesis
  proof (cases "hm_get (d_worker_handles s1) peer")
    case None
    then have "conn_fields s' = conn_fields s1" using run' by auto
    then show ?thesis by (rule conn_cong [OF inv1])
  next
    case (Some h)
    define s2 where "s2 = s1\<lparr>d_worker_handles := hm_remove peer (d_worker_handles s1)\<rparr>"
    have inv2: "conn_inv s2" by (rule conn_drop_handles [OF inv1]) (simp_all add: s2_def)
    have gone: "hm_get (d_worker_handles s2) peer = None" by (simp add: s2_def)
    define s3 where "s3 = (case hm_get (d_connection_map s2) (th_remote_peer_addr h) of None \<Rightarrow> s2 | Some conn \<Rightarrow>
      if ac_connection_version conn = th_connection_version h
      then remove_worker_from_active_connection (te_now env) (th_remote_peer_addr h) peer (th_connection_version h) s2 else s2)"
    have inv3: "conn_inv s3" using inv2 conn_remove_worker [OF inv2 gone] by (auto simp: s3_def split: option.split)
    have "conn_inv (requeue_all peer (received_then_pending c) (s3\<lparr>d_last_peer_activity := a\<rparr>))" for a
      by (rule conn_cong [OF inv3]) simp
    then show ?thesis
      using run' [unfolded Some option.case, folded s2_def, folded s3_def] by (rule conn_rescue)
  qed
qed

lemma conn_worker_join_err: "conn_inv s \<Longrightarrow> conn_inv (tpu_handle_worker_join_err tid s)"
proof (cases "hm_get (d_worker_meta s) tid")
  case (Some peer)
  assume "conn_inv s"
  then have "conn_inv (s\<lparr>d_worker_meta := m, d_worker_handles := hm_remove peer (d_worker_handles s)\<rparr>)" for m
    by (rule conn_drop_handles) simp_all
  from conn_cong [OF this conn_fields_simps(3)] show ?thesis using Some by (simp add: tpu_handle_worker_join_err_def)
qed (simp add: tpu_handle_worker_join_err_def)

lemma conn_update_identity:
  assumes "tpu_update_identity env me s = Inr s'"
  shows "conn_inv s'"
proof (rule conn_res_fold [OF _ assms [unfolded tpu_update_identity_def Let_def]])
  show "conn_inv ((tpu_schedule_graceful_drop_all_worker s)
      \<lparr>d_connection_map := [], d_orphans := orphan_clear (d_orphans (tpu_schedule_graceful_drop_all_worker s)),
       d_being_evicted := {}, d_pending_eviction := evictions_clear (d_pending_eviction (tpu_schedule_graceful_drop_all_worker s)),
       d_connecting_tasks := [], d_connecting_peers := [], d_connecting_addrs := [], d_blocked := [],
       d_active_addrs := staked_clear (d_active_addrs (tpu_schedule_graceful_drop_all_worker s)), d_connecting_meta := [],
       d_identity := me\<rparr>)"
    by (simp add: conn_inv_def handles_ok_def metas_ok_def tpu_schedule_graceful_drop_all_worker_def)
qed (auto intro: conn_spawn_connecting)

lemma conn_close_orphan:
  assumes inv: "conn_inv s" and run: "close_orphan info s = Inr s'"
  shows "conn_inv s'"
proof (cases "hm_get (d_connection_map s) (oi_remote_peer_addr info)")
  case (Some c)
  show ?thesis
  proof (cases "ac_connection_version c = oi_connection_version info \<and> ac_multiplexed c = []")
    case True
    let ?addr = "oi_remote_peer_addr info"
    let ?s = "s\<lparr>d_connection_map := hm_remove ?addr (d_connection_map s)\<rparr>"
    have used: "th_remote_peer_addr h \<noteq> ?addr" if "hm_get (d_worker_handles s) p = Some h" for p h
      using inv that True Some unfolding conn_inv_def handles_ok_def uses_connection_def by fastforce
    have "conn_inv ?s" using inv used by (simp add: conn_inv_def handles_ok_def metas_ok_def)
    moreover have "conn_fields s' = conn_fields ?s"
      using run Some True by (auto simp: close_orphan_def) (simp add: conn_fields_def)
    ultimately show ?thesis by (rule conn_cong)
  qed (use inv run Some in \<open>auto simp: close_orphan_def split: if_splits\<close>)
qed (use inv run in \<open>simp add: close_orphan_def\<close>)

lemma conn_orphan_timer:
  assumes inv: "conn_inv s" and run: "try_evict_orphan_connections now s = Inr s'"
  shows "conn_inv s'"
proof -
  obtain infos orphans where run': "res_fold close_orphan infos (s\<lparr>d_orphans := orphans\<rparr>) = Inr s'"
    using run by (auto simp: try_evict_orphan_connections_def Let_def split: prod.splits)
  have "conn_inv (s\<lparr>d_orphans := orphans\<rparr>)" by (rule conn_cong [OF inv]) simp
  then show ?thesis using run' conn_close_orphan by (rule conn_res_fold)
qed

lemma task_conn_sent:
  "tpu_try_send_to cap tx (hm_get ws tid) = TpuSendOk t \<Longrightarrow> task_conn (hm_insert tid t ws) = task_conn ws"
  by (cases "(cap, tx, hm_get ws tid)" rule: tpu_try_send_to.cases) (auto simp: task_conn_def fun_eq_iff split: if_splits)

lemma task_conn_step:
  assumes "hm_get ws tid = Some t" and "tpu_iterate_task answers sel now t = (t', out)"
  shows "task_conn (hm_insert tid t' ws) i = None \<or> task_conn (hm_insert tid t' ws) i = task_conn ws i"
  using assms
  by (cases t) (auto simp: task_conn_def tpu_worker_iteration_def
      split: prod.splits option.splits tpu_worker_select.splits list.splits if_splits)

lemma conn_accept:
  assumes inv: "conn_inv s" and run: "tpu_accept_tx env tx s = Inr s'"
  shows "conn_inv s'"
proof -
  define s1 where "s1 = s\<lparr>d_last_peer_activity := hm_insert (gt_remote_peer tx) (te_now env) (d_last_peer_activity s)\<rparr>"
  have frame: "conn_inv s2" if "conn_fields s2 = conn_fields s" for s2 by (rule conn_cong [OF inv that])
  have sent: "conn_fields (s\<lparr>d_last_peer_activity := a, d_worker_set := hm_insert tid t (d_worker_set s)\<rparr>) = conn_fields s"
    if "tpu_try_send_to cap tx (hm_get (d_worker_set s) tid) = TpuSendOk t" for a tid t cap
    using task_conn_sent [OF that] by (simp add: conn_fields_def)
  obtain queued s2 where q: "queue_tx_or_drop (gt_remote_peer tx) tx 1 s1 = (queued, s2)" by fastforce
  have "conn_fields s1 = conn_fields s" by (simp add: s1_def)
  with conn_fields_queue [of "gt_remote_peer tx" tx 1 s1] have "conn_fields s2 = conn_fields s" unfolding q by simp
  then have inv2: "conn_inv s2" by (rule frame)
  have "conn_inv s' \<or> tpu_spawn_connecting env (gt_remote_peer tx) 1 s2 = Inr s'"
    using run inv2 q unfolding tpu_accept_tx_def Let_def s1_def [symmetric]
    by (auto intro!: frame simp: s1_def sent split: if_splits option.splits tpu_try_send.splits)
  then show ?thesis using conn_spawn_connecting [OF inv2] by blast
qed

lemma conn_predicted: "conn_inv s \<Longrightarrow> tpu_spawn_predicted env visited leaders s = Inr s' \<Longrightarrow> conn_inv s'"
  by (induction leaders arbitrary: visited s) (auto split: if_splits intro: conn_spawn_connecting)

lemma conn_loop_top:
  assumes inv: "conn_inv s" and run: "tpu_loop_top plan env s = Inr s'"
  shows "conn_inv s'"
proof -
  define s1 where "s1 = tpu_do_eviction_if_required plan (te_now env) s"
  have "conn_fields (fold tpu_notify_cancel cancels t) = conn_fields t" for cancels t by (rule conn_fields_fold) simp
  moreover have "conn_fields t = conn_fields s" if "fold tpu_evict_peer ps (s, []) = (t, cancels)" for ps t cancels
    using conn_fields_evictions [of ps "(s, [])"] that by simp
  ultimately have "conn_fields s1 = conn_fields s"
    by (auto simp: s1_def tpu_do_eviction_if_required_def Let_def split: prod.split)
  then have inv1: "conn_inv s1" by (rule conn_cong [OF inv])
  obtain s2 where s2: "tpu_try_predict_upcoming_leaders_if_necessary env s1 = Inr s2" "s' = arm_sleep_timer (te_now env) s2"
    using run by (auto simp: tpu_loop_top_def s1_def)
  have "conn_inv (s1\<lparr>d_prediction_deadline := d\<rparr>)" for d by (rule conn_cong [OF inv1]) simp
  then have inv2: "conn_inv s2"
    using s2(1) inv1
    by (auto simp: tpu_try_predict_upcoming_leaders_if_necessary_def intro: conn_predicted split: if_splits option.splits)
  show ?thesis unfolding s2(2) by (rule conn_cong [OF inv2]) (auto simp: arm_sleep_timer_def split: option.split)
qed

lemma conn_addr_change: "conn_inv s \<Longrightarrow> conn_inv (tpu_handle_remote_peer_addr_change env peers s)"
  unfolding tpu_handle_remote_peer_addr_change_def
  by (erule conn_cong, rule conn_fields_fold) (auto simp: tpu_peer_addr_changed_def Let_def split: option.split)

lemma conn_tasklet_join: "conn_fields (tasklet_join_worker tk tid result t s) = conn_fields s"
  by (simp add: tasklet_join_worker_def Let_def split: option.split)

lemma conn_handle:
  assumes inv: "conn_inv s" and run: "tpu_handle env e s = Inr s'"
  shows "conn_inv s'"
proof -
  have frame: "conn_inv s2" if "conn_fields s2 = conn_fields s" for s2 by (rule conn_cong [OF inv that])
  have callbacks: "conn_fields (fold callback_call out t) = conn_fields t" for out t by (rule conn_fields_fold) simp
  show ?thesis
  proof (cases e)
    case (TpuTxInlet tx)
    then show ?thesis using conn_accept [OF inv] run by simp
  next
    case TpuOrphanTimer
    have "conn_inv (s2\<lparr>d_sleep_timer := None\<rparr>)" if "conn_inv s2" for s2 by (rule conn_cong [OF that]) simp
    then show ?thesis
      using run TpuOrphanTimer inv by (auto split: option.splits if_splits dest: conn_orphan_timer [OF inv])
  next
    case (TpuCnc command)
    then show ?thesis using run by (cases command) (auto intro: conn_update_identity)
  next
    case (TpuWorkerJoined tid)
    have "conn_inv (s\<lparr>d_worker_set := hm_remove tid (d_worker_set s)\<rparr>)"
      by (rule conn_fewer_tasks [OF inv]) (auto simp: task_conn_def)
    then show ?thesis
      using run TpuWorkerJoined inv by (auto split: option.splits tpu_worker_task.splits intro: conn_worker_completed)
  next
    case (TpuWorkerJoinErr tid)
    have "conn_inv (s\<lparr>d_worker_set := hm_remove tid (d_worker_set s), d_unreported := u\<rparr>)" for u
      by (rule conn_fewer_tasks [OF inv]) (auto simp: task_conn_def conn_fields_def)
    then show ?thesis using run TpuWorkerJoinErr inv conn_worker_join_err by (auto split: option.splits)
  next
    case (TpuConnectingJoined tid result)
    have "conn_inv (s\<lparr>d_connecting_tasks := w\<rparr>)" for w by (rule frame) simp
    then show ?thesis
      using run TpuConnectingJoined inv by (auto split: option.splits bool.splits intro: conn_connecting_ok)
  next
    case (TpuConnectingJoinErr tid)
    have "conn_inv (s\<lparr>d_connecting_tasks := w\<rparr>)" for w by (rule frame) simp
    then show ?thesis using run TpuConnectingJoinErr inv conn_connecting_join_err by (auto split: if_splits)
  next
    case (TpuTaskletJoined tk)
    have "conn_inv (tpu_handle_tasklet_result tk t (s\<lparr>d_tasklet := w\<rparr>))" for t w
      by (rule frame) (simp add: tpu_handle_tasklet_result_def conn_fields_def)
    then show ?thesis using run TpuTaskletJoined inv by (auto split: option.splits if_splits)
  next
    case (TpuAddrChanges peers)
    then show ?thesis using run conn_addr_change [OF inv] by auto
  next
    case (TpuWorkerStep tid answers sel)
    have "conn_inv (fold callback_call out (s\<lparr>d_worker_set := hm_insert tid t' (d_worker_set s)\<rparr>))"
      if "hm_get (d_worker_set s) tid = Some t" "tpu_iterate_task answers sel (te_now env) t = (t', out)" for t t' out
    proof (rule conn_cong [OF _ callbacks])
      show "conn_inv (s\<lparr>d_worker_set := hm_insert tid t' (d_worker_set s)\<rparr>)"
        by (rule conn_fewer_tasks [OF inv]) (simp, simp add: task_conn_step [OF that])
    qed
    then show ?thesis using run TpuWorkerStep inv by (auto split: option.splits prod.splits)
  next
    case (TpuDetachedStep tk tid answers sel)
    then show ?thesis using run inv by (auto intro!: frame simp: callbacks split: option.splits prod.splits)
  next
    case (TpuDetachedJoined tk tid)
    then show ?thesis
      using run inv by (auto intro!: frame simp: conn_tasklet_join split: option.splits tpu_worker_task.splits)
  next
    case (TpuDetachedJoinErr tk tid)
    then show ?thesis using run inv by (auto intro!: frame simp: conn_tasklet_join split: option.splits)
  qed (use inv run in simp)
qed

lemma conn_step: "conn_inv s \<Longrightarrow> tpu_step plan ev s = Inr s' \<Longrightarrow> conn_inv s'"
  by (cases ev) (auto simp: tpu_step_def split: if_splits dest: conn_handle intro: conn_loop_top)

lemma conn_run:
  assumes "tpu_spawn_on bind c me has_callback now = Inr s0" and "tpu_run plan env es s0 = Inr s"
  shows "conn_inv s"
proof -
  have "conn_inv s0"
    using assms(1) by (auto simp: tpu_spawn_on_def Let_def conn_inv_def handles_ok_def metas_ok_def split: if_splits)
  moreover obtain s1 where "tpu_loop_top plan env s0 = Inr s1" "res_fold (tpu_step plan) es s1 = Inr s"
    using assms(2) by (auto simp: tpu_run_def)
  ultimately show ?thesis using conn_loop_top conn_step conn_res_fold by blast
qed

text \<open>
  C31. Every worker sends over the connection the driver believes it uses. Whatever happened before, the peer of a worker
  is listed at the connection that is in the map under the address of its handle, with the version of the handle, and
  the task of a worker that is still running holds that very connection.
\<close>

theorem tpu_worker_has_its_connection:
  assumes "tpu_spawn_on bind c me has_callback now = Inr s0" and "tpu_run plan env es s0 = Inr s"
    and "hm_get (d_worker_handles s) peer = Some h"
  shows "\<exists>conn. hm_get (d_connection_map s) (th_remote_peer_addr h) = Some conn \<and>
    ac_connection_version conn = th_connection_version h \<and> hm_contains (ac_multiplexed conn) peer \<and>
    (\<forall>qc w last_activity burst_timer. hm_get (d_worker_set s) (th_task h) = Some (TpuRunning qc w last_activity burst_timer)
       \<longrightarrow> qc = ac_conn conn)"
proof -
  obtain conn where conn: "hm_get (d_connection_map s) (th_remote_peer_addr h) = Some conn"
    "uses_connection (d_worker_set s) peer h conn"
    using conn_run [OF assms(1,2)] assms(3) unfolding conn_inv_def handles_ok_def by blast
  then show ?thesis by (auto simp: uses_connection_def task_conn_def)
qed

section \<open>A lost connection is used again\<close>

lemma queue_tx_nonempty:
  assumes "0 < tc_worker_channel_capacity (d_config s)"
  shows "queue_of (d_tx_queues (snd (queue_tx_or_drop p tx n s))) p \<noteq> []"
  using assms by (cases "hm_get (d_tx_queues s) p") (auto simp: queue_tx_or_drop_def tpu_drop_single_tx_def)

definition rescue_fields :: "tpu_driver \<Rightarrow> _" where
  "rescue_fields s = (d_config s, d_being_evicted s, d_connecting_peers s, d_pending_eviction s, d_connecting_tasks s)"

lemma rescue_fields_queue: "rescue_fields (snd (queue_tx_or_drop p tx n s)) = rescue_fields s"
  by (simp add: queue_tx_or_drop_def tpu_drop_single_tx_def callback_call_def rescue_fields_def)

lemma rescue_fields_requeue: "rescue_fields (requeue_all p q s) = rescue_fields s"
  unfolding requeue_all_def by (induction q arbitrary: s) (auto simp: rescue_fields_queue)

lemma requeue_nonempty:
  "0 < tc_worker_channel_capacity (d_config s) \<Longrightarrow> q \<noteq> [] \<Longrightarrow> queue_of (d_tx_queues (requeue_all p q s)) p \<noteq> []"
proof (induction q arbitrary: s rule: rev_induct)
  case (snoc e q)
  obtain tx n where e: "e = (tx, n)" by fastforce
  have "0 < tc_worker_channel_capacity (d_config (requeue_all p q s))"
    using snoc.prems(1) rescue_fields_requeue [of p q s] by (simp add: rescue_fields_def)
  from queue_tx_nonempty [OF this] show ?case unfolding e by (simp add: requeue_all_def)
qed simp

lemma spawn_reuses_connection:
  assumes "\<not> hm_contains (d_connecting_peers s) peer" and "peer \<notin> d_being_evicted s"
    and "\<not> hm_contains (d_worker_handles s) peer"
    and "get_quic_dest_addr (te_service env) peer (tc_tpu_port (d_config s)) = Some addr"
    and "d_pending_eviction s = evictions_default" and "hm_get (d_connection_map s) addr = Some c"
    and "0 < tc_worker_channel_capacity (d_config s)"
  shows "\<exists>s'. tpu_spawn_connecting env peer attempt s = Inr s' \<and> d_connecting_tasks s' = d_connecting_tasks s \<and>
    hm_get (d_worker_handles s') peer = Some \<lparr>th_remote_peer_addr = addr, th_connection_version = ac_connection_version c,
      th_task = d_next_task_id s\<rparr> \<and>
    task_conn (d_worker_set s') (d_next_task_id s) = Some (ac_conn c)"
proof -
  have "hm_contains (d_connection_map s) addr" using assms(6) by (simp add: hm_contains_get)
  then have "tpu_spawn_connecting env peer attempt s = tpu_install_worker env peer addr s"
    using assms by (simp add: tpu_spawn_connecting_def evictions_contains_addr_def evictions_default_def)
  then show ?thesis
    using assms by (simp add: tpu_install_worker_def Let_def task_conn_def tpu_worker_start_def)
qed

text \<open>
  C32. A connection that was lost is used again. When a worker ends because its connection was lost and it still has
  transactions, the driver does not connect anew: the connection stays in the map, and the next worker is started on
  the same lost connection. This holds for every error but a version mismatch, with no eviction under way and the
  address unchanged.
\<close>

theorem lost_connection_is_reused:
  assumes peer: "hm_get (d_worker_meta s) tid = Some peer" and h: "hm_get (d_worker_handles s) peer = Some h"
    and conn: "hm_get (d_connection_map s) (th_remote_peer_addr h) = Some c"
    and version: "ac_connection_version c = th_connection_version h"
    and calm: "d_pending_eviction s = evictions_default" "peer \<notin> d_being_evicted s" "\<not> hm_contains (d_connecting_peers s) peer"
    and addr: "get_quic_dest_addr (te_service env) peer (tc_tpu_port (d_config s)) = Some (th_remote_peer_addr h)"
    and lost: "wc_err w = Some (ConnectionLost e)" "e \<noteq> VersionMismatch"
    and pending: "wc_pending_tx w \<noteq> []" and room: "0 < tc_worker_channel_capacity (d_config s)"
  shows "\<exists>s' h'. tpu_handle_worker_completed env tid w s = Inr s' \<and> hm_get (d_worker_handles s') peer = Some h' \<and>
    th_remote_peer_addr h' = th_remote_peer_addr h \<and> th_connection_version h' = th_connection_version h \<and>
    task_conn (d_worker_set s') (th_task h') = Some (ac_conn c) \<and> d_connecting_tasks s' = d_connecting_tasks s"
proof -
  let ?addr = "th_remote_peer_addr h"
  define s2 where "s2 = s\<lparr>d_worker_meta := hm_remove tid (d_worker_meta s),
    d_active_peers := snd (peers_remove peer (d_active_peers s)), d_watcher_out := d_watcher_out s @ [DeregisterWatch peer],
    d_being_evicted := d_being_evicted s - {peer}, d_worker_handles := hm_remove peer (d_worker_handles s)\<rparr>"
  define s3 where "s3 = remove_worker_from_active_connection (te_now env) ?addr peer (th_connection_version h) s2"
  define s4 where "s4 = requeue_all peer (received_then_pending w) (s3\<lparr>d_last_peer_activity := hm_remove peer (d_last_peer_activity s3)\<rparr>)"
  define s5 where "s5 = s4\<lparr>d_last_peer_activity := hm_insert peer (te_now env) (d_last_peer_activity s4)\<rparr>"
  have completed: "tpu_handle_worker_completed env tid w s = rescue_or_drop env peer False (wc_err w) s4"
    using peer h conn version calm by (simp add: tpu_handle_worker_completed_def Let_def s2_def s3_def s4_def)
  have s3: "rescue_fields s3 = rescue_fields s2" "d_worker_handles s3 = d_worker_handles s2"
    "hm_get (d_connection_map s3) ?addr = Some (c\<lparr>ac_multiplexed := hm_remove peer (ac_multiplexed c)\<rparr>)"
    using conn version calm
    by (simp_all add: s3_def s2_def remove_worker_from_active_connection_def Let_def rescue_fields_def
        evictions_contains_def evictions_default_def)
  have s5: "rescue_fields s5 = rescue_fields s2" "conn_fields s5 = conn_fields s3" "d_tx_queues s5 = d_tx_queues s4"
    using s3(1) rescue_fields_requeue [of peer "received_then_pending w"]
    by (simp_all add: s4_def s5_def) (simp add: rescue_fields_def)
  have "0 < tc_worker_channel_capacity (d_config (s3\<lparr>d_last_peer_activity := hm_remove peer (d_last_peer_activity s3)\<rparr>))"
    using room s3(1) by (simp add: rescue_fields_def s2_def)
  from requeue_nonempty [OF this] have "queue_of (d_tx_queues s4) peer \<noteq> []" using pending unfolding s4_def by blast
  then have "rescue_or_drop env peer False (wc_err w) s4 = tpu_spawn_connecting env peer 1 s5"
    using lost by (simp add: rescue_or_drop_def s5_def)
  moreover have "\<exists>s'. tpu_spawn_connecting env peer 1 s5 = Inr s' \<and> d_connecting_tasks s' = d_connecting_tasks s5 \<and>
      hm_get (d_worker_handles s') peer = Some \<lparr>th_remote_peer_addr = ?addr,
        th_connection_version = ac_connection_version (c\<lparr>ac_multiplexed := hm_remove peer (ac_multiplexed c)\<rparr>),
        th_task = d_next_task_id s5\<rparr> \<and>
      task_conn (d_worker_set s') (d_next_task_id s5) = Some (ac_conn (c\<lparr>ac_multiplexed := hm_remove peer (ac_multiplexed c)\<rparr>))"
    by (rule spawn_reuses_connection) (use s5 s3 calm addr room in \<open>auto simp: rescue_fields_def conn_fields_def s2_def\<close>)
  ultimately show ?thesis
    using completed s5(1) version by (auto simp: rescue_fields_def s2_def)
qed

section \<open>Unused connections stand in the way of evictions\<close>


section \<open>Witnesses\<close>

text \<open>A transaction arrives for a peer, and the connection is made: its worker runs on connection 7.\<close>

definition ex_tpu_connected :: tpu_driver where
  "ex_tpu_connected = ex_tpu_start
     \<lparr>d_worker_handles := [(Pubkey 1, \<lparr>th_remote_peer_addr = SocketAddr 1 8000, th_connection_version = 0, th_task = 1\<rparr>)],
      d_active_peers := \<lparr>peer_stake_map = [(Pubkey 1, 10)], sorted_map = [(10, [Pubkey 1])]\<rparr>,
      d_worker_meta := [(1, Pubkey 1)],
      d_worker_set := [(1, TpuRunning 7 \<lparr>w_remote_peer = Pubkey 1, w_remote_addr = SocketAddr 1 8000, w_incoming = [],
        w_senders_open = True, w_tx_queue = [(ex_gtx 1, 1)], w_cancel = False, w_max_tx_attempt = 3\<rparr> 2 10000000002)],
      d_last_peer_activity := [(Pubkey 1, 1)], d_watcher_out := [RegisterWatch (Pubkey 1) (SocketAddr 1 8000)],
      d_prediction_deadline := tpu_forever,
      d_connection_map := [(SocketAddr 1 8000, \<lparr>ac_remote_peer_addr = SocketAddr 1 8000, ac_conn = 7,
        ac_connection_version = 0, ac_multiplexed = [(Pubkey 1, 10)]\<rparr>)],
      d_connection_version := 1, d_active_addrs := snd (peers_insert (SocketAddr 1 8000) 10 peers_default),
      d_next_task_id := 2\<rparr>"

lemmas tpu_connect_eval = tpu_handle_connecting_ok_def connecting_forget_def next_connection_version_def
  tpu_install_worker_def total_stake_def peers_insert_def peers_remove_def peers_default_def orphan_remove_def
  tpu_worker_start_def max_idle_duration_def

lemma ex_tpu_connected_run:
  "tpu_run (stake_based_plan 800) (ex_tpu_env 0)
     [(ex_tpu_env 1, TpuTxInlet (ex_gtx 1)), (ex_tpu_env 2, TpuConnectingJoined 0 (Inr 7))] ex_tpu_start = Inr ex_tpu_connected"
  by (simp add: ex_tpu_connected_def tpu_run_def tpu_eval ex_tpu_start_eq ex_config tpu_connect_eval tpu_forever_def
      ex_tpu_config_def tpu_config_default_def del: res_bind_eq_Inr)

theorem tpu_worker_has_its_connection_witness:
  "\<exists>conn h. hm_get (d_worker_handles ex_tpu_connected) (Pubkey 1) = Some h \<and>
     hm_get (d_connection_map ex_tpu_connected) (th_remote_peer_addr h) = Some conn \<and> ac_conn conn = 7 \<and>
     ac_connection_version conn = th_connection_version h"
  using tpu_worker_has_its_connection [OF ex_tpu_spawn ex_tpu_connected_run, of "Pubkey 1"]
  by (simp add: ex_tpu_connected_def)

text \<open>The worker ends with a lost connection while its transaction waits for the second attempt.\<close>

abbreviation ex_lost_worker :: tx_sender_worker_completed where
  "ex_lost_worker \<equiv> \<lparr>wc_err = Some (ConnectionLost TimedOut), wc_rx = [], wc_pending_tx = [(ex_gtx 1, 2)], wc_canceled = False\<rparr>"

theorem lost_connection_is_reused_witness:
  "\<exists>s' h'. tpu_handle_worker_completed (ex_tpu_env 3) 1 ex_lost_worker ex_tpu_connected = Inr s' \<and>
     hm_get (d_worker_handles s') (Pubkey 1) = Some h' \<and> task_conn (d_worker_set s') (th_task h') = Some 7 \<and>
     d_connecting_tasks s' = []"
proof -
  let ?h = "\<lparr>th_remote_peer_addr = SocketAddr 1 8000, th_connection_version = 0, th_task = 1\<rparr>"
    and ?c = "\<lparr>ac_remote_peer_addr = SocketAddr 1 8000, ac_conn = 7, ac_connection_version = 0, ac_multiplexed = [(Pubkey 1, 10)]\<rparr>"
  have "\<exists>s' h'. tpu_handle_worker_completed (ex_tpu_env 3) 1 ex_lost_worker ex_tpu_connected = Inr s' \<and>
      hm_get (d_worker_handles s') (Pubkey 1) = Some h' \<and> th_remote_peer_addr h' = th_remote_peer_addr ?h \<and>
      th_connection_version h' = th_connection_version ?h \<and> task_conn (d_worker_set s') (th_task h') = Some (ac_conn ?c) \<and>
      d_connecting_tasks s' = d_connecting_tasks ex_tpu_connected"
    by (rule lost_connection_is_reused [where e = TimedOut]) (simp_all add: ex_tpu_connected_def ex_tpu_start_eq ex_config)
  moreover have "d_connecting_tasks ex_tpu_connected = []" by (simp add: ex_tpu_connected_def ex_tpu_start_eq)
  ultimately show ?thesis by auto
qed

text \<open>The only connection has no worker any more, and a task waits for an eviction.\<close>

definition ex_tpu_waiting :: tpu_driver where
  "ex_tpu_waiting = ex_tpu_start
     \<lparr>d_connection_map := [(SocketAddr 1 8000, \<lparr>ac_remote_peer_addr = SocketAddr 1 8000, ac_conn = 7,
        ac_connection_version = 0, ac_multiplexed = []\<rparr>)],
      d_active_addrs := snd (peers_insert (SocketAddr 1 8000) 0 peers_default),
      d_blocked := [(SocketAddr 2 8000, 3)]\<rparr>"


end
