(* ===== verification/Spec2Isabelle.thy ===== *)
theory Spec2Isabelle
  imports Jet_System Jet_Lewis Jet_Http Jet_Challenger Jet_Stake Tpu_Sender Tpu_Info Tpu_Driver_Conn
begin

text \<open>
  A verification development for \<open>yellowstone-jet\<close>, a Solana transaction relay. It receives transactions over
  JSON RPC, HTTP and a gRPC stream, schedules them with retries until they land, and forwards them over QUIC
  to the validators that will lead next.

  \<^bold>\<open>The parts and how they interact.\<close> A transaction enters through a handler (\<open>transaction_handler.rs\<close>, called by
  \<open>rpc.rs\<close>, \<open>http_tx_handler.rs\<close> and \<open>grpc_jet.rs\<close>), which decodes and checks it and puts a request into the
  channel of a scheduler (\<open>transactions.rs\<close>). The retry scheduler pools it, asks the block hash queue
  (\<open>blockhash_queue.rs\<close>) how long it is valid, watches for its landing at the rooted transaction state
  (\<open>rooted_transaction_state.rs\<close>), and hands it to the fanout (\<open>transactions.rs\<close>) again and again. The fanout asks
  the cluster information (\<open>cluster_tpu_info.rs\<close>) for the next leaders and sends a copy for each of them to the QUIC
  gateway (\<open>quic_client/core.rs\<close>), which keeps one worker per connected peer, opens and evicts connections, and
  reports every copy as sent, failed or dropped; the report clears the fanout's mark that the transaction is in
  flight. Slots, block metadata and landed transactions come from the Geyser subscriber (\<open>grpc_geyser.rs\<close>).

  \<^bold>\<open>The theories.\<close> All file names are under \<open>src/apps/jet/src\<close>.

  \<^item> \<open>Jet_Prelude\<close>: identifiers, machine integers, panics as values, hash maps and ordered maps as association lists.
  \<^item> \<open>Jet_Util\<close> (\<open>util/mod.rs\<close>): commitment levels, slot statuses, the incremental backoff and the retry loop around it.
  \<^item> \<open>Jet_Geyser\<close> (\<open>grpc_geyser.rs\<close>): slot tracking and the handlers of slot, metadata and transaction updates. A
    commitment is announced once both the status and the metadata of a slot are known, in either order, and
    never otherwise.
  \<^item> \<open>Jet_Rooted\<close> (\<open>rooted_transaction_state.rs\<close>, \<open>GrpcRootedTxReceiver\<close> of \<open>transactions.rs\<close>): the state machine that
    knows where a transaction landed; its invariant, its notifications and its clean-up. The locale
    \<open>rooted_tx_receiver\<close> is the trait its client relies on.
  \<^item> \<open>Jet_Blockhash\<close> (\<open>blockhash_queue.rs\<close>): block heights; the locale \<open>block_height_service\<close>.
  \<^item> \<open>Jet_Scheduler\<close> (\<open>transactions.rs\<close>): both schedulers. Termination of the resend loop, the bound on the number of
    sends, no resend after landing, tracking of pooled transactions, clean-up.
  \<^item> \<open>Jet_Cluster\<close> (\<open>cluster_tpu_info.rs\<close>, \<open>quic_client/jet_intg.rs\<close>): latest slot, leader schedule and contact
    addresses with the two update tasks as interleaved steps; the locale \<open>upcoming_leader_schedule\<close>.
  \<^item> \<open>Jet_Fanout\<close> (\<open>transactions.rs\<close>): destinations of a transaction, absence of panics, the bound on copies per response.
  \<^item> \<open>Jet_Eviction\<close>, \<open>Jet_Worker\<close>, \<open>Jet_Watcher\<close>, \<open>Jet_Gateway\<close> (\<open>quic_client/core.rs\<close>): peers ordered by stake and
    the eviction strategy (locales \<open>eviction_strategy\<close> and \<open>answering_strategy\<close>), the worker of a connection, the
    watcher of peer addresses, and the runtime of the gateway with all its handlers. \<open>Jet_Gateway_Safety\<close> has its
    invariants and shows that it does not panic; \<open>Jet_Gateway_Flow\<close> shows that no transaction is lost or reported twice
    and what an identity change and the connection limit do.
  \<^item> \<open>Jet_Payload\<close> (\<open>payload.rs\<close>, \<open>solana.rs\<close>, \<open>transaction_handler.rs\<close>, \<open>rpc.rs\<close>, \<open>grpc_jet.rs\<close>): the two payload
    formats and their round trips, the entry points of the transaction handler and their agreement.
  \<^item> \<open>Jet_Http\<close> (\<open>http_tx_handler.rs\<close>): parameters, the request handler and its status codes.
  \<^item> \<open>Jet_Challenger\<close> (\<open>pubkey_challenger.rs\<close>): the challenge that proves ownership of a key and the one-time tokens
    it gives; the locale \<open>one_time_token_store\<close>.
  \<^item> \<open>Jet_Rpc\<close> (\<open>solana_rpc_utils.rs\<close>, also of the TPU client): transient errors and the retrying sender.
  \<^item> \<open>Jet_Float\<close>, \<open>Jet_Stake\<close> (\<open>stake.rs\<close>, also of the TPU client): \<open>f64\<close> arithmetic with its rounding, the limits that
    follow from a stake, the cache of stakes and its refresh task.
  \<^item> \<open>Jet_Lewis\<close> (\<open>grpc_lewis.rs\<close>, part of \<open>config.rs\<close> and of \<open>bin/jet.rs\<close>): the pipeline that reports the fate of
    transactions, which accounts for every event, and the set of tasks of the relay, which its time limit ends.
  \<^item> \<open>Jet_System\<close> (wiring in \<open>bin/jet.rs\<close>): scheduler, fanout and gateway connected by their channels; the
    composed system does not panic, and reports are bounded by the attempts granted.

  The crate \<open>src/crates/tpu-client\<close>, a client library with a gateway of its own:

  \<^item> \<open>Tpu_Schedule\<close> (\<open>slot.rs\<close>, \<open>yellowstone_grpc/slot_tracker.rs\<close>, \<open>rpc/schedule.rs\<close>, \<open>yellowstone_grpc/schedule.rs\<close>): the
    slot tracker over its reconnections, the compact leader schedule with its round trip, the managed schedule of two
    epochs and the prediction of leaders.
  \<^item> \<open>Tpu_Sender\<close> (\<open>sender.rs\<close>, \<open>yellowstone_grpc/sender.rs\<close>): what a send puts into the channel of the driver, and the
    tasks behind a sender.
  \<^item> \<open>Tpu_Info\<close> (\<open>rpc/tpu_info.rs\<close>): the incrementally updated table of addresses.
  \<^item> \<open>Tpu_Sets\<close>, \<open>Tpu_Eviction\<close>, \<open>Tpu_Worker\<close>, \<open>Tpu_Driver\<close> (\<open>core.rs\<close>, \<open>config.rs\<close>): the driver, in which peers at one
    address share a connection. \<open>Tpu_Sets\<close> has the set of unused connections, shown to be a map with an expiry (locale
    \<open>expiring_set\<close>), and the reference-counted set of evictions; \<open>Tpu_Eviction\<close> the eviction of whole connections,
    whose plan without addresses fulfils the contract of the relay's strategy; \<open>Tpu_Worker\<close> the worker with its idle
    exit, whose send loop equals that of the relay; \<open>Tpu_Driver\<close> the state, every handler and the loop.
  \<^item> \<open>Tpu_Driver_Flow\<close>: the locales \<open>driver_invariant\<close>, \<open>driver_identity_invariant\<close> and \<open>driver_open_invariant\<close> list what has
    to be kept by the primitive state changes so that every handler keeps an invariant; they are interpreted to
    show that no event makes the driver panic, that every transaction is accounted for, and what a change of identity
    loses.
  \<^item> \<open>Tpu_Driver_Conn\<close>: which worker runs on which connection, in every reachable state; what becomes of a connection that
    was lost, and what unused connections do to evictions.

  \<^bold>\<open>How state and effects are modelled.\<close> A struct is a record, an enum a datatype, a method a function from the old to
  the new state. Channels are lists; a task is a step function, and tasks that run concurrently are interleaved in
  any order, as lists of events. A panic is a value (\<open>panic + 'a\<close>), so the absence of panics is proved as a theorem
  about runs. Slots and heights are 64-bit words with the wrap-around of a release build. Time is a parameter of
  every step that reads the clock.

  \<^bold>\<open>Parameters.\<close> Code of other crates is a parameter: the outcome of sending on a QUIC stream, the answers of RPC
  nodes, the epoch schedule, the codecs (bincode, base58, base64, JSON), the parser of form data, the policy
  store. What is relied on is a named hypothesis (\<open>epoch_schedule_ok\<close>, \<open>codecs_ok\<close>), with an instance for
  which it holds.

  \<^bold>\<open>Bounds and fuel.\<close> No definition uses fuel: the loops of the program that run for ever are runs over lists of
  events of any length, and the loops that end are recursive functions with termination proofs (the resend loop by the
  attempts left, the send loop of a worker by the attempts of its queue).

  \<^bold>\<open>Not modelled.\<close> Metrics and log lines; command line and configuration files; the network servers and clients
  themselves (hyper, tonic, quinn, TLS), including the QUIC handshake inside a connecting task and the set-up of a
  gRPC subscription; the permit and the barrier with which a client of
  \<open>crates/tpu-client\<close> waits for a change of identity.
\<close>

end
